(* ===== verification/Warden_Prelude.thy ===== *)
theory Warden_Prelude
  imports Main "HOL-Library.Word" "HOL-Library.Sublist" "HOL-Library.Char_ord"
    "HOL-Library.List_Lexorder"
begin

text \<open>
  The shared layer of the development: names for the Rust types the model
  uses, the operations of Rust's standard library the sources call on strings,
  options, results and fixed-width integers, and the generic facts about them
  that the component theories use.

  Strings are byte sequences (\<^typ>\<open>string\<close>, one \<^typ>\<open>char\<close> per UTF-8 byte), so
  \<open>str::len\<close> is \<^term>\<open>length\<close> and the order of \<open>HOL-Library.List_Lexorder\<close> is the
  bytewise order of \<open>str::cmp\<close>.
\<close>

section \<open>Collections of facts\<close>

named_theorems warden_ok
  \<open>what a successful result of a fallible operation says\<close>

named_theorems warden_inv
  \<open>preservation of component invariants\<close>

section \<open>Types\<close>

type_synonym u8 = "8 word"
type_synonym u16 = "16 word"
type_synonym u32 = "32 word"
type_synonym u64 = "64 word"
type_synonym ('e, 'a) result = "'e + 'a"

section \<open>Results\<close>

fun rbind :: "('e, 'a) result \<Rightarrow> ('a \<Rightarrow> ('e, 'b) result) \<Rightarrow> ('e, 'b) result" where
  "rbind (Inl e) f = Inl e"
| "rbind (Inr x) f = f x"

fun map_err :: "('e \<Rightarrow> 'f) \<Rightarrow> ('e, 'a) result \<Rightarrow> ('f, 'a) result" where
  "map_err g (Inl e) = Inl (g e)"
| "map_err g (Inr x) = Inr x"

fun result_ok :: "('e, 'a) result \<Rightarrow> 'a option" where
  "result_ok (Inl e) = None"
| "result_ok (Inr x) = Some x"

text \<open>A \<open>for\<close> loop whose body may return early with an error.\<close>

fun try_fold :: "('s \<Rightarrow> 'a \<Rightarrow> ('e, 's) result) \<Rightarrow> 's \<Rightarrow> 'a list \<Rightarrow> ('e, 's) result" where
  "try_fold f s [] = Inr s"
| "try_fold f s (x # xs) = rbind (f s x) (\<lambda>s'. try_fold f s' xs)"

lemma rbind_Inr_iff [warden_ok]:
  "rbind m f = Inr y \<longleftrightarrow> (\<exists>x. m = Inr x \<and> f x = Inr y)"
  by (cases m) auto

lemma rbind_Inl_iff:
  "rbind m f = Inl e \<longleftrightarrow> m = Inl e \<or> (\<exists>x. m = Inr x \<and> f x = Inl e)"
  by (cases m) auto

lemma map_err_Inr_iff [warden_ok]: "map_err g m = Inr y \<longleftrightarrow> m = Inr y"
  by (cases m) auto

lemma map_err_Inl_iff: "map_err g m = Inl e \<longleftrightarrow> (\<exists>d. m = Inl d \<and> e = g d)"
  by (cases m) auto

lemma result_ok_Some_iff [warden_ok]: "result_ok m = Some y \<longleftrightarrow> m = Inr y"
  by (cases m) auto

lemma if_Inl_eq_Inr [warden_ok]:
  "(if b then Inl e else m) = Inr y \<longleftrightarrow> \<not> b \<and> m = Inr y"
  "(if b then m else Inl e) = Inr y \<longleftrightarrow> b \<and> m = Inr y"
  by auto

lemma try_fold_append:
  "try_fold f s (xs @ ys) = rbind (try_fold f s xs) (\<lambda>s'. try_fold f s' ys)"
proof (induction xs arbitrary: s)
  case Nil
  show ?case by simp
next
  case (Cons x xs)
  show ?case by (cases "f s x") (simp_all add: Cons.IH)
qed

lemma try_fold_invariant:
  assumes "try_fold f s xs = Inr s'" and "I s"
    and "\<And>s x s'. x \<in> set xs \<Longrightarrow> I s \<Longrightarrow> f s x = Inr s' \<Longrightarrow> I s'"
  shows "I s'"
  using assms
proof (induction xs arbitrary: s)
  case Nil
  then show ?case by simp
next
  case (Cons x xs)
  then obtain t where t: "f s x = Inr t" "try_fold f t xs = Inr s'"
    by (auto simp: rbind_Inr_iff)
  then show ?case using Cons by (metis list.set_intros)
qed

section \<open>Bytes and strings\<close>

abbreviation byte :: "char \<Rightarrow> nat" where
  "byte c \<equiv> of_char c"

definition is_ascii_digit :: "char \<Rightarrow> bool" where
  "is_ascii_digit c \<longleftrightarrow> 48 \<le> byte c \<and> byte c \<le> 57"

definition is_ascii_uppercase :: "char \<Rightarrow> bool" where
  "is_ascii_uppercase c \<longleftrightarrow> 65 \<le> byte c \<and> byte c \<le> 90"

definition is_ascii_lowercase :: "char \<Rightarrow> bool" where
  "is_ascii_lowercase c \<longleftrightarrow> 97 \<le> byte c \<and> byte c \<le> 122"

definition is_ascii_alphanumeric :: "char \<Rightarrow> bool" where
  "is_ascii_alphanumeric c \<longleftrightarrow>
     is_ascii_digit c \<or> is_ascii_uppercase c \<or> is_ascii_lowercase c"

definition to_ascii_lower :: "char \<Rightarrow> char" where
  "to_ascii_lower c = (if is_ascii_uppercase c then char_of (byte c + 32) else c)"

definition to_ascii_lowercase :: "string \<Rightarrow> string" where
  "to_ascii_lowercase s = map to_ascii_lower s"

lemmas ascii_defs = is_ascii_digit_def is_ascii_uppercase_def is_ascii_lowercase_def
  is_ascii_alphanumeric_def to_ascii_lower_def

lemma byte_to_ascii_lower:
  "byte (to_ascii_lower c) = (if is_ascii_uppercase c then byte c + 32 else byte c)"
  by (simp add: to_ascii_lower_def is_ascii_uppercase_def)

lemma to_ascii_lower_idem [simp]: "to_ascii_lower (to_ascii_lower c) = to_ascii_lower c"
  using byte_to_ascii_lower [of c]
  by (auto simp: to_ascii_lower_def is_ascii_uppercase_def split: if_splits)

lemma to_ascii_lowercase_idem [simp]:
  "to_ascii_lowercase (to_ascii_lowercase s) = to_ascii_lowercase s"
  by (simp add: to_ascii_lowercase_def)

lemma length_to_ascii_lowercase [simp]: "length (to_ascii_lowercase s) = length s"
  by (simp add: to_ascii_lowercase_def)

lemma to_ascii_lowercase_Nil_iff [simp]: "to_ascii_lowercase s = [] \<longleftrightarrow> s = []"
  by (simp add: to_ascii_lowercase_def)

lemma to_ascii_lower_other:
  "\<not> is_ascii_uppercase c \<Longrightarrow> to_ascii_lower d = c \<longleftrightarrow> d = c \<or> (is_ascii_uppercase d \<and> c = char_of (byte d + 32))"
  by (auto simp: to_ascii_lower_def)

lemma of_char_eq_iff_char: "byte c = byte d \<longleftrightarrow> c = d"
  by simp

subsection \<open>Slicing\<close>

definition strip_prefix :: "string \<Rightarrow> string \<Rightarrow> string option" where
  "strip_prefix p s = (if prefix p s then Some (drop (length p) s) else None)"

definition strip_suffix :: "string \<Rightarrow> string \<Rightarrow> string option" where
  "strip_suffix p s = (if suffix p s then Some (take (length s - length p) s) else None)"

fun find_char :: "char \<Rightarrow> string \<Rightarrow> nat option" where
  "find_char c [] = None"
| "find_char c (x # xs) = (if x = c then Some 0 else map_option Suc (find_char c xs))"

fun split_on :: "char \<Rightarrow> string \<Rightarrow> string list" where
  "split_on c [] = [[]]"
| "split_on c (x # xs) =
     (if x = c then [] # split_on c xs
      else (case split_on c xs of [] \<Rightarrow> [[x]] | p # ps \<Rightarrow> (x # p) # ps))"

definition unwrap_or :: "'a \<Rightarrow> 'a option \<Rightarrow> 'a" where
  "unwrap_or d x = (case x of None \<Rightarrow> d | Some v \<Rightarrow> v)"

lemma unwrap_or_simps [simp]: "unwrap_or d None = d" "unwrap_or d (Some v) = v"
  by (simp_all add: unwrap_or_def)

lemma find_char_None_iff: "find_char c s = None \<longleftrightarrow> c \<notin> set s"
  by (induction s) auto

lemma find_char_append_Cons: "c \<notin> set xs \<Longrightarrow> find_char c (xs @ c # ys) = Some (length xs)"
  by (induction xs) auto

lemma find_char_Some_iff:
  "find_char c s = Some n \<longleftrightarrow> n < length s \<and> s ! n = c \<and> c \<notin> set (take n s)"
proof (induction s arbitrary: n)
  case Nil
  show ?case by simp
next
  case (Cons x xs)
  show ?case by (cases n) (auto simp: Cons.IH)
qed

lemma find_char_SomeD:
  assumes "find_char c s = Some n"
  shows "s = take n s @ c # drop (Suc n) s" and "c \<notin> set (take n s)"
  using assms by (auto simp: find_char_Some_iff Cons_nth_drop_Suc)

text \<open>\<open>entry(k).or_default().push(x)\<close> on a map of vectors.\<close>

definition push_entry :: "(string \<rightharpoonup> 'a list) \<Rightarrow> string \<Rightarrow> 'a \<Rightarrow> (string \<rightharpoonup> 'a list)" where
  "push_entry m k x = m(k \<mapsto> unwrap_or [] (m k) @ [x])"

lemma push_entry_holds:
  "(\<exists>xs. push_entry m k x key = Some xs \<and> y \<in> set xs) \<longleftrightarrow> (\<exists>xs. m key = Some xs \<and> y \<in> set xs) \<or> (k = key \<and> x = y)"
  by (cases "m k") (auto simp: push_entry_def)

lemma push_entry_ne: "push_entry m k x key = Some xs \<Longrightarrow> m key = Some xs \<or> xs \<noteq> []"
  by (auto simp: push_entry_def split: if_splits)

lemma ex_append_Cons: "(\<exists>p. b # rest = p @ c # s) \<longleftrightarrow> (b = c \<and> rest = s) \<or> (\<exists>p. rest = p @ c # s)"
  by (auto simp: Cons_eq_append_conv)

lemma split_on_ne [simp]: "split_on c s \<noteq> []"
  by (induction s) (auto split: list.splits)

lemma split_on_no_sep: "c \<notin> set s \<Longrightarrow> split_on c s = [s]"
  by (induction s) auto

lemma split_on_append: "c \<notin> set xs \<Longrightarrow> split_on c (xs @ c # ys) = xs # split_on c ys"
  by (induction xs) auto

text \<open>Splitting loses nothing: joining the pieces with the separator gives the string.\<close>

fun join_with :: "char \<Rightarrow> string list \<Rightarrow> string" where
  "join_with c [] = []"
| "join_with c [p] = p"
| "join_with c (p # q # ps) = p @ c # join_with c (q # ps)"

lemma join_with_Cons: "ps \<noteq> [] \<Longrightarrow> join_with c (p # ps) = p @ c # join_with c ps"
  by (cases ps) auto

lemma join_with_split_on: "join_with c (split_on c s) = s"
proof (induction s)
  case Nil
  show ?case by simp
next
  case (Cons x xs)
  obtain p ps where ps: "split_on c xs = p # ps"
    by (cases "split_on c xs") auto
  show ?case using Cons ps by (cases ps) auto
qed

lemma split_on_pieces: "p \<in> set (split_on c s) \<Longrightarrow> c \<notin> set p"
proof (induction s arbitrary: p)
  case Nil
  then show ?case by simp
next
  case (Cons x xs)
  obtain q qs where "split_on c xs = q # qs"
    by (cases "split_on c xs") auto
  then show ?case using Cons by (auto split: if_splits)
qed

lemma split_on_map:
  assumes "\<And>x. f x = c \<longleftrightarrow> x = c"
  shows "split_on c (map f s) = map (map f) (split_on c s)"
  by (induction s) (auto simp: assms split: list.splits)

subsection \<open>Trimming\<close>

text \<open>
  The UTF-8 encodings of the characters with Unicode property \<open>White_Space\<close>, the
  ones \<open>str::trim\<close> removes at both ends.  A UTF-8 encoding is never a proper
  suffix of another character's encoding, so matching bytes from the right end
  is matching characters.
\<close>

definition whitespace_seqs :: "string list" where
  "whitespace_seqs =
     [[CHR 0x09], [CHR 0x0A], [CHR 0x0B], [CHR 0x0C], [CHR 0x0D], [CHR 0x20],
      [CHR 0xC2, CHR 0x85], [CHR 0xC2, CHR 0xA0], [CHR 0xE1, CHR 0x9A, CHR 0x80],
      [CHR 0xE2, CHR 0x80, CHR 0x80], [CHR 0xE2, CHR 0x80, CHR 0x81],
      [CHR 0xE2, CHR 0x80, CHR 0x82], [CHR 0xE2, CHR 0x80, CHR 0x83],
      [CHR 0xE2, CHR 0x80, CHR 0x84], [CHR 0xE2, CHR 0x80, CHR 0x85],
      [CHR 0xE2, CHR 0x80, CHR 0x86], [CHR 0xE2, CHR 0x80, CHR 0x87],
      [CHR 0xE2, CHR 0x80, CHR 0x88], [CHR 0xE2, CHR 0x80, CHR 0x89],
      [CHR 0xE2, CHR 0x80, CHR 0x8A], [CHR 0xE2, CHR 0x80, CHR 0xA8],
      [CHR 0xE2, CHR 0x80, CHR 0xA9], [CHR 0xE2, CHR 0x80, CHR 0xAF],
      [CHR 0xE2, CHR 0x81, CHR 0x9F], [CHR 0xE3, CHR 0x80, CHR 0x80]]"

fun drop_seqs :: "string list \<Rightarrow> nat \<Rightarrow> string \<Rightarrow> string" where
  "drop_seqs ws 0 s = s"
| "drop_seqs ws (Suc n) s =
     (case find (\<lambda>w. prefix w s) ws of
        None \<Rightarrow> s
      | Some w \<Rightarrow> drop_seqs ws n (drop (length w) s))"

text \<open>Every sequence has at least one byte, so \<^term>\<open>length s\<close> rounds reach the end.\<close>

definition trim_start :: "string \<Rightarrow> string" where
  "trim_start s = drop_seqs whitespace_seqs (length s) s"

definition trim_end :: "string \<Rightarrow> string" where
  "trim_end s = rev (drop_seqs (map rev whitespace_seqs) (length s) (rev s))"

definition trim :: "string \<Rightarrow> string" where
  "trim s = trim_end (trim_start s)"

definition ws_free :: "char \<Rightarrow> bool" where
  "ws_free c \<longleftrightarrow> c \<notin> set (map hd whitespace_seqs) \<and> c \<notin> set (map last whitespace_seqs)"

lemma drop_seqs_id:
  assumes "\<And>w. w \<in> set ws \<Longrightarrow> \<not> prefix w s"
  shows "drop_seqs ws n s = s"
proof (cases n)
  case (Suc m)
  have "find (\<lambda>w. prefix w s) ws = None"
    using assms by (simp add: find_None_iff)
  then show ?thesis using Suc by simp
qed simp

lemma prefix_hd: "prefix w s \<Longrightarrow> w \<noteq> [] \<Longrightarrow> s \<noteq> [] \<and> hd s = hd w"
  by (cases w; cases s) auto

lemma whitespace_seqs_ne: "w \<in> set whitespace_seqs \<Longrightarrow> w \<noteq> []"
  by (auto simp: whitespace_seqs_def)

lemma trim_id:
  assumes "s \<noteq> [] \<Longrightarrow> ws_free (hd s) \<and> ws_free (last s)"
  shows "trim s = s"
proof -
  have "drop_seqs whitespace_seqs (length s) s = s"
  proof (rule drop_seqs_id)
    fix w assume w: "w \<in> set whitespace_seqs"
    then show "\<not> prefix w s"
      using assms prefix_hd [of w s] whitespace_seqs_ne [of w] by (auto simp: ws_free_def)
  qed
  moreover have "drop_seqs (map rev whitespace_seqs) (length s) (rev s) = rev s"
  proof (rule drop_seqs_id)
    fix w assume "w \<in> set (map rev whitespace_seqs)"
    then obtain v where v: "v \<in> set whitespace_seqs" "w = rev v" by auto
    then show "\<not> prefix w (rev s)"
      using assms prefix_hd [of w "rev s"] whitespace_seqs_ne [of v]
      by (auto simp: ws_free_def hd_rev)
  qed
  ultimately show ?thesis by (simp add: trim_def trim_start_def trim_end_def)
qed

section \<open>Fixed-width arithmetic\<close>

definition sat_add :: "'a::len word \<Rightarrow> 'a word \<Rightarrow> 'a word" where
  "sat_add a b = (if unat a + unat b < 2 ^ LENGTH('a) then a + b else - 1)"

definition sat_sub :: "'a::len word \<Rightarrow> 'a word \<Rightarrow> 'a word" where
  "sat_sub a b = (if a < b then 0 else a - b)"

definition sat_mul :: "'a::len word \<Rightarrow> 'a word \<Rightarrow> 'a word" where
  "sat_mul a b = (if unat a * unat b < 2 ^ LENGTH('a) then a * b else - 1)"

definition checked_add :: "'a::len word \<Rightarrow> 'a word \<Rightarrow> 'a word option" where
  "checked_add a b = (if unat a + unat b < 2 ^ LENGTH('a) then Some (a + b) else None)"

lemma word_eq_0_bit: "w = 0 \<longleftrightarrow> (\<forall>n. \<not> bit w n)" for w :: u64
  using bit_imp_le_length [of w] by (auto simp: bit_eq_iff)

lemma unat_minus_one_word: "unat (- 1 :: 'a::len word) = 2 ^ LENGTH('a) - 1"
  by (simp add: unsigned_minus_1_eq_mask mask_eq_exp_minus_1)

lemma unat_sat_add: "unat (sat_add a b) = min (unat a + unat b) (2 ^ LENGTH('a) - 1)"
  for a b :: "'a::len word"
  by (auto simp: sat_add_def unat_word_ariths min_def unat_minus_one_word)

lemma unat_sat_sub: "unat (sat_sub a b) = unat a - unat b"
  by (auto simp: sat_sub_def unat_sub word_le_nat_alt word_less_nat_alt)

lemma unat_sat_mul: "unat (sat_mul a b) = min (unat a * unat b) (2 ^ LENGTH('a) - 1)"
  for a b :: "'a::len word"
proof -
  define p where "p = unat a * unat b"
  have "0 < (2 :: nat) ^ LENGTH('a)" by simp
  then have "p < 2 ^ LENGTH('a) \<longleftrightarrow> p \<le> 2 ^ LENGTH('a) - 1" by linarith
  then show ?thesis
    unfolding sat_mul_def p_def [symmetric] min_def
    by (simp add: unat_word_ariths unat_minus_one_word p_def)
qed

section \<open>Association lists and folds\<close>

lemma map_of_filter_key:
  "map_of (filter (\<lambda>(k, v). P k) xs) k = (if P k then map_of xs k else None)"
  by (induction xs) auto

lemma fold_option_last:
  "fold (\<lambda>x acc. if P x then Some x else acc) xs init =
     (case filter P xs of [] \<Rightarrow> init | _ \<Rightarrow> Some (last (filter P xs)))"
proof (induction xs arbitrary: init)
  case Nil
  show ?case by simp
next
  case (Cons x xs)
  show ?case using Cons by (cases "filter P xs") auto
qed

end
