(* ===== verification/Packed_Counters.thy ===== *)
theory Packed_Counters
  imports Warden_Prelude
begin

unbundle bit_operations_syntax

text \<open>
  Two 32-bit fields in one atomic 64-bit word, as \<open>security/rate_limiter.rs\<close> and
  \<open>security/atomic_window.rs\<close> pack them, and the window counter of the latter.  An operation
  on an atomic is one step; the compare-and-swap loops are in the theories of their users.
\<close>

section \<open>Packing\<close>

definition pack :: "u32 \<Rightarrow> u32 \<Rightarrow> u64" where
  "pack hi lo = push_bit 32 (ucast hi) OR ucast lo"

definition unpack :: "u64 \<Rightarrow> u32 \<times> u32" where
  "unpack p = (ucast (drop_bit 32 p), ucast p)"

lemma unpack_pack [simp]: "unpack (pack hi lo) = (hi, lo)"
  unfolding unpack_def pack_def
  by (auto simp: bit_eq_iff bit_simps dest: bit_imp_le_length)

lemma unat_pack: "unat (pack hi lo) = unat hi * 2 ^ 32 + unat lo"
proof -
  have "push_bit 32 (ucast hi) AND ucast lo = (0 :: u64)"
    by (auto simp: bit_eq_iff bit_simps dest: bit_imp_le_length)
  then have "pack hi lo = push_bit 32 (ucast hi) + ucast lo"
    by (simp add: pack_def disjunctive_add_eq_or)
  moreover have "unat (push_bit 32 (ucast hi :: u64)) = unat hi * 2 ^ 32"
    using unsigned_less [of hi, where 'a = nat] by (simp add: unsigned_push_bit_eq take_bit_nat_eq_self push_bit_nat_def unsigned_ucast_eq)
  moreover have "unat (ucast lo :: u64) = unat lo"
    using unsigned_less [of lo, where 'a = nat] by (simp add: unsigned_ucast_eq take_bit_nat_eq_self)
  ultimately show ?thesis
    using unsigned_less [of hi, where 'a = nat] unsigned_less [of lo, where 'a = nat]
    by (simp add: unat_word_ariths(1))
qed

lemma pack_unpack: "(case unpack p of (hi, lo) \<Rightarrow> pack hi lo) = p"
  unfolding unpack_def pack_def
  by (auto simp: bit_eq_iff bit_simps dest: bit_imp_le_length)

lemma pack_eq_iff [simp]: "pack a b = pack c d \<longleftrightarrow> a = c \<and> b = d"
  by (metis prod.inject unpack_pack)

text \<open>Adding one to the upper field leaves the lower field alone, also when the upper field wraps.\<close>

lemma pack_bump: "pack hi lo + push_bit 32 1 = pack (hi + 1) lo"
proof -
  have "unat (pack hi lo + push_bit 32 1) = (unat hi * 2 ^ 32 + unat lo + 2 ^ 32) mod 2 ^ 64"
    by (simp add: unat_word_ariths(1) unat_pack)
  also have "\<dots> = (((unat hi + 1) * 2 ^ 32) mod 2 ^ 64 + unat lo)"
    using unsigned_less [of lo, where 'a = nat] unsigned_less [of hi, where 'a = nat]
    by (cases "unat hi + 1 = 2 ^ 32") auto
  also have "\<dots> = unat (pack (hi + 1) lo)"
    by (simp add: unat_pack unat_word_ariths(1) mult_mod_left)
  finally show ?thesis by (simp add: word_unat_eq_iff)
qed

section \<open>The window counter\<close>

definition window_new :: "u64 \<Rightarrow> u64" where
  "window_new now_secs = pack 0 (ucast now_secs)"

definition window_start_secs :: "u64 \<Rightarrow> u64" where
  "window_start_secs packed = ucast (snd (unpack packed))"

definition window_elapsed :: "u64 \<Rightarrow> u64 \<Rightarrow> u64 \<Rightarrow> bool" where
  "window_elapsed packed now_secs window_secs \<longleftrightarrow> window_secs \<le> sat_sub now_secs (window_start_secs packed)"

text \<open>\<open>check_and_bump\<close> without contention: the prior count and the new word.\<close>

definition check_and_bump :: "u64 \<Rightarrow> u64 \<Rightarrow> u64 \<Rightarrow> u32 \<times> u64" where
  "check_and_bump packed now_secs window_secs =
     (if window_elapsed packed now_secs window_secs then (0, pack 1 (ucast now_secs))
      else (fst (unpack packed), packed + push_bit 32 1))"

lemma bump_in_window:
  "sat_sub now (ucast t0) < win \<Longrightarrow> check_and_bump (pack c t0) now win = (c, pack (c + 1) t0)"
  using pack_bump [of c t0] by (auto simp: check_and_bump_def window_elapsed_def window_start_secs_def)

text \<open>The loop under contention, for callers whose windows are at least \<open>W\<close> seconds.  A history
  records what was handed out: \<open>wc_seen\<close> the prior counts returned since the last reset,
  \<open>wc_opened\<close> the clock of the caller that made it, \<open>wc_past\<close> the same for the windows before.\<close>

datatype window_phase = WIdle | WCalling u64 u64 | WLoaded u64 u64 u64

record window_race =
  wc_state :: u64
  wc_thread :: "nat \<Rightarrow> window_phase"
  wc_past :: "(u64 \<times> nat list) list"
  wc_opened :: u64
  wc_seen :: "nat list"

definition wc_windows :: "window_race \<Rightarrow> (u64 \<times> nat list) list" where
  "wc_windows s = wc_past s @ [(wc_opened s, wc_seen s)]"

definition window_race_new :: "u64 \<Rightarrow> window_race" where
  "window_race_new now_secs =
     \<lparr>wc_state = window_new now_secs, wc_thread = (\<lambda>_. WIdle), wc_past = [], wc_opened = now_secs, wc_seen = []\<rparr>"

inductive window_step :: "u64 \<Rightarrow> window_race \<Rightarrow> window_race \<Rightarrow> bool" for W where
  w_call: "wc_thread s t = WIdle \<Longrightarrow> W \<le> win \<Longrightarrow>
     window_step W s (s\<lparr>wc_thread := (wc_thread s)(t := WCalling now win)\<rparr>)"
| w_load: "wc_thread s t = WCalling now win \<Longrightarrow>
     window_step W s (s\<lparr>wc_thread := (wc_thread s)(t := WLoaded now win (wc_state s))\<rparr>)"
| w_reset: "wc_thread s t = WLoaded now win packed \<Longrightarrow> window_elapsed packed now win \<Longrightarrow> wc_state s = packed \<Longrightarrow>
     window_step W s (s\<lparr>wc_state := pack 1 (ucast now), wc_thread := (wc_thread s)(t := WIdle),
                        wc_past := wc_windows s, wc_opened := now, wc_seen := [0]\<rparr>)"
| w_retry: "wc_thread s t = WLoaded now win packed \<Longrightarrow> window_elapsed packed now win \<Longrightarrow> wc_state s \<noteq> packed \<Longrightarrow>
     window_step W s (s\<lparr>wc_thread := (wc_thread s)(t := WCalling now win)\<rparr>)"
| w_bump: "wc_thread s t = WLoaded now win packed \<Longrightarrow> \<not> window_elapsed packed now win \<Longrightarrow>
     window_step W s (s\<lparr>wc_state := wc_state s + push_bit 32 1, wc_thread := (wc_thread s)(t := WIdle),
                        wc_seen := wc_seen s @ [unat (fst (unpack (wc_state s)))]\<rparr>)"

section \<open>The history of a counter\<close>

definition counted_up :: "nat list \<Rightarrow> bool" where
  "counted_up seen \<longleftrightarrow> seen = map (\<lambda>i. i mod 2 ^ 32) [0..<length seen]"

fun phase_ok :: "u64 \<Rightarrow> window_phase \<Rightarrow> bool" where
  "phase_ok W WIdle = True"
| "phase_ok W (WCalling _ win) = (W \<le> win)"
| "phase_ok W (WLoaded _ win _) = (W \<le> win)"

text \<open>Each window counts up from zero, the word holds the open one, and a window is opened only
  when the one before has lasted at least \<open>W\<close> on the clock of the caller that opens it.\<close>

definition window_inv :: "u64 \<Rightarrow> u64 \<Rightarrow> window_race \<Rightarrow> bool" where
  "window_inv W t0 s \<longleftrightarrow>
     (\<forall>(_, seen) \<in> set (wc_windows s). counted_up seen)
     \<and> wc_state s = pack (of_nat (length (wc_seen s))) (ucast (wc_opened s))
     \<and> (\<forall>t. phase_ok W (wc_thread s t))
     \<and> successively (\<lambda>(a, _) (b, _). W \<le> sat_sub b (ucast (ucast a :: u32))) (wc_windows s)
     \<and> fst (hd (wc_windows s)) = t0"

lemma counted_up_start: "counted_up []" "counted_up [0]"
  by (simp_all add: counted_up_def)

lemma counted_up_snoc:
  assumes "counted_up seen"
  shows "counted_up (seen @ [length seen mod 2 ^ 32])"
  unfolding counted_up_def using assms [unfolded counted_up_def] by simp

lemma window_step_inv: "window_step W s s' \<Longrightarrow> window_inv W t0 s \<Longrightarrow> window_inv W t0 s'"
proof (induction rule: window_step.induct)
  case (w_reset s t now win packed)
  have "W \<le> win" using w_reset(1,4) by (metis phase_ok.simps(3) window_inv_def)
  then have "W \<le> sat_sub now (ucast (ucast (wc_opened s) :: u32))"
    using w_reset(2-4) by (auto simp: window_inv_def window_elapsed_def window_start_secs_def)
  then show ?case
    using w_reset(4) counted_up_start(2)
    by (auto simp: window_inv_def wc_windows_def successively_append_iff hd_append split: if_splits)
next
  case (w_bump s t now win packed)
  have "unat (fst (unpack (wc_state s))) = length (wc_seen s) mod 2 ^ 32"
    using w_bump(3) by (simp add: window_inv_def unat_of_nat)
  then show ?case
    using w_bump(3) counted_up_snoc [of "wc_seen s"]
    by (auto simp: window_inv_def wc_windows_def pack_bump [simplified] add.commute successively_append_iff hd_append split: if_splits)
next
  case (w_load s t now win)
  then have "W \<le> win" by (metis phase_ok.simps(2) window_inv_def)
  then show ?case using w_load(2) by (auto simp: window_inv_def wc_windows_def)
next
  case (w_retry s t now win packed)
  then have "W \<le> win" by (metis phase_ok.simps(3) window_inv_def)
  then show ?case using w_retry(4) by (auto simp: window_inv_def wc_windows_def)
qed (auto simp: window_inv_def wc_windows_def)

lemma window_reach_inv: "(window_step W)\<^sup>*\<^sup>* (window_race_new t0) s \<Longrightarrow> window_inv W t0 s"
proof (induction rule: rtranclp_induct)
  case base
  show ?case by (simp add: window_race_new_def window_inv_def window_new_def wc_windows_def counted_up_start)
qed (rule window_step_inv)

lemma counted_up_small: "counted_up seen \<Longrightarrow> length seen \<le> 2 ^ 32 \<Longrightarrow> seen = [0..<length seen]"
proof -
  assume "counted_up seen" "length seen \<le> 2 ^ 32"
  moreover from this(2) have "map (\<lambda>i. i mod 2 ^ 32) [0..<length seen] = map (\<lambda>i. i) [0..<length seen]"
    by (intro map_cong) auto
  ultimately show "seen = [0..<length seen]" by (simp add: counted_up_def)
qed

text \<open>Windows that are spaced by \<open>W\<close> take time.\<close>

lemma spaced_windows:
  fixes ws :: "(u64 \<times> nat list) list"
  assumes "successively (\<lambda>(a, _) (b, _). W \<le> sat_sub b (ucast (ucast a :: u32))) ws"
    and "\<forall>(a, _) \<in> set ws. a < 2 ^ 32" "0 < W" "ws \<noteq> []"
  shows "unat (fst (hd ws)) + (length ws - 1) * unat W \<le> unat (fst (last ws))"
  using assms
proof (induction ws rule: induct_list012)
  case (3 x y zs)
  obtain a u b v where xy: "x = (a, u)" "y = (b, v)" by fastforce
  have "ucast (ucast a :: u32) = a"
    using 3(4) by (simp add: xy word_unat_eq_iff unsigned_ucast_eq unsigned_take_bit_eq take_bit_nat_eq_self word_less_nat_alt)
  then have "unat W \<le> unat b - unat a" "0 < unat W"
    using 3(3,5) by (simp_all add: xy word_le_nat_alt unat_sat_sub unat_gt_0 word_neq_0_conv)
  moreover have "unat b + length zs * unat W \<le> unat (fst (last (y # zs)))"
    using 3(2) 3(3-5) by (simp add: xy)
  ultimately show ?case by (simp add: xy)
qed auto

lemma sum_list_bound: "\<forall>x \<in> set xs. f x \<le> (m :: nat) \<Longrightarrow> sum_list (map f xs) \<le> m * length xs"
  by (induction xs) auto

text \<open>C34. The budget holds under every interleaving.  Whatever threads call \<open>check_and_bump\<close>
  concurrently, each window hands out the prior counts \<open>0, 1, 2, \<dots>\<close> once each, and no two windows
  overlap: of all calls since the counter was made, at most \<open>max_count\<close> per elapsed window
  and \<open>max_count\<close> for the open one saw a count below \<open>max_count\<close>.  The fields are 32 bits wide:
  the claim is for clocks below \<open>2\<^sup>3\<^sup>2\<close> seconds and windows of at most \<open>2\<^sup>3\<^sup>2\<close> calls.\<close>

theorem window_budget:
  assumes "(window_step W)\<^sup>*\<^sup>* (window_race_new t0) s" "0 < W"
    and "\<forall>(opened, seen) \<in> set (wc_windows s). opened < 2 ^ 32 \<and> length seen \<le> 2 ^ 32"
  shows "(\<forall>(opened, seen) \<in> set (wc_windows s). seen = [0..<length seen])
    \<and> sum_list (map (\<lambda>(opened, seen). length (filter (\<lambda>c. c < max_count) seen)) (wc_windows s))
        \<le> max_count * (1 + (unat (wc_opened s) - unat t0) div unat W)"
proof -
  note inv = window_reach_inv [OF assms(1), unfolded window_inv_def]
  have up: "snd x = [0..<length (snd x)]" if "x \<in> set (wc_windows s)" for x
    using that inv assms(3) by (intro counted_up_small) auto
  have below: "length (filter (\<lambda>c. c < max_count) [0..<n]) \<le> max_count" for n
    by (induction n) (auto simp: le_Suc_eq dest: filter_id_conv [THEN iffD2])
  have "\<forall>x \<in> set (wc_windows s). (\<lambda>(opened, seen). length (filter (\<lambda>c. c < max_count) seen)) x \<le> max_count"
    unfolding case_prod_beta by (intro ballI, subst up) (simp_all add: below)
  then have "sum_list (map (\<lambda>(opened, seen). length (filter (\<lambda>c. c < max_count) seen)) (wc_windows s))
      \<le> max_count * length (wc_windows s)"
    by (rule sum_list_bound)
  moreover have "unat t0 + (length (wc_windows s) - 1) * unat W \<le> unat (wc_opened s)"
    using spaced_windows [of W "wc_windows s"] inv assms(2,3) by (fastforce simp: wc_windows_def)
  then have "(length (wc_windows s) - 1) * unat W \<le> unat (wc_opened s) - unat t0" by linarith
  then have "length (wc_windows s) - 1 \<le> (unat (wc_opened s) - unat t0) div unat W"
    using assms(2) by (simp add: less_eq_div_iff_mult_less_eq unat_gt_0 word_neq_0_conv)
  then have "length (wc_windows s) \<le> 1 + (unat (wc_opened s) - unat t0) div unat W" by linarith
  ultimately have "sum_list (map (\<lambda>(opened, seen). length (filter (\<lambda>c. c < max_count) seen)) (wc_windows s))
      \<le> max_count * (1 + (unat (wc_opened s) - unat t0) div unat W)"
    by (meson le_trans mult_le_mono2)
  moreover have "\<forall>(opened, seen) \<in> set (wc_windows s). seen = [0..<length seen]"
    unfolding case_prod_beta by (intro ballI up)
  ultimately show ?thesis by (intro conjI)
qed

text \<open>Calls without contention are runs of the loop.\<close>

lemma window_serve:
  assumes "wc_thread s t = WIdle" "W \<le> win"
  shows "(window_step W)\<^sup>*\<^sup>* s
    (if window_elapsed (wc_state s) now win
     then s\<lparr>wc_state := pack 1 (ucast now), wc_past := wc_windows s, wc_opened := now, wc_seen := [0]\<rparr>
     else s\<lparr>wc_state := wc_state s + push_bit 32 1, wc_seen := wc_seen s @ [unat (fst (unpack (wc_state s)))]\<rparr>)"
    (is "?R\<^sup>*\<^sup>* s ?s'")
proof -
  let ?s1 = "s\<lparr>wc_thread := (wc_thread s)(t := WCalling now win)\<rparr>"
  let ?s2 = "s\<lparr>wc_thread := (wc_thread s)(t := WLoaded now win (wc_state s))\<rparr>"
  have s1: "?R s ?s1" using assms by (rule w_call)
  have s2: "?R ?s1 ?s2" using w_load [of ?s1 t now win W] by simp
  have id: "(wc_thread s)(t := WIdle) = wc_thread s" using assms(1) by (simp add: fun_upd_idem)
  have "?R ?s2 ?s'"
  proof (cases "window_elapsed (wc_state s) now win")
    case True
    then show ?thesis using w_reset [of ?s2 t now win "wc_state s" W] by (simp add: id wc_windows_def)
  next
    case False
    then show ?thesis using w_bump [of ?s2 t now win "wc_state s" W] by (simp add: id)
  qed
  with s1 s2 show ?thesis by (meson converse_rtranclp_into_rtranclp r_into_rtranclp)
qed

text \<open>One call in the first window and one a minute later: both see the count zero.\<close>

theorem window_budget_witness:
  "\<exists>s. (window_step 60)\<^sup>*\<^sup>* (window_race_new 7) s \<and> wc_windows s = [(7, [0]), (67, [0])]
     \<and> sum_list (map (\<lambda>(opened, seen). length (filter (\<lambda>c. c < 1) seen)) (wc_windows s))
         \<le> 1 * (1 + (unat (wc_opened s) - unat (7 :: u64)) div unat (60 :: u64))"
proof -
  let ?s = "window_race_new 7"
  let ?s1 = "?s\<lparr>wc_state := wc_state ?s + push_bit 32 1, wc_seen := wc_seen ?s @ [unat (fst (unpack (wc_state ?s)))]\<rparr>"
  let ?s2 = "?s1\<lparr>wc_state := pack 1 (ucast (67 :: u64)), wc_past := wc_windows ?s1, wc_opened := 67, wc_seen := [0]\<rparr>"
  have st: "wc_state ?s1 = pack 1 7" using pack_bump [of 0 7] by (simp add: window_race_new_def window_new_def)
  have "\<not> window_elapsed (wc_state ?s) 7 60"
    by (simp add: window_race_new_def window_elapsed_def window_start_secs_def window_new_def sat_sub_def)
  moreover have "window_elapsed (wc_state ?s1) 67 60"
    unfolding st by (simp add: window_elapsed_def window_start_secs_def sat_sub_def)
  ultimately have r: "(window_step 60)\<^sup>*\<^sup>* ?s ?s2"
    using window_serve [of ?s 0 60 60 7] window_serve [of ?s1 0 60 60 67] by (auto simp: window_race_new_def)
  have w: "wc_windows ?s2 = [(7, [0]), (67, [0])]" by (simp add: wc_windows_def window_race_new_def window_new_def)
  have "\<forall>(opened, seen) \<in> set (wc_windows ?s2). opened < 2 ^ 32 \<and> length seen \<le> 2 ^ 32" unfolding w by simp
  from window_budget [OF r _ this, of 1] show ?thesis using r w by auto
qed

end
