(* ===== verification/Keyed_Table.thy ===== *)
theory Keyed_Table
  imports Warden_Prelude
begin

text \<open>
  The interface the per-source trackers rely on: a table with get-or-insert and a write
  through the guard it returns.  The table may forget other keys at any get-or-insert; what it
  promises is that a key it still holds has its last written value.  A client of the interface
  that serves one key sees a private history.
\<close>

text \<open>One visit of a key: get or insert, compute an output and a new value, write it back.\<close>

definition serve ::
  "('t \<Rightarrow> 'k \<Rightarrow> 'v \<Rightarrow> 't \<times> 'v) \<Rightarrow> ('t \<Rightarrow> 'k \<Rightarrow> 'v \<Rightarrow> 't) \<Rightarrow> 't \<Rightarrow> 'k \<Rightarrow> 'v \<Rightarrow> ('v \<Rightarrow> 'a \<times> 'v) \<Rightarrow> 'a \<times> 't"
where
  "serve entry store t k fresh f =
     (let (t', v) = entry t k fresh;
          (a, v') = f v
      in (a, store t' k v'))"

fun serve_all ::
  "('t \<Rightarrow> 'k \<Rightarrow> 'v \<Rightarrow> 't \<times> 'v) \<Rightarrow> ('t \<Rightarrow> 'k \<Rightarrow> 'v \<Rightarrow> 't) \<Rightarrow> 't \<Rightarrow> 'k \<Rightarrow> ('v \<times> ('v \<Rightarrow> 'a \<times> 'v)) list \<Rightarrow> 'a list \<times> 't"
where
  "serve_all entry store t k [] = ([], t)"
| "serve_all entry store t k ((fresh, f) # fs) =
     (let (a, t') = serve entry store t k fresh f;
          (as, t'') = serve_all entry store t' k fs
      in (a # as, t''))"

text \<open>The same visits on a value of their own.\<close>

fun replay :: "'v \<Rightarrow> ('v \<Rightarrow> 'a \<times> 'v) list \<Rightarrow> 'a list \<times> 'v" where
  "replay v [] = ([], v)"
| "replay v (f # fs) =
     (let (a, v') = f v;
          (as, v'') = replay v' fs
      in (a # as, v''))"

lemma length_replay [simp]: "length (fst (replay v fs)) = length fs"
  by (induction fs arbitrary: v) (simp_all add: Let_def case_prod_unfold)

lemma replay_append:
  "replay v (fs @ gs) = (let (as, v') = replay v fs; (bs, v'') = replay v' gs in (as @ bs, v''))"
  by (induction fs arbitrary: v) (simp_all add: Let_def case_prod_unfold)

locale keyed_table =
  fixes entry :: "'t \<Rightarrow> 'k \<Rightarrow> 'v \<Rightarrow> 't \<times> 'v"
    and store :: "'t \<Rightarrow> 'k \<Rightarrow> 'v \<Rightarrow> 't"
    and peek :: "'t \<Rightarrow> 'k \<Rightarrow> 'v option"
  assumes entry_hit: "peek t k = Some v \<Longrightarrow> entry t k fresh = (t, v)"
    and entry_miss: "peek t k = None \<Longrightarrow> snd (entry t k fresh) = fresh"
    and entry_other: "j \<noteq> k \<Longrightarrow> peek (fst (entry t k fresh)) j = Some w \<Longrightarrow> peek t j = Some w"
    and store_same: "peek (store t k v) k = Some v"
    and store_other: "j \<noteq> k \<Longrightarrow> peek (store t k v) j = peek t j"
begin

lemma serve_present:
  assumes "peek t k = Some v"
  shows "fst (serve entry store t k fresh f) = fst (f v)" "peek (snd (serve entry store t k fresh f)) k = Some (snd (f v))"
  using entry_hit [OF assms] by (simp_all add: serve_def store_same Let_def case_prod_unfold)

lemma serve_fresh:
  assumes "peek t k = None"
  shows "fst (serve entry store t k fresh f) = fst (f fresh)" "peek (snd (serve entry store t k fresh f)) k = Some (snd (f fresh))"
  using entry_miss [OF assms, of fresh]
  by (simp_all add: serve_def store_same Let_def case_prod_unfold)

text \<open>A visit never changes the value of another key; it may forget it.\<close>

lemma serve_other:
  assumes "j \<noteq> k" "peek (snd (serve entry store t k fresh f)) j = Some w"
  shows "peek t j = Some w"
  using assms entry_other [OF assms(1), of t fresh] by (simp add: serve_def store_other Let_def case_prod_unfold)

lemma serve_all_present:
  assumes "peek t k = Some v"
  shows "fst (serve_all entry store t k fs) = fst (replay v (map snd fs))
    \<and> peek (snd (serve_all entry store t k fs)) k = Some (snd (replay v (map snd fs)))"
  using assms
proof (induction fs arbitrary: t v)
  case (Cons x fs)
  obtain fresh f where x: "x = (fresh, f)" by fastforce
  obtain a t' where s: "serve entry store t k fresh f = (a, t')" by fastforce
  have v: "a = fst (f v)" "peek t' k = Some (snd (f v))"
    using serve_present [OF Cons.prems, of fresh f] s by simp_all
  show ?case using Cons.IH [OF v(2)] v(1) by (simp add: x s Let_def case_prod_unfold)
qed simp

lemma serve_all_fresh:
  assumes "peek t k = None"
  shows "fst (serve_all entry store t k ((fresh, f) # fs)) = fst (replay fresh (f # map snd fs))
    \<and> peek (snd (serve_all entry store t k ((fresh, f) # fs))) k = Some (snd (replay fresh (f # map snd fs)))"
proof -
  obtain a t' where s: "serve entry store t k fresh f = (a, t')" by fastforce
  have v: "a = fst (f fresh)" "peek t' k = Some (snd (f fresh))" using serve_fresh [OF assms, of fresh f] s by simp_all
  show ?thesis using serve_all_present [OF v(2), of fs] v(1) by (simp add: s Let_def case_prod_unfold)
qed

end

end
