(* ===== verification/Bounded_Map.thy ===== *)
theory Bounded_Map
  imports Keyed_Table
begin

text \<open>
  The memory-bounded map behind the rate limiters, \<open>security/bounded_map.rs\<close>.  The wrapped
  \<open>DashMap\<close> is a HOL map; its iteration order is the parameter \<open>iter\<close>, of which only
  \<open>iterates\<close> is used: every entry is listed once.  A thread's insertion is also
  modelled as the three separate accesses the code makes (capacity check with the choice of
  a victim, removal of the victim, insertion), to say what happens when threads race.
\<close>

section \<open>The map\<close>

type_synonym ('k, 'v) iteration = "('k \<rightharpoonup> 'v) \<Rightarrow> ('k \<times> 'v) list"

definition iterates :: "('k, 'v) iteration \<Rightarrow> bool" where
  "iterates iter \<longleftrightarrow> (\<forall>m. finite (dom m) \<longrightarrow> distinct (map fst (iter m)) \<and> map_of (iter m) = m)"

definition SAMPLE :: nat where
  "SAMPLE = 8"

record ('k, 'v) bounded_map =
  bm_inner :: "'k \<rightharpoonup> 'v"
  bm_cap :: nat

definition bm_new :: "nat \<Rightarrow> ('k, 'v) bounded_map" where
  "bm_new cap = \<lparr>bm_inner = Map.empty, bm_cap = cap\<rparr>"

definition bm_get :: "('k, 'v) bounded_map \<Rightarrow> 'k \<Rightarrow> 'v option" where
  "bm_get b k = bm_inner b k"

definition bm_len :: "('k, 'v) iteration \<Rightarrow> ('k, 'v) bounded_map \<Rightarrow> nat" where
  "bm_len iter b = length (iter (bm_inner b))"

definition bm_is_empty :: "('k, 'v) iteration \<Rightarrow> ('k, 'v) bounded_map \<Rightarrow> bool" where
  "bm_is_empty iter b \<longleftrightarrow> iter (bm_inner b) = []"

text \<open>The loop of \<open>evict_approximate_oldest\<close>: the first entry of smallest age among the sampled.\<close>

definition older :: "('v \<Rightarrow> u64) \<Rightarrow> ('k \<times> u64) option \<Rightarrow> 'k \<times> 'v \<Rightarrow> ('k \<times> u64) option" where
  "older age oldest entry =
     (case oldest of
        None \<Rightarrow> Some (fst entry, age (snd entry))
      | Some (k, cur_age) \<Rightarrow> if age (snd entry) < cur_age then Some (fst entry, age (snd entry)) else oldest)"

definition pick_victim :: "('k, 'v) iteration \<Rightarrow> ('v \<Rightarrow> u64) \<Rightarrow> ('k \<rightharpoonup> 'v) \<Rightarrow> 'k option" where
  "pick_victim iter age m = map_option fst (foldl (older age) None (take SAMPLE (iter m)))"

definition remove_victim :: "('k \<rightharpoonup> 'v) \<Rightarrow> 'k option \<Rightarrow> ('k \<rightharpoonup> 'v)" where
  "remove_victim m victim = (case victim of None \<Rightarrow> m | Some k \<Rightarrow> m(k := None))"

definition evict_approximate_oldest ::
  "('k, 'v) iteration \<Rightarrow> ('v \<Rightarrow> u64) \<Rightarrow> ('k, 'v) bounded_map \<Rightarrow> ('k, 'v) bounded_map"
where
  "evict_approximate_oldest iter age b =
     b\<lparr>bm_inner := remove_victim (bm_inner b) (pick_victim iter age (bm_inner b))\<rparr>"

definition bm_insert ::
  "('k, 'v) iteration \<Rightarrow> ('v \<Rightarrow> u64) \<Rightarrow> ('k, 'v) bounded_map \<Rightarrow> 'k \<Rightarrow> 'v \<Rightarrow> ('k, 'v) bounded_map"
where
  "bm_insert iter age b k v =
     (let b' = if bm_cap b \<le> bm_len iter b then evict_approximate_oldest iter age b else b
      in b'\<lparr>bm_inner := (bm_inner b')(k \<mapsto> v)\<rparr>)"

text \<open>\<open>entry_or_insert_with\<close> returns the entry's value, which the caller then updates in place.\<close>

definition entry_or_insert_with ::
  "('k, 'v) iteration \<Rightarrow> ('v \<Rightarrow> u64) \<Rightarrow> ('k, 'v) bounded_map \<Rightarrow> 'k \<Rightarrow> 'v \<Rightarrow> ('k, 'v) bounded_map \<times> 'v"
where
  "entry_or_insert_with iter age b k fresh =
     (let b' = if bm_inner b k = None \<and> bm_cap b \<le> bm_len iter b then evict_approximate_oldest iter age b else b;
          v = unwrap_or fresh (bm_inner b' k)
      in (b'\<lparr>bm_inner := (bm_inner b')(k \<mapsto> v)\<rparr>, v))"

definition bm_store :: "('k, 'v) bounded_map \<Rightarrow> 'k \<Rightarrow> 'v \<Rightarrow> ('k, 'v) bounded_map" where
  "bm_store b k v = b\<lparr>bm_inner := (bm_inner b)(k \<mapsto> v)\<rparr>"

definition bm_remove :: "('k, 'v) bounded_map \<Rightarrow> 'k \<Rightarrow> ('k, 'v) bounded_map \<times> 'v option" where
  "bm_remove b k = (b\<lparr>bm_inner := (bm_inner b)(k := None)\<rparr>, bm_inner b k)"

definition bm_retain :: "('k \<Rightarrow> 'v \<Rightarrow> bool) \<Rightarrow> ('k, 'v) bounded_map \<Rightarrow> ('k, 'v) bounded_map" where
  "bm_retain keep b = b\<lparr>bm_inner := (\<lambda>k. case bm_inner b k of Some v \<Rightarrow> if keep k v then Some v else None | None \<Rightarrow> None)\<rparr>"

definition count_where :: "('k, 'v) iteration \<Rightarrow> ('v \<Rightarrow> bool) \<Rightarrow> ('k, 'v) bounded_map \<Rightarrow> nat" where
  "count_where iter f b = length (filter (\<lambda>(_, v). f v) (iter (bm_inner b)))"

definition snapshot_keys_where :: "('k, 'v) iteration \<Rightarrow> ('v \<Rightarrow> bool) \<Rightarrow> ('k, 'v) bounded_map \<Rightarrow> 'k list" where
  "snapshot_keys_where iter f b = map fst (filter (\<lambda>(_, v). f v) (iter (bm_inner b)))"

section \<open>Eviction\<close>

lemma iterates_len: "iterates iter \<Longrightarrow> finite (dom m) \<Longrightarrow> length (iter m) = card (dom m)"
  unfolding iterates_def by (metis distinct_card dom_map_of_conv_image_fst length_map set_map)

lemma iterates_Nil: "iterates iter \<Longrightarrow> finite (dom m) \<Longrightarrow> iter m = [] \<longleftrightarrow> m = Map.empty"
  using iterates_len [of iter m] by (auto simp flip: length_0_conv)

lemma older_ne: "older age acc e \<noteq> None"
  by (auto simp: older_def split: option.split)

lemma older_Some: "foldl (older age) (Some kv) es \<noteq> None"
  by (induction es arbitrary: kv) (auto simp: older_def split: prod.splits)

lemma older_sound:
  assumes "foldl (older age) acc es = Some (k, a)"
  shows "(\<exists>v. (k, v) \<in> set es \<and> age v = a) \<or> acc = Some (k, a)"
    and "\<forall>(k', v') \<in> set es. a \<le> age v'"
    and "acc = Some (k0, a0) \<Longrightarrow> a \<le> a0"
proof -
  have "((\<exists>v. (k, v) \<in> set es \<and> age v = a) \<or> acc = Some (k, a)) \<and> (\<forall>(k', v') \<in> set es. a \<le> age v')
      \<and> (\<forall>k0 a0. acc = Some (k0, a0) \<longrightarrow> a \<le> a0)"
    using assms
  proof (induction es arbitrary: acc)
    case (Cons e es)
    obtain k1 a1 where acc': "older age acc e = Some (k1, a1)"
      using older_ne [of age acc e] by fastforce
    have here: "a1 \<le> age (snd e)" "acc = Some (k0, a0) \<Longrightarrow> a1 \<le> a0"
        "k1 = fst e \<and> a1 = age (snd e) \<or> acc = Some (k1, a1)" for k0 a0
      using acc' by (auto simp: older_def not_less split: option.splits prod.splits if_splits)
    have "foldl (older age) (Some (k1, a1)) es = Some (k, a)" using Cons.prems acc' by simp
    note rest = Cons.IH [OF this]
    then have "a \<le> a1" by blast
    then have "a \<le> age (snd e)" "acc = Some (k0, a0) \<Longrightarrow> a \<le> a0" for k0 a0
      using here(1) here(2) [of k0 a0] by auto
    moreover have "(\<exists>v. (k, v) \<in> set (e # es) \<and> age v = a) \<or> acc = Some (k, a)"
      using rest here(3) by (cases e) auto
    ultimately show ?case using rest by (cases e) auto
  qed simp
  then show "(\<exists>v. (k, v) \<in> set es \<and> age v = a) \<or> acc = Some (k, a)" "\<forall>(k', v') \<in> set es. a \<le> age v'"
    "acc = Some (k0, a0) \<Longrightarrow> a \<le> a0" by auto
qed

text \<open>A non-empty map always yields a victim, an entry of least age among those sampled.\<close>

lemma pick_victim_Some:
  assumes "iterates iter" "finite (dom m)" "m \<noteq> Map.empty"
  obtains k v where "pick_victim iter age m = Some k" "m k = Some v"
    "\<forall>(k', v') \<in> set (take SAMPLE (iter m)). age v \<le> age v'"
proof -
  obtain e es where es: "take SAMPLE (iter m) = e # es"
    using assms iterates_Nil [of iter m] by (cases "take SAMPLE (iter m)") (auto simp: SAMPLE_def)
  obtain k a where ka: "foldl (older age) None (e # es) = Some (k, a)"
    using older_Some [of age "(fst e, age (snd e))" es] by (auto simp: older_def)
  obtain v where v: "(k, v) \<in> set (e # es)" "age v = a" using older_sound(1) [OF ka] by auto
  then have "(k, v) \<in> set (iter m)" by (metis es in_set_takeD)
  then have "m k = Some v" using assms(1,2) unfolding iterates_def by (metis map_of_is_SomeI)
  then show thesis using that [of k v] ka v(2) older_sound(2) [OF ka] es by (auto simp: pick_victim_def)
qed

lemma dom_remove_victim: "dom (remove_victim m v) = dom m - set_option v"
  by (auto simp: remove_victim_def split: option.splits)

lemma card_evict:
  assumes "iterates iter" "finite (dom (bm_inner b))"
  shows "card (dom (bm_inner (evict_approximate_oldest iter age b))) = card (dom (bm_inner b)) - 1"
proof (cases "bm_inner b = Map.empty")
  case True
  then show ?thesis by (simp add: evict_approximate_oldest_def dom_remove_victim)
next
  case False
  then obtain k v where "pick_victim iter age (bm_inner b) = Some k" "bm_inner b k = Some v"
    using pick_victim_Some [OF assms] by metis
  then show ?thesis by (simp add: evict_approximate_oldest_def dom_remove_victim domI)
qed

lemma evict_subset: "bm_inner (evict_approximate_oldest iter age b) k = Some v \<Longrightarrow> bm_inner b k = Some v"
  by (auto simp: evict_approximate_oldest_def remove_victim_def split: option.splits if_splits)

lemma entry_value:
  assumes "entry_or_insert_with iter age b k fresh = (b', v)"
  shows "v = fresh \<or> bm_inner b k = Some v" and "bm_inner b' j = Some w \<Longrightarrow> j = k \<and> w = v \<or> bm_inner b j = Some w"
proof -
  define b1 where "b1 = (if bm_inner b k = None \<and> bm_cap b \<le> bm_len iter b then evict_approximate_oldest iter age b else b)"
  have e: "v = unwrap_or fresh (bm_inner b1 k)" "b' = b1\<lparr>bm_inner := (bm_inner b1)(k \<mapsto> v)\<rparr>"
    using assms unfolding entry_or_insert_with_def Let_def b1_def by auto
  have sub: "bm_inner b1 i = Some x \<Longrightarrow> bm_inner b i = Some x" for i x
    by (auto simp: b1_def dest: evict_subset split: if_splits)
  show "v = fresh \<or> bm_inner b k = Some v" using e(1) sub [of k] by (cases "bm_inner b1 k") auto
  show "bm_inner b' j = Some w \<Longrightarrow> j = k \<and> w = v \<or> bm_inner b j = Some w"
    using e(2) sub [of j] by (auto split: if_splits)
qed

lemma entry_fresh:
  assumes "bm_inner b k = None"
  obtains b' where "entry_or_insert_with iter age b k fresh = (b', fresh)" "bm_inner b' k = Some fresh"
proof -
  define b1 where "b1 = (if bm_cap b \<le> bm_len iter b then evict_approximate_oldest iter age b else b)"
  have "bm_inner b1 k = None" using assms evict_subset [of iter age b k] by (cases "bm_inner b1 k") (auto simp: b1_def split: if_splits)
  then have "entry_or_insert_with iter age b k fresh = (b1\<lparr>bm_inner := (bm_inner b1)(k \<mapsto> fresh)\<rparr>, fresh)"
    using assms unfolding entry_or_insert_with_def Let_def b1_def by simp
  then show thesis using that by simp
qed

lemma entry_present: "bm_inner b k = Some v \<Longrightarrow> entry_or_insert_with iter age b k fresh = (b, v)"
  by (simp add: entry_or_insert_with_def map_upd_triv)

section \<open>The map as a keyed table\<close>

interpretation bm: keyed_table "\<lambda>b k fresh. entry_or_insert_with iter age b k fresh" bm_store bm_get for iter age
proof
  fix b :: "('a, 'b) bounded_map" and k j v w fresh
  show "bm_get b k = Some v \<Longrightarrow> entry_or_insert_with iter age b k fresh = (b, v)"
    by (simp add: bm_get_def entry_present)
  show "bm_get b k = None \<Longrightarrow> snd (entry_or_insert_with iter age b k fresh) = fresh"
    using entry_value(1) [of iter age b k fresh] by (cases "entry_or_insert_with iter age b k fresh") (auto simp: bm_get_def)
  show "j \<noteq> k \<Longrightarrow> bm_get (fst (entry_or_insert_with iter age b k fresh)) j = Some w \<Longrightarrow> bm_get b j = Some w"
    using entry_value(2) [of iter age b k fresh _ _ j w] by (cases "entry_or_insert_with iter age b k fresh") (auto simp: bm_get_def)
  show "bm_get (bm_store b k v) k = Some v" "j \<noteq> k \<Longrightarrow> bm_get (bm_store b k v) j = bm_get b j"
    by (simp_all add: bm_get_def bm_store_def)
qed

section \<open>The cap\<close>

definition bm_wf :: "('k, 'v) bounded_map \<Rightarrow> bool" where
  "bm_wf b \<longleftrightarrow> finite (dom (bm_inner b)) \<and> card (dom (bm_inner b)) \<le> bm_cap b"

datatype ('k, 'v) bm_op =
    OpInsert 'k 'v | OpEntry 'k 'v "'v \<Rightarrow> 'v" | OpRemove 'k | OpRetain "'k \<Rightarrow> 'v \<Rightarrow> bool"

text \<open>One operation of a single client; \<open>OpEntry\<close> updates the entry it obtains, as the limiters do.\<close>

fun bm_run :: "('k, 'v) iteration \<Rightarrow> ('v \<Rightarrow> u64) \<Rightarrow> ('k, 'v) bounded_map \<Rightarrow> ('k, 'v) bm_op \<Rightarrow> ('k, 'v) bounded_map" where
  "bm_run iter age b (OpInsert k v) = bm_insert iter age b k v"
| "bm_run iter age b (OpEntry k fresh upd) =
     (let (b', v) = entry_or_insert_with iter age b k fresh in bm_store b' k (upd v))"
| "bm_run iter age b (OpRemove k) = fst (bm_remove b k)"
| "bm_run iter age b (OpRetain keep) = bm_retain keep b"

lemma evict_cap [simp]: "bm_cap (evict_approximate_oldest iter age b) = bm_cap b"
  by (simp add: evict_approximate_oldest_def)

lemma finite_evict: "finite (dom (bm_inner b)) \<Longrightarrow> finite (dom (bm_inner (evict_approximate_oldest iter age b)))"
  by (simp add: evict_approximate_oldest_def dom_remove_victim)

lemma bm_wf_upd: "bm_wf b \<Longrightarrow> bm_inner b k \<noteq> None \<or> card (dom (bm_inner b)) < bm_cap b
    \<Longrightarrow> bm_wf (b\<lparr>bm_inner := (bm_inner b)(k \<mapsto> v)\<rparr>)"
  by (auto simp: bm_wf_def card_insert_if domIff)

lemma bm_wf_room:
  assumes "iterates iter" "bm_wf b" "0 < bm_cap b"
    and "b' = (if bm_cap b \<le> bm_len iter b then evict_approximate_oldest iter age b else b)"
  shows "bm_wf b' \<and> card (dom (bm_inner b')) < bm_cap b' \<and> bm_cap b' = bm_cap b"
  using assms card_evict [OF assms(1), of b age] iterates_len [OF assms(1), of "bm_inner b"]
  by (auto simp: bm_wf_def bm_len_def finite_evict)

lemma bm_insert_wf:
  assumes "iterates iter" "bm_wf b" "0 < bm_cap b"
  shows "bm_wf (bm_insert iter age b k v) \<and> bm_cap (bm_insert iter age b k v) = bm_cap b"
proof -
  define b' where "b' = (if bm_cap b \<le> bm_len iter b then evict_approximate_oldest iter age b else b)"
  have "bm_insert iter age b k v = b'\<lparr>bm_inner := (bm_inner b')(k \<mapsto> v)\<rparr>"
    by (simp only: bm_insert_def Let_def b'_def)
  then show ?thesis using bm_wf_room [OF assms b'_def] bm_wf_upd [of b' k v] by simp
qed

lemma entry_wf:
  assumes "iterates iter" "bm_wf b" "0 < bm_cap b" "entry_or_insert_with iter age b k fresh = (b', v)"
  shows "bm_wf b' \<and> bm_cap b' = bm_cap b \<and> bm_inner b' k = Some v"
proof (cases "bm_inner b k")
  case None
  define b1 where "b1 = (if bm_cap b \<le> bm_len iter b then evict_approximate_oldest iter age b else b)"
  have "b' = b1\<lparr>bm_inner := (bm_inner b1)(k \<mapsto> v)\<rparr>"
    using assms(4) None unfolding entry_or_insert_with_def Let_def b1_def by auto
  then show ?thesis using bm_wf_room [OF assms(1-3) b1_def] bm_wf_upd [of b1 k v] by simp
next
  case (Some w)
  then have "b' = b\<lparr>bm_inner := (bm_inner b)(k \<mapsto> v)\<rparr>"
    using assms(4) unfolding entry_or_insert_with_def Let_def by auto
  then show ?thesis using assms(2) Some bm_wf_upd [of b k v] by simp
qed

lemma bm_run_wf:
  assumes "iterates iter" "bm_wf b" "0 < bm_cap b"
  shows "bm_wf (bm_run iter age b oper) \<and> bm_cap (bm_run iter age b oper) = bm_cap b"
proof (cases oper)
  case (OpInsert k v)
  then show ?thesis using bm_insert_wf [OF assms] by simp
next
  case (OpEntry k fresh upd)
  obtain b' v where e: "entry_or_insert_with iter age b k fresh = (b', v)" by fastforce
  then show ?thesis using OpEntry entry_wf [OF assms e] bm_wf_upd [of b' k "upd v"] by (simp add: bm_store_def)
next
  case (OpRemove k)
  have "card (dom (bm_inner b) - {k}) \<le> card (dom (bm_inner b))" using assms(2) by (simp add: bm_wf_def card_mono)
  then show ?thesis using OpRemove assms(2) by (auto simp: bm_wf_def bm_remove_def)
next
  case (OpRetain keep)
  have "dom (bm_inner (bm_retain keep b)) \<subseteq> dom (bm_inner b)"
    by (auto simp: bm_retain_def split: option.splits if_splits)
  then have "finite (dom (bm_inner (bm_retain keep b)))" "card (dom (bm_inner (bm_retain keep b))) \<le> card (dom (bm_inner b))"
    using assms(2) by (simp_all add: bm_wf_def finite_subset card_mono)
  moreover have "bm_cap (bm_retain keep b) = bm_cap b" by (simp add: bm_retain_def)
  ultimately show ?thesis using OpRetain assms(2) by (simp add: bm_wf_def)
qed

text \<open>One thread at a time, the cap is hard: from an empty map with a positive cap, any
  sequence of operations keeps at most \<open>cap\<close> entries, whatever order the map iterates in.\<close>

theorem sequential_use_respects_cap:
  assumes "iterates iter" "0 < cap"
  shows "card (dom (bm_inner (foldl (bm_run iter age) (bm_new cap) ops))) \<le> cap"
proof -
  have "bm_wf (foldl (bm_run iter age) b ops) \<and> bm_cap (foldl (bm_run iter age) b ops) = bm_cap b"
    if "bm_wf b" "0 < bm_cap b" for b
    using that
  proof (induction ops arbitrary: b)
    case (Cons oper ops)
    have step: "bm_wf (bm_run iter age b oper)" "bm_cap (bm_run iter age b oper) = bm_cap b"
      using bm_run_wf [OF assms(1) Cons.prems] by auto
    from Cons.IH [OF step(1)] step(2) Cons.prems(2) show ?case by (simp only: foldl.simps)
  qed simp
  from this [of "bm_new cap"] assms(2) show ?thesis by (simp add: bm_wf_def bm_new_def)
qed

section \<open>Racing threads\<close>

datatype ('k, 'v) bm_phase = Idle | Evicting "'k option" 'k 'v | Inserting 'k 'v

record ('k, 'v) bm_race =
  ra_map :: "'k \<rightharpoonup> 'v"
  ra_thread :: "nat \<Rightarrow> ('k, 'v) bm_phase"

text \<open>The accesses of \<open>entry_or_insert_with\<close> and its eviction: the check that also picks the
  victim, the removal of that victim by key, the insertion.\<close>

inductive race_step :: "('k, 'v) iteration \<Rightarrow> ('v \<Rightarrow> u64) \<Rightarrow> nat \<Rightarrow> ('k, 'v) bm_race \<Rightarrow> ('k, 'v) bm_race \<Rightarrow> bool"
  for iter age cap
where
  check_full: "ra_thread s t = Idle \<Longrightarrow> ra_map s k = None \<Longrightarrow> cap \<le> length (iter (ra_map s)) \<Longrightarrow>
     race_step iter age cap s (s\<lparr>ra_thread := (ra_thread s)(t := Evicting (pick_victim iter age (ra_map s)) k v)\<rparr>)"
| check_room: "ra_thread s t = Idle \<Longrightarrow> \<not> (ra_map s k = None \<and> cap \<le> length (iter (ra_map s))) \<Longrightarrow>
     race_step iter age cap s (s\<lparr>ra_thread := (ra_thread s)(t := Inserting k v)\<rparr>)"
| evict: "ra_thread s t = Evicting victim k v \<Longrightarrow>
     race_step iter age cap s
       (s\<lparr>ra_map := remove_victim (ra_map s) victim, ra_thread := (ra_thread s)(t := Inserting k v)\<rparr>)"
| insert_entry: "ra_thread s t = Inserting k v \<Longrightarrow>
     race_step iter age cap s
       (s\<lparr>ra_map := (ra_map s)(k \<mapsto> unwrap_or v (ra_map s k)), ra_thread := (ra_thread s)(t := Idle)\<rparr>)"

text \<open>States in which at most threads 0 and 1 are active.\<close>

definition two_threads :: "('k \<rightharpoonup> 'v) \<Rightarrow> ('k, 'v) bm_phase \<Rightarrow> ('k, 'v) bm_phase \<Rightarrow> ('k, 'v) bm_race" where
  "two_threads m p q = \<lparr>ra_map = m, ra_thread = (\<lambda>t. if t = 0 then p else if t = 1 then q else Idle)\<rparr>"

abbreviation idle_race :: "('k \<rightharpoonup> 'v) \<Rightarrow> ('k, 'v) bm_race" where
  "idle_race m \<equiv> two_threads m Idle Idle"

lemma two_threads_simps:
  "ra_map (two_threads m p q) = m" "ra_thread (two_threads m p q) 0 = p" "ra_thread (two_threads m p q) 1 = q"
  "(two_threads m p q)\<lparr>ra_thread := (ra_thread (two_threads m p q))(0 := p')\<rparr> = two_threads m p' q"
  "(two_threads m p q)\<lparr>ra_thread := (ra_thread (two_threads m p q))(1 := q')\<rparr> = two_threads m p q'"
  "(two_threads m p q)\<lparr>ra_map := m', ra_thread := (ra_thread (two_threads m p q))(0 := p')\<rparr> = two_threads m' p' q"
  "(two_threads m p q)\<lparr>ra_map := m', ra_thread := (ra_thread (two_threads m p q))(1 := q')\<rparr> = two_threads m' p q'"
  by (auto simp: two_threads_def fun_eq_iff)

lemma race_moves:
  "cap \<le> length (iter m) \<Longrightarrow> m k = None \<Longrightarrow>
     race_step iter age cap (two_threads m Idle q) (two_threads m (Evicting (pick_victim iter age m) k v) q)"
  "cap \<le> length (iter m) \<Longrightarrow> m k = None \<Longrightarrow>
     race_step iter age cap (two_threads m p Idle) (two_threads m p (Evicting (pick_victim iter age m) k v))"
  "length (iter m) < cap \<Longrightarrow> race_step iter age cap (two_threads m Idle q) (two_threads m (Inserting k v) q)"
  "race_step iter age cap (two_threads m (Evicting w k v) q) (two_threads (remove_victim m w) (Inserting k v) q)"
  "race_step iter age cap (two_threads m p (Evicting w k v)) (two_threads (remove_victim m w) p (Inserting k v))"
  "m k = None \<Longrightarrow> race_step iter age cap (two_threads m (Inserting k v) q) (two_threads (m(k \<mapsto> v)) Idle q)"
  "m k = None \<Longrightarrow> race_step iter age cap (two_threads m p (Inserting k v)) (two_threads (m(k \<mapsto> v)) p Idle)"
  using check_full [of "two_threads m Idle q" 0 k cap iter age v] check_full [of "two_threads m p Idle" 1 k cap iter age v]
    check_room [of "two_threads m Idle q" 0 k cap iter age v]
    evict [of "two_threads m (Evicting w k v) q" 0 w k v iter age cap] evict [of "two_threads m p (Evicting w k v)" 1 w k v iter age cap]
    insert_entry [of "two_threads m (Inserting k v) q" 0 k v iter age cap] insert_entry [of "two_threads m p (Inserting k v)" 1 k v iter age cap]
  unfolding two_threads_simps by auto

lemma one_insert:
  assumes "iterates iter" "finite (dom m)" "card (dom m) < cap" "m k = None"
  shows "(race_step iter age cap)\<^sup>*\<^sup>* (idle_race m) (idle_race (m(k \<mapsto> v)))"
proof -
  have "race_step iter age cap (idle_race m) (two_threads m (Inserting k v) Idle)"
    using race_moves(3) [of iter m cap age Idle k v] assms(3) iterates_len [OF assms(1,2)] by simp
  moreover have "race_step iter age cap (two_threads m (Inserting k v) Idle) (idle_race (m(k \<mapsto> v)))"
    by (rule race_moves(6)) (rule assms(4))
  ultimately show ?thesis by (blast intro: rtranclp_trans)
qed

lemma two_inserts:
  assumes "iterates iter" "finite (dom m)" "cap \<le> card (dom m)" "m k1 = None" "m k2 = None" "k1 \<noteq> k2"
    and "pick_victim iter age m = Some w"
  shows "(race_step iter age cap)\<^sup>*\<^sup>* (idle_race m) (idle_race ((m(w := None))(k1 \<mapsto> v, k2 \<mapsto> v)))"
proof -
  let ?R = "race_step iter age cap" and ?m1 = "m(w := None)"
  let ?e1 = "Evicting (Some w) k1 v" and ?e2 = "Evicting (Some w) k2 v"
  have full: "cap \<le> length (iter m)" using assms(3) iterates_len [OF assms(1,2)] by simp
  have s1: "?R (idle_race m) (two_threads m ?e1 Idle)" using race_moves(1) [of cap iter m k1 age Idle v, OF full assms(4)] assms(7) by simp
  have s2: "?R (two_threads m ?e1 Idle) (two_threads m ?e1 ?e2)"
    using race_moves(2) [of cap iter m k2 age ?e1 v, OF full assms(5)] assms(7) by simp
  have s3: "?R (two_threads m ?e1 ?e2) (two_threads ?m1 (Inserting k1 v) ?e2)"
    using race_moves(4) [of iter age cap m "Some w" k1 v ?e2] by (simp add: remove_victim_def)
  have s4: "?R (two_threads ?m1 (Inserting k1 v) ?e2) (two_threads ?m1 (Inserting k1 v) (Inserting k2 v))"
    using race_moves(5) [of iter age cap ?m1 "Inserting k1 v" "Some w" k2 v] by (simp add: remove_victim_def)
  have s5: "?R (two_threads ?m1 (Inserting k1 v) (Inserting k2 v)) (two_threads (?m1(k1 \<mapsto> v)) Idle (Inserting k2 v))"
    using race_moves(6) [of ?m1 k1 iter age cap v] assms(4) by simp
  have s6: "?R (two_threads (?m1(k1 \<mapsto> v)) Idle (Inserting k2 v)) (idle_race (?m1(k1 \<mapsto> v, k2 \<mapsto> v)))"
    using race_moves(7) [of "?m1(k1 \<mapsto> v)" k2 iter age cap Idle v] assms(5,6) by simp
  note trans = converse_rtranclp_into_rtranclp [of ?R]
  show ?thesis
    by (rule trans, rule s1, rule trans, rule s2, rule trans, rule s3, rule trans, rule s4, rule trans, rule s5,
        rule trans, rule s6, rule rtranclp.rtrancl_refl)
qed

text \<open>C36. Racing threads are not held by the cap: two threads suffice to bring the map to any size
  above it.  When both pick a victim before either removes it they pick the same one, the
  second removal finds nothing and both insert, so each such race leaves one entry more, and
  no later insertion takes it back.\<close>

theorem racing_inserts_exceed_cap:
  assumes "iterates (iter :: ('k, 'v) iteration)" "infinite (UNIV :: 'k set)" "0 < cap"
  shows "\<exists>m. (race_step iter age cap)\<^sup>*\<^sup>* (idle_race Map.empty) (idle_race m) \<and> card (dom m) = cap + n"
proof -
  let ?reach = "\<lambda>m. (race_step iter age cap)\<^sup>*\<^sup>* (idle_race Map.empty) (idle_race m)"
  have fresh: "\<exists>k. k \<notin> A" if "finite A" for A :: "'k set" using assms(2) that ex_new_if_finite by metis
  have "\<exists>m. ?reach m \<and> finite (dom m) \<and> card (dom m) = j" for j
  proof (induction j)
    case (Suc j)
    then obtain m where m: "?reach m" "finite (dom m)" "card (dom m) = j" by blast
    obtain k1 where k1: "k1 \<notin> dom m" using fresh [OF m(2)] by blast
    obtain k2 where k2: "k2 \<notin> insert k1 (dom m)" using fresh [of "insert k1 (dom m)"] m(2) by blast
    show ?case
    proof (cases "j < cap")
      case True
      then have "?reach (m(k1 \<mapsto> undefined))"
        using one_insert [OF assms(1) m(2), of cap k1 age undefined] m k1 by (auto simp: domIff)
      moreover have "finite (dom (m(k1 \<mapsto> undefined)))" "card (dom (m(k1 \<mapsto> undefined))) = Suc j"
        using m k1 unfolding dom_fun_upd by simp_all
      ultimately show ?thesis by blast
    next
      case False
      then have "m \<noteq> Map.empty" using m(3) assms(3) by auto
      then obtain w v where w: "pick_victim iter age m = Some w" "m w = Some v"
        using pick_victim_Some [OF assms(1) m(2)] by metis
      let ?m = "(m(w := None))(k1 \<mapsto> undefined, k2 \<mapsto> undefined)"
      have "?reach ?m"
        using two_inserts [OF assms(1) m(2), of cap k1 k2 age w undefined] m k1 k2 w False by (auto simp: domIff)
      moreover have "dom ?m = insert k2 (insert k1 (dom m - {w}))" by auto
      moreover have "w \<in> dom m" "0 < card (dom m)" using w(2) m(2) card_gt_0_iff by blast+
      then have "card (insert k2 (insert k1 (dom m - {w}))) = Suc j" using m k1 k2 by (simp add: card_insert_if)
      moreover have "finite (insert k2 (insert k1 (dom m - {w})))" using m(2) by simp
      ultimately show ?thesis by metis
    qed
  qed (auto intro!: exI [of _ Map.empty])
  then show ?thesis by blast
qed

text \<open>An iteration order for maps on numbers: ascending keys.\<close>

definition ascending :: "(nat, 'v) iteration" where
  "ascending m = map (\<lambda>k. (k, the (m k))) (sorted_list_of_set (dom m))"

lemma iterates_ascending: "iterates ascending"
  unfolding iterates_def
proof (intro allI impI conjI)
  fix m :: "nat \<rightharpoonup> 'v" assume fin: "finite (dom m)"
  show "distinct (map fst (ascending m))" by (simp add: ascending_def o_def)
  have "map_of (ascending m) k = m k" for k
  proof (cases "m k")
    case None
    then have "k \<notin> fst ` set (ascending m)" using fin by (auto simp: ascending_def)
    then show ?thesis using None by (simp add: map_of_eq_None_iff)
  next
    case (Some v)
    then have "(k, v) \<in> set (ascending m)" using fin by (force simp: ascending_def)
    then show ?thesis using Some by (simp add: ascending_def o_def)
  qed
  then show "map_of (ascending m) = m" by blast
qed

theorem sequential_use_respects_cap_witness:
  "card (dom (bm_inner (foldl (bm_run ascending (\<lambda>v. v)) (bm_new 2) [OpInsert 1 5, OpInsert 2 3, OpEntry 3 7 (\<lambda>v. v + 1)]))) \<le> 2"
  using sequential_use_respects_cap [OF iterates_ascending, of 2 "\<lambda>v. v" "[OpInsert 1 5, OpInsert 2 3, OpEntry 3 7 (\<lambda>v. v + 1)]"] by simp

theorem racing_inserts_exceed_cap_witness:
  "\<exists>m. (race_step ascending (\<lambda>v. v) 2)\<^sup>*\<^sup>* (idle_race Map.empty) (idle_race m) \<and> card (dom m) = 2 + 1000"
  using racing_inserts_exceed_cap [OF iterates_ascending infinite_UNIV_nat, of 2 "\<lambda>v. v" 1000] by simp

end
