(* ===== verification/Std_Net.thy ===== *)
theory Std_Net
  imports Warden_Prelude "HOL-Library.Code_Target_Nat"
begin

text \<open>
  What the sources use of Rust's \<open>std::net\<close> and of integer parsing: decimal integers,
  the address types, \<open>Ipv4Addr::from_str\<close>, \<open>IpAddr::from_str\<close> with the parser the
  standard library uses for both families, and \<open>Display\<close> of IPv4 addresses.  An IPv4
  address is its \<open>u32\<close>, an IPv6 address its \<open>u128\<close>.
\<close>

type_synonym u128 = "128 word"

datatype ip_addr = V4 u32 | V6 u128

text \<open>The derived order: IPv4 before IPv6, each family by value.\<close>

fun ip_rank :: "ip_addr \<Rightarrow> nat" where
  "ip_rank (V4 a) = unat a"
| "ip_rank (V6 a) = 2 ^ 32 + unat a"

lemma ip_rank_inj: "ip_rank a = ip_rank b \<longleftrightarrow> a = b"
proof -
  have "unat c < 2 ^ 32 + n" for c :: u32 and n using unsigned_less [of c, where 'a = nat] by simp
  then show ?thesis by (cases a; cases b) (auto simp: less_imp_neq less_imp_neq [symmetric] dest: injD [OF inj_unsigned])
qed

instantiation ip_addr :: linorder
begin

definition less_eq_ip_addr :: "ip_addr \<Rightarrow> ip_addr \<Rightarrow> bool" where
  "less_eq_ip_addr a b \<longleftrightarrow> ip_rank a \<le> ip_rank b"

definition less_ip_addr :: "ip_addr \<Rightarrow> ip_addr \<Rightarrow> bool" where
  "less_ip_addr a b \<longleftrightarrow> ip_rank a < ip_rank b"

instance
  by standard (auto simp: less_eq_ip_addr_def less_ip_addr_def ip_rank_inj)

end

section \<open>Decimal integers\<close>

definition digit_value :: "char \<Rightarrow> nat" where
  "digit_value c =
     (if is_ascii_digit c then byte c - 48
      else if 97 \<le> byte c then byte c - 87
      else byte c - 55)"

definition is_digit :: "nat \<Rightarrow> char \<Rightarrow> bool" where
  "is_digit radix c \<longleftrightarrow>
     is_ascii_digit c \<and> byte c < 48 + radix
       \<or> radix = 16 \<and> (97 \<le> byte c \<and> byte c \<le> 102 \<or> 65 \<le> byte c \<and> byte c \<le> 70)"

definition digits_value :: "nat \<Rightarrow> string \<Rightarrow> nat" where
  "digits_value radix ds = foldl (\<lambda>acc c. acc * radix + digit_value c) 0 ds"

text \<open>\<open>str::parse\<close> for an unsigned type with the given largest value: an optional plus sign,
  at least one digit, no overflow.\<close>

definition parse_unsigned :: "nat \<Rightarrow> string \<Rightarrow> nat option" where
  "parse_unsigned limit s =
     (let ds = (case s of c # rest \<Rightarrow> if c = CHR ''+'' then rest else s | [] \<Rightarrow> [])
      in if ds = [] \<or> \<not> list_all (is_digit 10) ds \<or> limit < digits_value 10 ds then None
         else Some (digits_value 10 ds))"

definition parse_u8 :: "string \<Rightarrow> u8 option" where
  "parse_u8 s = map_option of_nat (parse_unsigned 255 s)"

fun show_nat :: "nat \<Rightarrow> string" where
  "show_nat n = (if n < 10 then [char_of (48 + n)] else show_nat (n div 10) @ [char_of (48 + n mod 10)])"

declare show_nat.simps [simp del]

text \<open>\<open>u64::trailing_zeros\<close>: the number of clear bits below the lowest set one, 64 for zero.\<close>

definition trailing_zeros :: "u64 \<Rightarrow> nat" where
  "trailing_zeros w = length (takeWhile (\<lambda>i. \<not> bit w i) [0..<64])"

definition is_power_of_two :: "u64 \<Rightarrow> bool" where
  "is_power_of_two w = list_ex (\<lambda>k. w = 2 ^ k) [0..<64]"

text \<open>\<open>str::split_once\<close> at a character.\<close>

definition split_once :: "char \<Rightarrow> string \<Rightarrow> (string \<times> string) option" where
  "split_once c s = map_option (\<lambda>i. (take i s, drop (Suc i) s)) (find_char c s)"

section \<open>The address parser of \<open>core::net::parser\<close>\<close>

text \<open>\<open>Parser::read_number\<close>: the digits at the front, or nothing.\<close>

definition read_number :: "nat \<Rightarrow> nat \<Rightarrow> bool \<Rightarrow> nat \<Rightarrow> string \<Rightarrow> (nat \<times> string) option" where
  "read_number radix max_digits allow_zero_prefix limit s =
     (let ds = takeWhile (is_digit radix) s
      in if ds = [] \<or> max_digits < length ds \<or> limit < digits_value radix ds
            \<or> \<not> allow_zero_prefix \<and> hd ds = CHR ''0'' \<and> 1 < length ds
         then None
         else Some (digits_value radix ds, dropWhile (is_digit radix) s))"

definition read_given_char :: "char \<Rightarrow> string \<Rightarrow> string option" where
  "read_given_char c s = (case s of x # rest \<Rightarrow> if x = c then Some rest else None | [] \<Rightarrow> None)"

definition read_separator ::
  "char \<Rightarrow> nat \<Rightarrow> (string \<Rightarrow> ('a \<times> string) option) \<Rightarrow> string \<Rightarrow> ('a \<times> string) option"
where
  "read_separator sep index inner s =
     (if 0 < index then Option.bind (read_given_char sep s) inner else inner s)"

text \<open>The loop over the four octets; the accumulator is the address so far.\<close>

fun read_octets :: "nat \<Rightarrow> nat \<Rightarrow> nat \<Rightarrow> string \<Rightarrow> (nat \<times> string) option" where
  "read_octets 0 i acc s = Some (acc, s)"
| "read_octets (Suc n) i acc s =
     (case read_separator (CHR ''.'') i (read_number 10 3 False 255) s of
        None \<Rightarrow> None
      | Some (v, rest) \<Rightarrow> read_octets n (Suc i) (acc * 256 + v) rest)"

definition read_ipv4_addr :: "string \<Rightarrow> (u32 \<times> string) option" where
  "read_ipv4_addr s = map_option (\<lambda>(v, rest). (of_nat v, rest)) (read_octets 4 0 0 s)"

text \<open>\<open>read_groups\<close>: the groups read, the rest, and whether the last two were an embedded
  IPv4 address.\<close>

fun read_groups :: "nat \<Rightarrow> nat \<Rightarrow> string \<Rightarrow> nat list \<times> bool \<times> string" where
  "read_groups 0 i s = ([], False, s)"
| "read_groups (Suc n) i s =
     (case (if 0 < n then read_separator (CHR '':'') i read_ipv4_addr s else None) of
        Some (v4, rest) \<Rightarrow> ([unat v4 div 65536, unat v4 mod 65536], True, rest)
      | None \<Rightarrow>
          (case read_separator (CHR '':'') i (read_number 16 4 True 65535) s of
             None \<Rightarrow> ([], False, s)
           | Some (g, rest) \<Rightarrow>
               (case read_groups n (Suc i) rest of
                  (gs, v4, rest') \<Rightarrow> (g # gs, v4, rest'))))"

definition of_groups :: "nat list \<Rightarrow> u128" where
  "of_groups gs = of_nat (foldl (\<lambda>acc g. acc * 65536 + g) 0 gs)"

definition read_ipv6_addr :: "string \<Rightarrow> (u128 \<times> string) option" where
  "read_ipv6_addr s =
     (case read_groups 8 0 s of
        (hd_groups, hd_v4, rest) \<Rightarrow>
          if length hd_groups = 8 then Some (of_groups hd_groups, rest)
          else if hd_v4 then None
          else
            (case Option.bind (read_given_char (CHR '':'') rest) (read_given_char (CHR '':'')) of
               None \<Rightarrow> None
             | Some rest' \<Rightarrow>
                 (case read_groups (8 - (length hd_groups + 1)) 0 rest' of
                    (tl_groups, _, rest'') \<Rightarrow>
                      Some (of_groups
                              (hd_groups @ replicate (8 - length hd_groups - length tl_groups) 0 @ tl_groups),
                            rest''))))"

text \<open>\<open>parse_with\<close>: everything has to be consumed.\<close>

definition parse_with :: "(string \<Rightarrow> ('a \<times> string) option) \<Rightarrow> string \<Rightarrow> 'a option" where
  "parse_with inner s = (case inner s of Some (v, []) \<Rightarrow> Some v | _ \<Rightarrow> None)"

definition ipv4_from_str :: "string \<Rightarrow> u32 option" where
  "ipv4_from_str s = (if 15 < length s then None else parse_with read_ipv4_addr s)"

definition ip_from_str :: "string \<Rightarrow> ip_addr option" where
  "ip_from_str s =
     parse_with (\<lambda>s. case read_ipv4_addr s of
         Some (v4, rest) \<Rightarrow> Some (V4 v4, rest)
       | None \<Rightarrow> map_option (\<lambda>(v6, rest). (V6 v6, rest)) (read_ipv6_addr s)) s"

section \<open>Addresses\<close>

definition octet :: "nat \<Rightarrow> u32 \<Rightarrow> nat" where
  "octet i a = unat a div 256 ^ (3 - i) mod 256"

definition show_ipv4 :: "u32 \<Rightarrow> string" where
  "show_ipv4 a =
     show_nat (octet 0 a) @ ''.'' @ show_nat (octet 1 a) @ ''.'' @ show_nat (octet 2 a) @ ''.'' @ show_nat (octet 3 a)"

text \<open>\<open>Ipv6Addr::to_ipv4_mapped\<close>: only \<open>::ffff:a.b.c.d\<close>.\<close>

definition to_ipv4_mapped :: "u128 \<Rightarrow> u32 option" where
  "to_ipv4_mapped a = (if drop_bit 32 a = 0xFFFF then Some (ucast a) else None)"

section \<open>Splitting\<close>

lemma split_once_Some_iff: "split_once c s = Some (a, b) \<longleftrightarrow> s = a @ c # b \<and> c \<notin> set a"
proof
  assume "split_once c s = Some (a, b)"
  then show "s = a @ c # b \<and> c \<notin> set a"
    using find_char_SomeD [of c s] by (auto simp: split_once_def)
qed (auto simp: split_once_def find_char_append_Cons)

section \<open>The lowest set bit\<close>

lemma trailing_zeros_lowest:
  assumes "w \<noteq> 0"
  shows "trailing_zeros w < 64" "bit w (trailing_zeros w)" "i < trailing_zeros w \<Longrightarrow> \<not> bit w i"
proof -
  let ?k = "length (takeWhile (\<lambda>i. \<not> bit w i) [0..<64])"
  obtain n where n: "bit w n" using assms word_eq_0_bit by blast
  then have "n < 64" using bit_imp_le_length [of w n] by simp
  then have lt: "?k < length [0..<64]"
    using n length_takeWhile_le [of "\<lambda>i. \<not> bit w i" "[0..<64]"]
    by (metis atLeastLessThan_iff le_neq_implies_less length_takeWhile_le set_upt takeWhile_eq_all_conv
        takeWhile_eq_take take_all_iff order.refl zero_le)
  then show "trailing_zeros w < 64" by (simp add: trailing_zeros_def)
  show "bit w (trailing_zeros w)"
    using nth_length_takeWhile [OF lt] lt by (simp add: trailing_zeros_def)
  show "\<not> bit w i" if i: "i < trailing_zeros w" for i
  proof -
    have "takeWhile (\<lambda>i. \<not> bit w i) [0..<64] ! i = i"
      using i lt takeWhile_nth [of i "\<lambda>i. \<not> bit w i" "[0..<64]"] by (simp add: trailing_zeros_def)
    then show ?thesis
      using i nth_mem [of i "takeWhile (\<lambda>i. \<not> bit w i) [0..<64]"] set_takeWhileD
      by (metis trailing_zeros_def)
  qed
qed

section \<open>Printed numbers parse back\<close>

lemma is_digit_show: "n < 10 \<Longrightarrow> is_digit 10 (char_of (48 + n))" for n :: nat
  by (simp add: is_digit_def is_ascii_digit_def)

lemma digit_value_show: "n < 10 \<Longrightarrow> digit_value (char_of (48 + n)) = n" for n :: nat
  by (simp add: digit_value_def is_ascii_digit_def)

lemma show_nat_digits: "list_all (is_digit 10) (show_nat n)"
  by (induction n rule: show_nat.induct) (subst show_nat.simps, simp add: is_digit_show)

lemma show_nat_ne [simp]: "show_nat n \<noteq> []"
  by (subst show_nat.simps) simp

lemma digits_value_append:
  "digits_value r (ds @ [c]) = digits_value r ds * r + digit_value c"
  by (simp add: digits_value_def)

lemma digits_value_show [simp]: "digits_value 10 (show_nat n) = n"
proof (induction n rule: show_nat.induct)
  case (1 n)
  show ?case
  proof (cases "n < 10")
    case True
    then show ?thesis by (subst show_nat.simps) (simp add: digits_value_def digit_value_show)
  next
    case False
    then show ?thesis
      using 1 by (subst show_nat.simps) (simp add: digits_value_append digit_value_show)
  qed
qed

lemma char_of_eq_zero: "n < 10 \<Longrightarrow> char_of (48 + n) = CHR ''0'' \<longleftrightarrow> n = 0" for n :: nat
proof -
  assume "n < 10"
  then have "byte (char_of (48 + n) :: char) = 48 + n" by simp
  moreover have "byte (CHR ''0'') = 48" by simp
  ultimately show ?thesis
    by (metis add_cancel_right_right of_char_eq_iff_char)
qed

lemma show_octet:
  assumes "n < 256"
  shows "length (show_nat n) \<le> 3" and "hd (show_nat n) = CHR ''0'' \<Longrightarrow> length (show_nat n) = 1"
proof -
  consider "n < 10" | "10 \<le> n" "n < 100" | "100 \<le> n" by linarith
  then have "length (show_nat n) \<le> 3 \<and> (hd (show_nat n) = CHR ''0'' \<longrightarrow> length (show_nat n) = 1)"
  proof cases
    case 3
    have d: "\<not> n < 10" "\<not> n div 10 < 10" "n div 10 div 10 < 10" "n div 10 div 10 \<noteq> 0" using 3 assms by linarith+
    have "show_nat n = [char_of (48 + n div 10 div 10), char_of (48 + n div 10 mod 10), char_of (48 + n mod 10)]"
      using d by (subst show_nat.simps, subst show_nat.simps [of "n div 10"], subst show_nat.simps [of "n div 10 div 10"]) simp
    then show ?thesis using d char_of_eq_zero [OF d(3)] by simp
  next
    case 2
    then have "show_nat n = [char_of (48 + n div 10), char_of (48 + n mod 10)]"
      by (simp add: show_nat.simps [of n] show_nat.simps [of "n div 10"])
    then show ?thesis using 2 char_of_eq_zero [of "n div 10"] by simp
  qed (simp add: show_nat.simps)
  then show "length (show_nat n) \<le> 3" and "hd (show_nat n) = CHR ''0'' \<Longrightarrow> length (show_nat n) = 1" by auto
qed

lemma read_number_show:
  assumes "n < 256" "rest = [] \<or> \<not> is_digit 10 (hd rest)"
  shows "read_number 10 3 False 255 (show_nat n @ rest) = Some (n, rest)"
proof -
  have "takeWhile (is_digit 10) (show_nat n @ rest) = show_nat n"
    and "dropWhile (is_digit 10) (show_nat n @ rest) = rest"
    using show_nat_digits [of n] assms(2) by (cases rest; simp add: list_all_iff)+
  then show ?thesis using show_octet [OF assms(1)] assms(1) by (auto simp: read_number_def Let_def)
qed

lemma not_digit_dot: "\<not> is_digit 10 (CHR ''.'')"
  by (simp add: is_digit_def is_ascii_digit_def)

lemma octet_less: "octet i a < 256"
  by (simp add: octet_def)

lemma octets_sum:
  "((octet 0 a * 256 + octet 1 a) * 256 + octet 2 a) * 256 + octet 3 a = unat a"
proof -
  have "unat a < 256 ^ 4" using unsigned_less [of a, where 'a = nat] by simp
  then have "unat a div 256 div 256 div 256 < 256" by (simp add: div_mult2_eq [symmetric])
  then have "octet 0 a = unat a div 256 div 256 div 256"
    by (simp add: octet_def div_mult2_eq [symmetric])
  moreover have "octet 1 a = unat a div 256 div 256 mod 256" "octet 2 a = unat a div 256 mod 256" "octet 3 a = unat a mod 256"
    by (simp_all add: octet_def div_mult2_eq [symmetric] power2_eq_square)
  ultimately show ?thesis by (simp only: div_mult_mod_eq)
qed

lemma read_ipv4_show:
  assumes "rest = [] \<or> \<not> is_digit 10 (hd rest)"
  shows "read_ipv4_addr (show_ipv4 a @ rest) = Some (a, rest)"
proof -
  have four: "4 = Suc (Suc (Suc (Suc 0)))" by simp
  have "read_octets 4 0 0 (show_ipv4 a @ rest) =
      Some (((octet 0 a * 256 + octet 1 a) * 256 + octet 2 a) * 256 + octet 3 a, rest)"
    using assms unfolding four
    by (simp add: show_ipv4_def read_separator_def read_given_char_def read_number_show octet_less not_digit_dot)
  then show ?thesis unfolding octets_sum read_ipv4_addr_def by simp
qed

lemma length_show_ipv4: "length (show_ipv4 a) \<le> 15"
  using show_octet(1) [OF octet_less, of 0 a] show_octet(1) [OF octet_less, of 1 a]
    show_octet(1) [OF octet_less, of 2 a] show_octet(1) [OF octet_less, of 3 a]
  by (simp add: show_ipv4_def)

lemma ipv4_from_show [simp]: "ipv4_from_str (show_ipv4 a) = Some a"
  using read_ipv4_show [of "[]" a] length_show_ipv4 [of a] by (simp add: ipv4_from_str_def parse_with_def)

lemma ip_from_show [simp]: "ip_from_str (show_ipv4 a) = Some (V4 a)"
  using read_ipv4_show [of "[]" a] by (simp add: ip_from_str_def parse_with_def)

lemma parse_unsigned_show [simp]: "n \<le> limit \<Longrightarrow> parse_unsigned limit (show_nat n) = Some n"
proof -
  assume "n \<le> limit"
  moreover obtain c ds where c: "show_nat n = c # ds" by (cases "show_nat n") auto
  then have "is_digit 10 c" using show_nat_digits [of n] by simp
  then have "c \<noteq> CHR ''+''" by (auto simp: is_digit_def is_ascii_digit_def)
  ultimately show ?thesis
    using show_nat_digits [of n] c digits_value_show [of n] by (auto simp: parse_unsigned_def Let_def)
qed

lemma parse_unsigned_le: "parse_unsigned limit s = Some n \<Longrightarrow> n \<le> limit"
  by (auto simp: parse_unsigned_def Let_def split: if_splits)

end
