(* ===== verification/Rate_Limiter.thy ===== *)
theory Rate_Limiter
  imports Packed_Counters Bounded_Map Std_Net
begin

text \<open>
  The per-client token buckets of \<open>security/rate_limiter.rs\<close>.  The clock is an argument:
  \<open>now_secs\<close> is the 32-bit number of seconds since the limiter was created.  A compare-and-swap
  attempt is one function of the loaded word; the loop is run without contention in
  \<open>try_acquire\<close> and under arbitrary interleaving in \<open>bucket_step\<close>.
\<close>

section \<open>One bucket\<close>

definition MAX_TRACKED_CLIENTS :: nat where
  "MAX_TRACKED_CLIENTS = 100000"

definition bucket_new :: "u32 \<Rightarrow> u32 \<Rightarrow> u64" where
  "bucket_new burst now_secs = pack burst now_secs"

definition bucket_age :: "u64 \<Rightarrow> u64" where
  "bucket_age bucket = ucast (snd (unpack bucket))"

text \<open>One iteration of the loop: the word to swap in, or \<^term>\<open>None\<close> when no token is available.\<close>

definition acquire_attempt :: "u32 \<Rightarrow> u32 \<Rightarrow> u32 \<Rightarrow> u64 \<Rightarrow> u64 option" where
  "acquire_attempt now_secs qps burst current =
     (let (tokens, last_refill) = unpack current;
          elapsed = sat_sub now_secs last_refill;
          (available, ts) =
            (if 0 < elapsed then (min (sat_add tokens (sat_mul elapsed qps)) burst, now_secs)
             else (tokens, last_refill))
      in if available = 0 then None else Some (pack (available - 1) ts))"

definition try_acquire :: "u64 \<Rightarrow> u32 \<Rightarrow> u32 \<Rightarrow> u32 \<Rightarrow> bool \<times> u64" where
  "try_acquire bucket now_secs qps burst =
     (case acquire_attempt now_secs qps burst bucket of None \<Rightarrow> (False, bucket) | Some desired \<Rightarrow> (True, desired))"

section \<open>The limiter\<close>

record rate_limiter_params =
  rl_qps :: u32
  rl_burst :: u32

record rate_limiter =
  rl_buckets :: "(ip_addr, u64) bounded_map"
  rl_params :: rate_limiter_params

definition rate_limiter_new :: "rate_limiter_params \<Rightarrow> rate_limiter" where
  "rate_limiter_new params = \<lparr>rl_buckets = bm_new MAX_TRACKED_CLIENTS, rl_params = params\<rparr>"

definition rate_set_params :: "rate_limiter \<Rightarrow> rate_limiter_params \<Rightarrow> rate_limiter" where
  "rate_set_params rl params = rl\<lparr>rl_params := params\<rparr>"

definition rate_check :: "(ip_addr, u64) iteration \<Rightarrow> rate_limiter \<Rightarrow> u32 \<Rightarrow> ip_addr \<Rightarrow> bool \<times> rate_limiter" where
  "rate_check iter rl now_secs ip =
     (let p = rl_params rl;
          (buckets, bucket) = entry_or_insert_with iter bucket_age (rl_buckets rl) ip (bucket_new (rl_burst p) now_secs);
          (allowed, bucket') = try_acquire bucket now_secs (rl_qps p) (rl_burst p)
      in (allowed, rl\<lparr>rl_buckets := bm_store buckets ip bucket'\<rparr>))"

definition rate_cleanup :: "rate_limiter \<Rightarrow> u32 \<Rightarrow> rate_limiter" where
  "rate_cleanup rl now_secs =
     rl\<lparr>rl_buckets := bm_retain (\<lambda>_ bucket. sat_sub now_secs (snd (unpack bucket)) < 300) (rl_buckets rl)\<rparr>"

definition rate_entry_count :: "(ip_addr, u64) iteration \<Rightarrow> rate_limiter \<Rightarrow> nat" where
  "rate_entry_count iter rl = bm_len iter (rl_buckets rl)"

section \<open>The rate under interleaving\<close>

datatype bucket_phase = BIdle | BCalling u32 | BLoaded u32 u64

record bucket_race =
  bk_state :: u64
  bk_thread :: "nat \<Rightarrow> bucket_phase"
  bk_allowed :: nat

definition bucket_race_new :: "u32 \<Rightarrow> u32 \<Rightarrow> bucket_race" where
  "bucket_race_new burst t0 = \<lparr>bk_state = bucket_new burst t0, bk_thread = (\<lambda>_. BIdle), bk_allowed = 0\<rparr>"

text \<open>Threads call with the time they read, at most \<open>T\<close>; the weak swap may fail spuriously.
  \<open>bk_allowed\<close> counts the calls that returned true.\<close>

inductive bucket_step :: "u32 \<Rightarrow> u32 \<Rightarrow> u32 \<Rightarrow> bucket_race \<Rightarrow> bucket_race \<Rightarrow> bool" for qps burst T where
  b_call: "bk_thread s t = BIdle \<Longrightarrow> now \<le> T \<Longrightarrow>
     bucket_step qps burst T s (s\<lparr>bk_thread := (bk_thread s)(t := BCalling now)\<rparr>)"
| b_load: "bk_thread s t = BCalling now \<Longrightarrow>
     bucket_step qps burst T s (s\<lparr>bk_thread := (bk_thread s)(t := BLoaded now (bk_state s))\<rparr>)"
| b_reject: "bk_thread s t = BLoaded now current \<Longrightarrow> acquire_attempt now qps burst current = None \<Longrightarrow>
     bucket_step qps burst T s (s\<lparr>bk_thread := (bk_thread s)(t := BIdle)\<rparr>)"
| b_swap: "bk_thread s t = BLoaded now current \<Longrightarrow> acquire_attempt now qps burst current = Some desired \<Longrightarrow>
     bk_state s = current \<Longrightarrow>
     bucket_step qps burst T s
       (s\<lparr>bk_state := desired, bk_thread := (bk_thread s)(t := BIdle), bk_allowed := Suc (bk_allowed s)\<rparr>)"
| b_retry: "bk_thread s t = BLoaded now current \<Longrightarrow> acquire_attempt now qps burst current = Some desired \<Longrightarrow>
     bucket_step qps burst T s (s\<lparr>bk_thread := (bk_thread s)(t := BCalling now)\<rparr>)"

fun phase_time :: "bucket_phase \<Rightarrow> u32" where
  "phase_time BIdle = 0"
| "phase_time (BCalling now) = now"
| "phase_time (BLoaded now _) = now"

text \<open>What the bucket can still give out by time \<open>T\<close>.\<close>

definition potential :: "u32 \<Rightarrow> u32 \<Rightarrow> u64 \<Rightarrow> nat" where
  "potential qps T bucket = (case unpack bucket of (tokens, lst) \<Rightarrow> unat tokens + unat qps * (unat T - unat lst))"

lemma acquire_attempt_Some:
  assumes "acquire_attempt now qps burst current = Some desired"
  shows "snd (unpack desired) = max (snd (unpack current)) now"
    and "Suc (unat (fst (unpack desired))) \<le>
      unat (fst (unpack current)) + unat qps * (unat now - unat (snd (unpack current)))"
proof -
  obtain tokens lst where u: "unpack current = (tokens, lst)" by fastforce
  have el: "unat (sat_sub now lst) = unat now - unat lst" by (rule unat_sat_sub)
  then have pos: "0 < sat_sub now lst \<longleftrightarrow> lst < now"
    by (simp add: word_less_nat_alt)
  have suc: "Suc (unat (a - 1)) = unat a" if "a \<noteq> 0" for a :: u32
    using that by (simp add: unat_minus_one unat_gt_0)
  have "unat (min (sat_add tokens (sat_mul (sat_sub now lst) qps)) burst) \<le> unat tokens + unat qps * (unat now - unat lst)"
    by (simp add: min_def word_le_nat_alt unat_sat_add unat_sat_mul el mult.commute)
  with assms u pos suc show "snd (unpack desired) = max (snd (unpack current)) now"
    "Suc (unat (fst (unpack desired))) \<le> unat (fst (unpack current)) + unat qps * (unat now - unat (snd (unpack current)))"
    by (auto simp: acquire_attempt_def Let_def max_def split: if_splits)
qed

lemma potential_drops:
  assumes "acquire_attempt now qps burst current = Some desired" "now \<le> T" "snd (unpack current) \<le> T"
  shows "Suc (potential qps T desired) \<le> potential qps T current \<and> snd (unpack desired) \<le> T"
proof -
  obtain tokens lst where u: "unpack current = (tokens, lst)" by fastforce
  obtain tokens' lst' where u': "unpack desired = (tokens', lst')" by fastforce
  note a = acquire_attempt_Some [OF assms(1)]
  have "unat T - unat lst = (unat now - unat lst) + (unat T - unat lst')"
    using a(1) assms(2,3) u u' by (auto simp: max_def word_le_nat_alt split: if_splits)
  then show ?thesis
    using a assms(2,3) u u' by (auto simp: potential_def max_def add_mult_distrib2 split: if_splits)
qed

definition bucket_inv :: "u32 \<Rightarrow> u32 \<Rightarrow> u32 \<Rightarrow> u32 \<Rightarrow> bucket_race \<Rightarrow> bool" where
  "bucket_inv qps burst T t0 s \<longleftrightarrow>
     bk_allowed s + potential qps T (bk_state s) \<le> unat burst + unat qps * (unat T - unat t0)
     \<and> snd (unpack (bk_state s)) \<le> T \<and> (\<forall>t. phase_time (bk_thread s t) \<le> T)"

lemma bucket_step_inv: "bucket_step qps burst T s s' \<Longrightarrow> bucket_inv qps burst T t0 s \<Longrightarrow> bucket_inv qps burst T t0 s'"
proof (induction rule: bucket_step.induct)
  case (b_swap s t now current desired)
  have "now \<le> T" using b_swap(1,4) unfolding bucket_inv_def by (metis phase_time.simps(3))
  with potential_drops [OF b_swap(2), of T] b_swap(3,4) show ?case by (auto simp: bucket_inv_def)
next
  case (b_load s t now)
  then have "now \<le> T" unfolding bucket_inv_def by (metis phase_time.simps(2))
  then show ?case using b_load(2) by (auto simp: bucket_inv_def)
next
  case (b_retry s t now current desired)
  then have "now \<le> T" unfolding bucket_inv_def by (metis phase_time.simps(3))
  then show ?case using b_retry(3) by (auto simp: bucket_inv_def)
qed (auto simp: bucket_inv_def)

text \<open>C33. The token bucket keeps its rate under every interleaving: however many threads race on a
  client's bucket, with clock readings up to \<open>T\<close>, at most \<open>burst + qps * (T - t0)\<close> queries have
  been allowed since the bucket was created at \<open>t0\<close>.  All arithmetic is the code's saturating
  32-bit arithmetic.\<close>

theorem token_bucket_rate:
  assumes "(bucket_step qps burst T)\<^sup>*\<^sup>* (bucket_race_new burst t0) s" "t0 \<le> T"
  shows "bk_allowed s \<le> unat burst + unat qps * (unat T - unat t0)"
proof -
  have "bucket_inv qps burst T t0 s"
    using assms
  proof (induction rule: rtranclp_induct)
    case base
    then show ?case by (auto simp: bucket_inv_def bucket_race_new_def bucket_new_def potential_def)
  qed (auto intro: bucket_step_inv)
  then show ?thesis by (simp add: bucket_inv_def)
qed

theorem token_bucket_rate_witness:
  "\<exists>s. (bucket_step 10 2 9)\<^sup>*\<^sup>* (bucket_race_new 2 5) s \<and> bk_allowed s = 1 \<and> bk_allowed s \<le> 2 + 10 * (9 - 5)"
proof -
  let ?s = "bucket_race_new 2 5"
  let ?s1 = "?s\<lparr>bk_thread := (bk_thread ?s)(0 := BCalling 5)\<rparr>"
  let ?s2 = "?s1\<lparr>bk_thread := (bk_thread ?s1)(0 := BLoaded 5 (bk_state ?s1))\<rparr>"
  let ?s3 = "?s2\<lparr>bk_state := pack 1 5, bk_thread := (bk_thread ?s2)(0 := BIdle), bk_allowed := Suc (bk_allowed ?s2)\<rparr>"
  have "bucket_step 10 2 9 ?s ?s1" by (rule b_call) (simp_all add: bucket_race_new_def)
  moreover have "bucket_step 10 2 9 ?s1 ?s2" by (rule b_load) simp
  moreover have "bucket_step 10 2 9 ?s2 ?s3"
    by (rule b_swap [where now = 5 and current = "pack 2 5"])
      (simp_all add: bucket_race_new_def bucket_new_def acquire_attempt_def sat_sub_def)
  ultimately have "(bucket_step 10 2 9)\<^sup>*\<^sup>* ?s ?s3"
    by (meson converse_rtranclp_into_rtranclp r_into_rtranclp)
  moreover have "bk_allowed ?s3 = 1" by (simp add: bucket_race_new_def)
  ultimately show ?thesis using token_bucket_rate [of 10 2 9 5 ?s3] by auto
qed

section \<open>Recovery\<close>

definition rate_run :: "(ip_addr, u64) iteration \<Rightarrow> rate_limiter \<Rightarrow> (u32 \<times> ip_addr) list \<Rightarrow> rate_limiter" where
  "rate_run iter rl events = foldl (\<lambda>rl (now_secs, ip). snd (rate_check iter rl now_secs ip)) rl events"

definition refilled_by :: "u32 \<Rightarrow> rate_limiter \<Rightarrow> bool" where
  "refilled_by t rl \<longleftrightarrow> (\<forall>ip bucket. bm_inner (rl_buckets rl) ip = Some bucket \<longrightarrow> snd (unpack bucket) \<le> t)"

lemma try_acquire_refilled:
  "try_acquire bucket now qps burst = (b, bucket') \<Longrightarrow> snd (unpack bucket) \<le> t \<Longrightarrow> now \<le> t \<Longrightarrow> snd (unpack bucket') \<le> t"
  using acquire_attempt_Some(1) [of now qps burst bucket bucket']
  by (auto simp: try_acquire_def max_def split: option.splits if_splits)

lemma rate_check_refilled:
  assumes "refilled_by t rl" "now \<le> t"
  shows "refilled_by t (snd (rate_check iter rl now ip)) \<and> rl_params (snd (rate_check iter rl now ip)) = rl_params rl"
proof -
  let ?p = "rl_params rl"
  obtain buckets bucket where e: "entry_or_insert_with iter bucket_age (rl_buckets rl) ip (bucket_new (rl_burst ?p) now) = (buckets, bucket)"
    by fastforce
  obtain allowed bucket' where a: "try_acquire bucket now (rl_qps ?p) (rl_burst ?p) = (allowed, bucket')" by fastforce
  have r: "snd (rate_check iter rl now ip) = rl\<lparr>rl_buckets := bm_store buckets ip bucket'\<rparr>"
    by (simp add: rate_check_def e a)
  have "snd (unpack bucket) \<le> t"
    using entry_value(1) [OF e] assms by (auto simp: refilled_by_def bucket_new_def)
  then have "snd (unpack bucket') \<le> t" using try_acquire_refilled [OF a] assms(2) by blast
  then show ?thesis using r entry_value(2) [OF e] \<open>snd (unpack bucket) \<le> t\<close> assms(1)
    by (auto simp: refilled_by_def bm_store_def split: if_splits)
qed

lemma try_acquire_after:
  assumes "snd (unpack bucket) < now" "0 < qps" "0 < burst"
  shows "fst (try_acquire bucket now qps burst)"
proof -
  obtain tokens lst where u: "unpack bucket = (tokens, lst)" by fastforce
  have el: "0 < unat (sat_sub now lst)" using assms(1) u by (simp add: unat_sat_sub word_less_nat_alt)
  then have "0 < unat (sat_mul (sat_sub now lst) qps)"
    using assms(2) by (simp add: unat_sat_mul word_less_nat_alt)
  then have "0 < unat (sat_add tokens (sat_mul (sat_sub now lst) qps))" by (simp add: unat_sat_add)
  then have "min (sat_add tokens (sat_mul (sat_sub now lst) qps)) burst \<noteq> 0"
    using assms(3) by (auto simp: min_def unat_eq_0)
  then show ?thesis using el u by (auto simp: try_acquire_def acquire_attempt_def word_less_nat_alt)
qed

text \<open>No client is shut out for longer than the current second: with a positive rate and burst,
  whatever queries from whatever clients came up to time \<open>t\<close>, the first query of any client at
  a later second is allowed.\<close>

theorem rate_limiter_recovers:
  assumes "0 < rl_qps p" "0 < rl_burst p" "\<forall>(now, _) \<in> set events. now \<le> t" "t < t'"
  shows "fst (rate_check iter (rate_run iter (rate_limiter_new p) events) t' ip)"
proof -
  have "refilled_by t (rate_run iter rl events) \<and> rl_params (rate_run iter rl events) = rl_params rl"
    if "refilled_by t rl" for rl
    using that assms(3)
  proof (induction events arbitrary: rl)
    case (Cons e events)
    obtain now ip where e: "e = (now, ip)" by fastforce
    with rate_check_refilled [of t rl now iter ip] Cons.prems
    have "refilled_by t (snd (rate_check iter rl now ip))" "rl_params (snd (rate_check iter rl now ip)) = rl_params rl" by auto
    with Cons.IH [of "snd (rate_check iter rl now ip)"] Cons.prems(2) e show ?case by (simp add: rate_run_def)
  qed (simp add: rate_run_def)
  from this [of "rate_limiter_new p"]
  have inv: "refilled_by t (rate_run iter (rate_limiter_new p) events)" "rl_params (rate_run iter (rate_limiter_new p) events) = p"
    by (simp_all add: refilled_by_def rate_limiter_new_def bm_new_def)
  let ?rl = "rate_run iter (rate_limiter_new p) events"
  obtain buckets bucket where e: "entry_or_insert_with iter bucket_age (rl_buckets ?rl) ip (bucket_new (rl_burst p) t') = (buckets, bucket)"
    by fastforce
  have "fst (try_acquire bucket t' (rl_qps p) (rl_burst p))"
  proof (cases "bucket = bucket_new (rl_burst p) t'")
    case True
    then show ?thesis using assms(2) by (auto simp: try_acquire_def acquire_attempt_def bucket_new_def sat_sub_def)
  next
    case False
    then have "snd (unpack bucket) \<le> t" using entry_value(1) [OF e] inv(1) by (auto simp: refilled_by_def)
    then show ?thesis using try_acquire_after assms(1,2,4) by (meson le_less_trans)
  qed
  then show ?thesis using e inv(2) by (simp add: rate_check_def case_prod_beta)
qed

end
