(* ===== verification/Cidr_Blocks.thy ===== *)
theory Cidr_Blocks
  imports Std_Net
begin

text \<open>
  CIDR blocks, \<open>config/cidr.rs\<close>: the strict parser, the friendly IPv4 forms (wildcards and
  aligned ranges), membership and the access list test.  \<^term>\<open>V4\<close> and \<^term>\<open>V6\<close> addresses are
  machine words; a block keeps its network masked to the prefix.  Error values carry the
  arguments of the source's message formats.  \<open>Display\<close> is modelled for IPv4 blocks.
\<close>

unbundle bit_operations_syntax

datatype cidr = CidrV4 u32 u8 | CidrV6 u128 u8

datatype cidr_error =
    InvalidAddress string
  | InvalidPrefix string
  | V4PrefixExceeds u8 string
  | V6PrefixExceeds u8 string
  | EmptyInput
  | WildcardNotV4 string
  | WildcardOctets nat string
  | WildcardNotTrailing string
  | NoWildcard string
  | NoSpecificOctet string
  | BadOctet string string
  | RangeWithWildcard string
  | RangeNotV4 string
  | RangeStart string string
  | RangeEnd string string
  | RangeReversed string
  | RangeNotPowerOfTwo u64 string
  | RangeTooLarge nat string
  | RangeMisaligned u8 string

section \<open>Masks and membership\<close>

definition v4_mask :: "u8 \<Rightarrow> u32" where
  "v4_mask plen = (if plen = 0 then 0 else push_bit (32 - unat plen) (- 1))"

definition v6_mask :: "u8 \<Rightarrow> u128" where
  "v6_mask plen = (if plen = 0 then 0 else push_bit (128 - unat plen) (- 1))"

fun cidr_contains :: "cidr \<Rightarrow> ip_addr \<Rightarrow> bool" where
  "cidr_contains (CidrV4 network plen) (V4 v4) \<longleftrightarrow> v4 AND v4_mask plen = network"
| "cidr_contains (CidrV6 network plen) (V6 v6) \<longleftrightarrow> v6 AND v6_mask plen = network"
| "cidr_contains _ _ \<longleftrightarrow> False"

fun cidr_prefix_len :: "cidr \<Rightarrow> u8" where
  "cidr_prefix_len (CidrV4 _ plen) = plen"
| "cidr_prefix_len (CidrV6 _ plen) = plen"

definition any_contains :: "cidr list \<Rightarrow> ip_addr \<Rightarrow> bool" where
  "any_contains allow_from ip =
     (let ip' = (case ip of
                   V6 v6 \<Rightarrow> (case to_ipv4_mapped v6 of Some v4 \<Rightarrow> V4 v4 | None \<Rightarrow> ip)
                 | V4 _ \<Rightarrow> ip)
      in list_ex (\<lambda>c. cidr_contains c ip') allow_from)"

section \<open>The strict parser\<close>

definition prefix_or :: "u8 \<Rightarrow> string option \<Rightarrow> string \<Rightarrow> (cidr_error, u8) result" where
  "prefix_or dflt prefix_part s =
     (case prefix_part of
        None \<Rightarrow> Inr dflt
      | Some p \<Rightarrow> (case parse_u8 (trim p) of Some n \<Rightarrow> Inr n | None \<Rightarrow> Inl (InvalidPrefix s)))"

definition cidr_parse :: "string \<Rightarrow> (cidr_error, cidr) result" where
  "cidr_parse s =
     (let (addr_part, prefix_part) =
        (case split_once (CHR ''/'') s of Some (a, p) \<Rightarrow> (a, Some p) | None \<Rightarrow> (s, None))
      in case ip_from_str (trim addr_part) of
           None \<Rightarrow> Inl (InvalidAddress s)
         | Some (V4 raw) \<Rightarrow>
             rbind (prefix_or 32 prefix_part s) (\<lambda>plen.
               if 32 < plen then Inl (V4PrefixExceeds plen s)
               else Inr (CidrV4 (raw AND v4_mask plen) plen))
         | Some (V6 raw) \<Rightarrow>
             rbind (prefix_or 128 prefix_part s) (\<lambda>plen.
               if 128 < plen then Inl (V6PrefixExceeds plen s)
               else Inr (CidrV6 (raw AND v6_mask plen) plen)))"

definition input_has_host_bits :: "string \<Rightarrow> bool" where
  "input_has_host_bits s =
     (case split_once (CHR ''/'') s of
        None \<Rightarrow> False
      | Some (addr, plen) \<Rightarrow>
          (case (ip_from_str (trim addr), parse_u8 (trim plen)) of
             (Some (V4 raw), Some p) \<Rightarrow> p \<le> 32 \<and> raw AND v4_mask p \<noteq> raw
           | (Some (V6 raw), Some p) \<Rightarrow> p \<le> 128 \<and> raw AND v6_mask p \<noteq> raw
           | _ \<Rightarrow> False))"

fun show_cidr_v4 :: "u32 \<Rightarrow> u8 \<Rightarrow> string" where
  "show_cidr_v4 network plen = show_ipv4 network @ ''/'' @ show_nat (unat plen)"

section \<open>Friendly IPv4 forms\<close>

text \<open>The left-to-right scan over the octets: how many are specific, and whether a wildcard
  was seen; \<^term>\<open>None\<close> when a specific octet follows a wildcard.\<close>

fun wildcard_scan :: "string list \<Rightarrow> nat \<Rightarrow> bool \<Rightarrow> (nat \<times> bool) option" where
  "wildcard_scan [] n seen = Some (n, seen)"
| "wildcard_scan (oct # octs) n seen =
     (if oct = ''*'' then wildcard_scan octs n True
      else if seen then None
      else wildcard_scan octs (Suc n) seen)"

definition parse_wildcard_friendly :: "string \<Rightarrow> (cidr_error, cidr) result" where
  "parse_wildcard_friendly s =
     (if CHR '':'' \<in> set s then Inl (WildcardNotV4 s)
      else
        (let octets = split_on (CHR ''.'') s
         in if length octets \<noteq> 4 then Inl (WildcardOctets (length octets) s)
            else case wildcard_scan octets 0 False of
                None \<Rightarrow> Inl (WildcardNotTrailing s)
              | Some (numeric_prefix_count, seen_wildcard) \<Rightarrow>
                  if \<not> seen_wildcard then Inl (NoWildcard s)
                  else if numeric_prefix_count = 0 then Inl (NoSpecificOctet s)
                  else
                    rbind (try_fold (\<lambda>bytes oct. case parse_u8 oct of
                               None \<Rightarrow> Inl (BadOctet oct s) | Some b \<Rightarrow> Inr (bytes @ [b]))
                             [] (take numeric_prefix_count octets)) (\<lambda>bytes.
                      let v4 = of_nat (foldl (\<lambda>acc b. acc * 256 + b) 0
                                 (map unat bytes @ replicate (4 - numeric_prefix_count) 0))
                      in cidr_parse (show_cidr_v4 v4 (of_nat (numeric_prefix_count * 8))))))"

definition parse_range_friendly :: "string \<Rightarrow> string \<Rightarrow> string \<Rightarrow> (cidr_error, cidr) result" where
  "parse_range_friendly lo hi full =
     (if CHR ''*'' \<in> set lo \<or> CHR ''*'' \<in> set hi then Inl (RangeWithWildcard full)
      else if CHR '':'' \<in> set lo \<or> CHR '':'' \<in> set hi then Inl (RangeNotV4 full)
      else case ipv4_from_str lo of
          None \<Rightarrow> Inl (RangeStart lo full)
        | Some lo_raw \<Rightarrow>
     (case ipv4_from_str hi of
          None \<Rightarrow> Inl (RangeEnd hi full)
        | Some hi_raw \<Rightarrow>
            if hi_raw < lo_raw then Inl (RangeReversed full)
            else
              (let size = ucast hi_raw - ucast lo_raw + 1 :: u64
               in if \<not> is_power_of_two size then Inl (RangeNotPowerOfTwo size full)
                  else
                    (let host_bits = trailing_zeros size
                     in if 32 < host_bits then Inl (RangeTooLarge host_bits full)
                        else
                          (let plen = of_nat (32 - host_bits) :: u8;
                               mask = (if plen = 0 then 0 else push_bit (32 - unat plen) (- 1)) :: u32
                           in if lo_raw AND mask \<noteq> lo_raw then Inl (RangeMisaligned plen full)
                              else cidr_parse (show_cidr_v4 lo_raw plen))))))"

definition parse_friendly :: "string \<Rightarrow> (cidr_error, cidr) result" where
  "parse_friendly input =
     (let s = trim input
      in if s = [] then Inl EmptyInput
         else if CHR ''/'' \<in> set s then cidr_parse s
         else case split_once (CHR ''-'') s of
             Some (lo, hi) \<Rightarrow> parse_range_friendly (trim lo) (trim hi) s
           | None \<Rightarrow>
               if CHR ''*'' \<in> set s then parse_wildcard_friendly s
               else cidr_parse s)"

section \<open>Masking is clearing the low bits\<close>

lemma and_not_mask: "w AND NOT (mask k) = push_bit k (drop_bit k w)" for w :: "'a::len word"
  by (rule bit_word_eqI) (auto simp: bit_simps)

lemma unat_push_drop:
  "unat (push_bit k (drop_bit k w)) = unat w div 2 ^ k * 2 ^ k" for w :: "'a::len word"
proof -
  have "unat w div 2 ^ k * 2 ^ k \<le> unat w" by (simp add: div_times_less_eq_dividend)
  then have "unat w div 2 ^ k * 2 ^ k < 2 ^ LENGTH('a)"
    using unsigned_less [of w, where 'a = nat] by linarith
  then show ?thesis
    unfolding unsigned_push_bit_eq unsigned_drop_bit_eq
    by (simp add: push_bit_eq_mult drop_bit_eq_div take_bit_eq_mod)
qed

lemma masked_eq_iff:
  "v AND NOT (mask k) = w AND NOT (mask k) \<longleftrightarrow> unat v div 2 ^ k = unat w div 2 ^ k"
  for v w :: "'a::len word"
  unfolding and_not_mask by (metis mult_right_cancel unat_push_drop word_unat_eq_iff power_not_zero zero_neq_numeral)

lemma masks_as_not_mask:
  "v4_mask plen = NOT (mask (32 - unat plen))" "v6_mask plen = NOT (mask (128 - unat plen))"
proof -
  have "NOT (mask 32 :: u32) = 0" "NOT (mask 128 :: u128) = 0"
    by (rule bit_word_eqI; auto simp: bit_simps)+
  then show "v4_mask plen = NOT (mask (32 - unat plen))" "v6_mask plen = NOT (mask (128 - unat plen))"
    by (cases "plen = 0"; simp add: v4_mask_def v6_mask_def)+
qed

text \<open>The first bits of two addresses agree.\<close>

fun same_prefix :: "nat \<Rightarrow> ip_addr \<Rightarrow> ip_addr \<Rightarrow> bool" where
  "same_prefix n (V4 a) (V4 b) \<longleftrightarrow> (\<forall>i. 32 - n \<le> i \<longrightarrow> bit a i = bit b i)"
| "same_prefix n (V6 a) (V6 b) \<longleftrightarrow> (\<forall>i. 128 - n \<le> i \<longrightarrow> bit a i = bit b i)"
| "same_prefix n _ _ \<longleftrightarrow> False"

lemma masked_eq_bits:
  "v AND NOT (mask k) = w AND NOT (mask k) \<longleftrightarrow> (\<forall>i. k \<le> i \<longrightarrow> bit v i = bit w i)"
  for v w :: "'a::len word"
  unfolding and_not_mask
  by (auto simp: bit_eq_iff bit_simps) (metis bit_imp_le_length le_add_diff_inverse)+

lemma cidr_parse_Inr:
  assumes "cidr_parse s = Inr c"
  obtains (v4) raw plen where "c = CidrV4 (raw AND v4_mask plen) plen" "plen \<le> 32"
      "ip_from_str (trim (case split_once (CHR ''/'') s of Some (a, _) \<Rightarrow> a | None \<Rightarrow> s)) = Some (V4 raw)"
  | (v6) raw plen where "c = CidrV6 (raw AND v6_mask plen) plen" "plen \<le> 128"
      "ip_from_str (trim (case split_once (CHR ''/'') s of Some (a, _) \<Rightarrow> a | None \<Rightarrow> s)) = Some (V6 raw)"
  using assms
  by (auto simp: cidr_parse_def Let_def warden_ok not_less split: option.splits prod.splits ip_addr.splits if_splits)

section \<open>Printed blocks parse back\<close>

lemma digit_ws_free: "is_digit 10 c \<Longrightarrow> ws_free c"
  by (auto simp: is_digit_def is_ascii_digit_def ws_free_def whitespace_seqs_def)

lemma last_show_nat: "is_digit 10 (last (show_nat n))" "is_digit 10 (hd (show_nat n))"
  using show_nat_digits [of n] by (simp_all add: list_all_iff)

lemma trim_show_nat [simp]: "trim (show_nat n) = show_nat n"
  by (rule trim_id) (simp add: digit_ws_free last_show_nat)

lemma trim_show_ipv4 [simp]: "trim (show_ipv4 a) = show_ipv4 a"
  by (rule trim_id) (simp add: digit_ws_free last_show_nat show_ipv4_def)

lemma show_ipv4_chars: "c \<in> set (show_ipv4 a) \<Longrightarrow> is_digit 10 c \<or> c = CHR ''.''"
  using show_nat_digits by (auto simp: show_ipv4_def list_all_iff)

lemma show_ipv4_excludes:
  "CHR ''/'' \<notin> set (show_ipv4 a)" "CHR ''*'' \<notin> set (show_ipv4 a)" "CHR '':'' \<notin> set (show_ipv4 a)"
  using show_ipv4_chars by (fastforce simp: is_digit_def is_ascii_digit_def)+

lemma split_once_append: "c \<notin> set xs \<Longrightarrow> split_once c (xs @ c # ys) = Some (xs, ys)"
  by (simp add: split_once_Some_iff)

lemma cidr_parse_show:
  assumes "plen \<le> 32"
  shows "cidr_parse (show_cidr_v4 a plen) = Inr (CidrV4 (a AND v4_mask plen) plen)"
proof -
  have "unat plen \<le> 255" using unsigned_less [of plen, where 'a = nat] by simp
  then have "parse_u8 (show_nat (unat plen)) = Some plen" by (simp add: parse_u8_def)
  then show ?thesis
    using assms split_once_append [OF show_ipv4_excludes(1) [of a]]
    by (simp add: cidr_parse_def prefix_or_def)
qed

text \<open>A block as the parsers build it.\<close>

fun cidr_wf :: "cidr \<Rightarrow> bool" where
  "cidr_wf (CidrV4 network plen) \<longleftrightarrow> plen \<le> 32 \<and> network AND v4_mask plen = network"
| "cidr_wf (CidrV6 network plen) \<longleftrightarrow> plen \<le> 128 \<and> network AND v6_mask plen = network"

text \<open>A parsed block contains exactly the addresses of its family that agree with the
  written address on the first \<open>prefix\<close> bits; the host bits of the input do not matter and
  the stored network has none.\<close>

theorem parsed_cidr_contains:
  assumes "cidr_parse s = Inr c"
  shows "\<exists>raw. ip_from_str (trim (case split_once (CHR ''/'') s of Some (a, _) \<Rightarrow> a | None \<Rightarrow> s)) = Some raw
    \<and> (\<forall>ip. cidr_contains c ip \<longleftrightarrow> same_prefix (unat (cidr_prefix_len c)) ip raw) \<and> cidr_wf c"
  using assms
proof (cases rule: cidr_parse_Inr)
  case (v4 raw plen)
  have "cidr_contains c ip \<longleftrightarrow> same_prefix (unat plen) ip (V4 raw)" for ip
    by (cases ip) (simp_all add: v4(1) masks_as_not_mask masked_eq_bits)
  then show ?thesis using v4 by (auto simp: and.assoc)
next
  case (v6 raw plen)
  have "cidr_contains c ip \<longleftrightarrow> same_prefix (unat plen) ip (V6 raw)" for ip
    by (cases ip) (simp_all add: v6(1) masks_as_not_mask masked_eq_bits)
  then show ?thesis using v6 by (auto simp: and.assoc)
qed

theorem parsed_cidr_contains_witness:
  "\<exists>c. cidr_parse ''10.0.0.9/30'' = Inr c \<and> cidr_contains c (V4 0x0A00000B) \<and> \<not> cidr_contains c (V4 0x0A00000C)
     \<and> cidr_wf c"
proof -
  have c: "cidr_parse ''10.0.0.9/30'' = Inr (CidrV4 0x0A000008 30)"
    "cidr_contains (CidrV4 0x0A000008 30) (V4 0x0A00000B)" "\<not> cidr_contains (CidrV4 0x0A000008 30) (V4 0x0A00000C)"
    by code_simp+
  then show ?thesis using parsed_cidr_contains [OF c(1)] by blast
qed

section \<open>Ranges\<close>

lemma range_size:
  fixes lo hi :: u32
  assumes "lo \<le> hi"
  shows "unat (ucast hi - ucast lo + 1 :: u64) = unat hi - unat lo + 1"
proof -
  have lt: "unat hi < 2 ^ 32" using unsigned_less [of hi, where 'a = nat] by simp
  have le: "unat lo \<le> unat hi" using assms by (simp add: word_le_nat_alt)
  have "(ucast hi - ucast lo + 1 :: u64) = of_nat (unat hi - unat lo + 1)"
    using le by (simp add: of_nat_diff)
  then show ?thesis using lt by (simp only: unat_of_nat) simp
qed

lemma power_word_iff:
  fixes w :: u64
  assumes "k < 64"
  shows "w = 2 ^ k \<longleftrightarrow> unat w = 2 ^ k"
proof -
  have "(2 :: nat) ^ k < 2 ^ 64" using assms by (intro power_strict_increasing) simp_all
  then have "unat (2 ^ k :: u64) = 2 ^ k" using unat_of_nat [of "2 ^ k", where 'a = 64] by simp
  then show ?thesis by (simp add: word_unat_eq_iff)
qed

lemma is_power_of_two_iff: "is_power_of_two w \<longleftrightarrow> (\<exists>k < 64. unat w = 2 ^ k)"
  using power_word_iff by (auto simp: is_power_of_two_def list_ex_iff)

lemma trailing_zeros_power:
  assumes "unat w = 2 ^ k" "k < 64"
  shows "trailing_zeros w = k"
proof -
  have "w = 2 ^ k" using assms power_word_iff by blast
  then have "bit w n \<longleftrightarrow> n = k" for n using assms(2) by (auto simp: bit_exp_iff)
  moreover have "w \<noteq> 0" using assms by auto
  ultimately show ?thesis using trailing_zeros_lowest(2) by blast
qed

lemma block_interval:
  fixes a v n :: nat
  assumes "n dvd a" "0 < n"
  shows "v div n = a div n \<longleftrightarrow> a \<le> v \<and> v < a + n"
proof -
  obtain q where a: "a = n * q" using assms(1) by auto
  have "v div n = q \<longleftrightarrow> n * q \<le> v \<and> v < n * q + n"
    using assms(2) times_div_less_eq_dividend [of n v] dividend_less_times_div [of n v] div_nat_eqI [of n q v] by auto
  then show ?thesis using a assms(2) by simp
qed

lemma parse_range_shape:
  assumes "parse_range_friendly lo hi full = Inr c"
  obtains a b k where "ipv4_from_str lo = Some a" "ipv4_from_str hi = Some b" "a \<le> b"
    "k \<le> 32" "unat b - unat a + 1 = 2 ^ k" "a AND v4_mask (of_nat (32 - k)) = a"
    "c = CidrV4 a (of_nat (32 - k))"
proof -
  obtain a b where ab: "ipv4_from_str lo = Some a" "ipv4_from_str hi = Some b" "a \<le> b"
    and p: "is_power_of_two (ucast b - ucast a + 1)" "trailing_zeros (ucast b - ucast a + 1) \<le> 32"
    and m: "a AND v4_mask (of_nat (32 - trailing_zeros (ucast b - ucast a + 1))) = a"
    and c: "cidr_parse (show_cidr_v4 a (of_nat (32 - trailing_zeros (ucast b - ucast a + 1)))) = Inr c"
    using assms
    by (auto simp: parse_range_friendly_def v4_mask_def Let_def not_less split: if_splits option.splits)
  define k where "k = trailing_zeros (ucast b - ucast a + 1)"
  obtain j where j: "j < 64" "unat (ucast b - ucast a + 1 :: u64) = 2 ^ j" using p(1) by (auto simp: is_power_of_two_iff)
  then have "k = j" unfolding k_def by (intro trailing_zeros_power)
  then have size: "unat b - unat a + 1 = 2 ^ k" using j(2) range_size [OF ab(3)] by simp
  have "(of_nat (32 - k) :: u8) \<le> 32" by (simp add: word_le_nat_alt unat_of_nat)
  then have "c = CidrV4 a (of_nat (32 - k))"
    using c m cidr_parse_show [of "of_nat (32 - k)" a] unfolding k_def [symmetric] by simp
  then show thesis using that ab p(2) size m unfolding k_def [symmetric] by blast
qed

lemma range_contains:
  assumes "a AND v4_mask (of_nat (32 - k)) = a" "k \<le> 32" "a \<le> b" "unat b - unat a + 1 = 2 ^ k"
  shows "v AND v4_mask (of_nat (32 - k)) = a \<longleftrightarrow> a \<le> v \<and> v \<le> b"
proof -
  have "unat (of_nat (32 - k) :: u8) = 32 - k" unfolding unat_of_nat by simp
  then have u: "32 - unat (of_nat (32 - k) :: u8) = k" using assms(2) by simp
  have "unat a div 2 ^ k * 2 ^ k = unat a"
    using assms(1) unat_push_drop [of k a] by (simp add: masks_as_not_mask u and_not_mask)
  then have "2 ^ k dvd unat a" by (metis dvd_triv_right)
  moreover have "v AND v4_mask (of_nat (32 - k)) = a \<longleftrightarrow> unat v div 2 ^ k = unat a div 2 ^ k"
    using assms(1) masked_eq_iff [of v k a] by (simp add: masks_as_not_mask u)
  ultimately show ?thesis
    using block_interval [of "2 ^ k" "unat a" "unat v"] assms(3,4) by (auto simp: word_le_nat_alt)
qed

text \<open>A range that parses is one block and the block is the range: it contains exactly
  the IPv4 addresses from the start to the end, both included, and no IPv6 address.\<close>

theorem range_is_interval:
  assumes "parse_range_friendly lo hi full = Inr c"
  shows "\<exists>a b. ipv4_from_str lo = Some a \<and> ipv4_from_str hi = Some b \<and> a \<le> b
    \<and> (\<forall>ip. cidr_contains c ip \<longleftrightarrow> (\<exists>v. ip = V4 v \<and> a \<le> v \<and> v \<le> b))"
proof -
  obtain a b k where r: "ipv4_from_str lo = Some a" "ipv4_from_str hi = Some b" "a \<le> b"
      "k \<le> 32" "unat b - unat a + 1 = 2 ^ k" "a AND v4_mask (of_nat (32 - k)) = a"
      "c = CidrV4 a (of_nat (32 - k))"
    using parse_range_shape [OF assms] .
  have "cidr_contains c ip \<longleftrightarrow> (\<exists>v. ip = V4 v \<and> a \<le> v \<and> v \<le> b)" for ip
    using range_contains [OF r(6,4,3,5)] r(7) by (cases ip) auto
  then show ?thesis using r by blast
qed

theorem range_is_interval_witness:
  "\<exists>c. parse_range_friendly ''10.14.0.0'' ''10.14.0.255'' [] = Inr c \<and> cidr_contains c (V4 0x0A0E0003)
     \<and> \<not> cidr_contains c (V4 0x0A0E0100)"
proof -
  have c: "parse_range_friendly ''10.14.0.0'' ''10.14.0.255'' [] = Inr (CidrV4 0x0A0E0000 24)"
    "ipv4_from_str ''10.14.0.0'' = Some 0x0A0E0000" "ipv4_from_str ''10.14.0.255'' = Some 0x0A0E00FF"
    by code_simp+
  then show ?thesis using range_is_interval [OF c(1)] by (auto simp del: cidr_contains.simps)
qed

text \<open>The IPv4 \<open>Display\<close> and the strict parser are inverse on well-formed blocks, so a
  stored block survives being written to the configuration and read back.\<close>

theorem cidr_display_roundtrip:
  assumes "cidr_wf (CidrV4 network plen)"
  shows "cidr_parse (show_cidr_v4 network plen) = Inr (CidrV4 network plen)"
  using assms cidr_parse_show [of plen network] by simp

theorem cidr_display_roundtrip_witness:
  "cidr_parse (show_cidr_v4 0x0A0E0000 24) = Inr (CidrV4 0x0A0E0000 24)"
  by (rule cidr_display_roundtrip) (simp add: v4_mask_def; code_simp)

end
