(* ===== verification/Client_Subnet.thy ===== *)
theory Client_Subnet
  imports Cidr_Blocks
begin

text \<open>
  The EDNS client subnet option, \<open>dns/edns/client_subnet.rs\<close>, and the per-profile policy
  that decides whether and with which prefix it is sent, \<open>EcsPolicy\<close> of
  \<open>profiles/profile.rs\<close>.  Addresses are masked octet by octet, as the code does.
\<close>

section \<open>The option\<close>

datatype address_family = FamilyV4 | FamilyV6

datatype ecs_error = PrefixOutOfRange address_family u8 u8

fun max_prefix :: "address_family \<Rightarrow> u8" where
  "max_prefix FamilyV4 = 32"
| "max_prefix FamilyV6 = 128"

fun unspecified_addr :: "address_family \<Rightarrow> ip_addr" where
  "unspecified_addr FamilyV4 = V4 0"
| "unspecified_addr FamilyV6 = V6 0"

fun family_for :: "ip_addr \<Rightarrow> address_family" where
  "family_for (V4 _) = FamilyV4"
| "family_for (V6 _) = FamilyV6"

text \<open>Big-endian octets of an address and back.\<close>

definition octets :: "nat \<Rightarrow> 'a::len word \<Rightarrow> u8 list" where
  "octets n a = map (\<lambda>i. ucast (drop_bit (8 * (n - 1 - i)) a)) [0..<n]"

definition from_octets :: "u8 list \<Rightarrow> 'a::len word" where
  "from_octets bs = foldl (\<lambda>acc b. push_bit 8 acc OR ucast b) 0 bs"

definition mask_octets :: "u8 list \<Rightarrow> u8 \<Rightarrow> u8 list" where
  "mask_octets bs plen =
     (let p = unat plen; full_bytes = p div 8; leftover_bits = p mod 8
      in if length bs * 8 \<le> p then bs
         else if leftover_bits \<noteq> 0 then
           map (\<lambda>(i, b). if full_bytes + 1 \<le> i then 0 else b)
             (List.enumerate 0 (bs[full_bytes := bs ! full_bytes AND push_bit (8 - leftover_bits) 0xFF]))
         else map (\<lambda>(i, b). if full_bytes \<le> i then 0 else b) (List.enumerate 0 bs))"

fun mask_address :: "ip_addr \<Rightarrow> u8 \<Rightarrow> ip_addr" where
  "mask_address (V4 v4) plen = V4 (from_octets (mask_octets (octets 4 v4) plen))"
| "mask_address (V6 v6) plen = V6 (from_octets (mask_octets (octets 16 v6) plen))"

record edns_client_subnet =
  ecs_addr :: ip_addr
  ecs_source_prefix :: u8
  ecs_scope_prefix :: u8

definition client_subnet_new :: "ip_addr \<Rightarrow> u8 \<Rightarrow> (ecs_error, edns_client_subnet) result" where
  "client_subnet_new address source_prefix =
     (let family = family_for address; max_p = max_prefix family
      in if max_p < source_prefix then Inl (PrefixOutOfRange family source_prefix max_p)
         else Inr \<lparr>ecs_addr = mask_address address source_prefix, ecs_source_prefix = source_prefix,
                   ecs_scope_prefix = 0\<rparr>)"

definition client_subnet_anonymous :: "address_family \<Rightarrow> edns_client_subnet" where
  "client_subnet_anonymous family =
     \<lparr>ecs_addr = unspecified_addr family, ecs_source_prefix = 0, ecs_scope_prefix = 0\<rparr>"

definition as_cache_prefix :: "edns_client_subnet \<Rightarrow> (ip_addr \<times> u8) option" where
  "as_cache_prefix e = (if ecs_source_prefix e = 0 then None else Some (ecs_addr e, ecs_source_prefix e))"

section \<open>The policy\<close>

datatype ecs_mode = EcsOff | EcsCoarse | EcsSubnet

record ecs_policy =
  ep_mode :: ecs_mode
  ep_source_prefix_v4 :: u8
  ep_source_prefix_v6 :: u8

record ecs_config =
  ec_enabled :: bool
  ec_mode :: ecs_mode
  ec_source_prefix_v4 :: u8
  ec_source_prefix_v6 :: u8

record profile_ecs_config =
  pe_mode :: "ecs_mode option"
  pe_source_prefix_v4 :: "u8 option"
  pe_source_prefix_v6 :: "u8 option"

definition ecs_OFF :: ecs_policy where
  "ecs_OFF = \<lparr>ep_mode = EcsOff, ep_source_prefix_v4 = 0, ep_source_prefix_v6 = 0\<rparr>"

definition from_profile_and_upstream :: "profile_ecs_config option \<Rightarrow> ecs_config \<Rightarrow> ecs_policy" where
  "from_profile_and_upstream profile_ecs upstream_ecs =
     (if \<not> ec_enabled upstream_ecs then ecs_OFF
      else case profile_ecs of
          Some pe \<Rightarrow>
            \<lparr>ep_mode = unwrap_or (ec_mode upstream_ecs) (pe_mode pe),
             ep_source_prefix_v4 = unwrap_or (ec_source_prefix_v4 upstream_ecs) (pe_source_prefix_v4 pe),
             ep_source_prefix_v6 = unwrap_or (ec_source_prefix_v6 upstream_ecs) (pe_source_prefix_v6 pe)\<rparr>
        | None \<Rightarrow>
            \<lparr>ep_mode = ec_mode upstream_ecs, ep_source_prefix_v4 = ec_source_prefix_v4 upstream_ecs,
             ep_source_prefix_v6 = ec_source_prefix_v6 upstream_ecs\<rparr>)"

definition build_option :: "ecs_policy \<Rightarrow> ip_addr \<Rightarrow> edns_client_subnet option" where
  "build_option p client_ip =
     (case ep_mode p of
        EcsOff \<Rightarrow> None
      | EcsCoarse \<Rightarrow>
          result_ok (client_subnet_new client_ip (case client_ip of V4 _ \<Rightarrow> 24 | V6 _ \<Rightarrow> 56))
      | EcsSubnet \<Rightarrow>
          result_ok (client_subnet_new client_ip
            (case client_ip of V4 _ \<Rightarrow> ep_source_prefix_v4 p | V6 _ \<Rightarrow> ep_source_prefix_v6 p)))"

section \<open>Masking octets is masking the address\<close>

lemma bit_from_octets:
  "bit (from_octets bs :: 'a::len word) i \<longleftrightarrow>
     i < LENGTH('a) \<and> i < 8 * length bs \<and> bit (bs ! (length bs - 1 - i div 8)) (i mod 8)"
proof (induction bs arbitrary: i rule: rev_induct)
  case (snoc b bs)
  have step: "from_octets (bs @ [b]) = (push_bit 8 (from_octets bs) OR ucast b :: 'a word)"
    by (simp add: from_octets_def)
  show ?case
  proof (cases "i < 8")
    case True
    then show ?thesis by (auto simp: step bit_simps dest: bit_imp_le_length)
  next
    case False
    then obtain j where j: "i = j + 8" by (metis add.commute le_Suc_ex not_less)
    have "bit (ucast b :: 'a word) i = False" using False bit_imp_le_length [of b i] by (auto simp: bit_simps)
    moreover have "(bs @ [b]) ! (length bs - i div 8) = bs ! (length bs - 1 - j div 8)" if "j < 8 * length bs"
      using that by (auto simp: j nth_append div_add_self2)
    ultimately show ?thesis
      using j snoc [of j] by (auto simp: step bit_simps)
  qed
qed (simp add: from_octets_def)

lemma bit_0xFF: "bit (0xFF :: u8) n \<longleftrightarrow> n < 8"
proof -
  have "(0xFF :: u8) = - 1" by simp
  then show ?thesis by (simp only: bit_minus_1_iff) simp
qed

lemma nth_mask_octets:
  assumes "k < length bs"
  shows "bit (mask_octets bs plen ! k) j \<longleftrightarrow>
    bit (bs ! k) j \<and> length bs * 8 - unat plen \<le> (length bs - 1 - k) * 8 + j"
proof -
  define full where "full = unat plen div 8"
  define left where "left = unat plen mod 8"
  have p: "unat plen = 8 * full + left" "left < 8" by (simp_all add: full_def left_def)
  have j: "j < 8" if "bit (b :: u8) j" for b using bit_imp_le_length [OF that] by simp
  have m: "mask_octets bs plen ! k =
      (if length bs * 8 \<le> unat plen \<or> k < full then bs ! k
       else if k = full \<and> left \<noteq> 0 then bs ! k AND push_bit (8 - left) 0xFF else 0)"
    using assms by (auto simp: mask_octets_def Let_def nth_enumerate_eq nth_list_update full_def [symmetric] left_def [symmetric])
  consider "length bs * 8 \<le> unat plen \<or> k < full" | "\<not> length bs * 8 \<le> unat plen" "k = full" "left \<noteq> 0"
    | "\<not> length bs * 8 \<le> unat plen" "full \<le> k" "k = full \<Longrightarrow> left = 0" by linarith
  then show ?thesis
  proof cases
    case 1
    then show ?thesis using m p assms by auto
  next
    case 2
    have "bit (push_bit (8 - left) (0xFF :: u8)) j \<longleftrightarrow> 8 - left \<le> j \<and> j < 8"
      by (simp only: bit_push_bit_iff bit_0xFF) auto
    then show ?thesis using 2 m p assms j [of "bs ! k"] by (auto simp: bit_and_iff)
  next
    case 3
    then show ?thesis using m p assms j [of "bs ! k"] by (cases "k = full") auto
  qed
qed

lemma length_mask_octets [simp]: "length (mask_octets bs plen) = length bs"
  by (simp add: mask_octets_def Let_def)

lemma bit_mask_word:
  fixes a :: "'a::len word"
  assumes n: "LENGTH('a) = 8 * n"
  shows "from_octets (mask_octets (octets n a) plen) = a AND NOT (mask (8 * n - unat plen))"
proof (rule bit_word_eqI)
  fix i assume i: "i < LENGTH('a)"
  define k where "k = n - 1 - i div 8"
  have k: "k < n" "n - 1 - k = i div 8" "n - Suc (i div 8) = k" using i n by (auto simp: k_def)
  have len: "length (octets n a) = n" by (simp add: octets_def)
  have "bit (octets n a ! k) (i mod 8) \<longleftrightarrow> bit a i"
    using k i by (simp add: octets_def bit_simps)
  then show "bit (from_octets (mask_octets (octets n a) plen) :: 'a word) i \<longleftrightarrow> bit (a AND NOT (mask (8 * n - unat plen))) i"
    using nth_mask_octets [of k "octets n a" plen "i mod 8"] i n k
    by (auto simp: bit_from_octets len bit_simps mult.commute)
qed

lemma mask_address_words:
  "mask_address (V4 a) plen = V4 (a AND v4_mask plen)" "mask_address (V6 b) plen = V6 (b AND v6_mask plen)"
  using bit_mask_word [of 4 a plen] bit_mask_word [of 16 b plen] by (simp_all add: masks_as_not_mask)

lemma same_prefix_masks:
  "same_prefix (unat plen) x y \<longleftrightarrow> family_for x = family_for y \<and> mask_address x plen = mask_address y plen"
  by (cases x; cases y)
    (simp_all add: mask_address_words masks_as_not_mask masked_eq_bits del: mask_address.simps)

text \<open>The prefix a policy sends for a family.\<close>

definition policy_prefix :: "ecs_policy \<Rightarrow> address_family \<Rightarrow> u8 option" where
  "policy_prefix p f =
     (case ep_mode p of
        EcsOff \<Rightarrow> None
      | EcsCoarse \<Rightarrow> Some (if f = FamilyV4 then 24 else 56)
      | EcsSubnet \<Rightarrow> Some (if f = FamilyV4 then ep_source_prefix_v4 p else ep_source_prefix_v6 p))"

lemma build_option_prefix:
  "build_option p x =
     (case policy_prefix p (family_for x) of None \<Rightarrow> None | Some n \<Rightarrow> result_ok (client_subnet_new x n))"
  by (cases x; cases "ep_mode p") (simp_all add: build_option_def policy_prefix_def)

text \<open>C31. What an upstream learns of a client is its network and nothing else: two clients that
  agree on the first \<open>prefix\<close> bits send the same option, in either family and for every policy,
  and the option carries the prefix it was masked to.\<close>

theorem ecs_reveals_only_prefix:
  assumes "build_option p x = Some e"
  shows "ecs_addr e = mask_address x (ecs_source_prefix e) \<and> ecs_scope_prefix e = 0
    \<and> ecs_source_prefix e \<le> max_prefix (family_for x)
    \<and> (\<forall>y. same_prefix (unat (ecs_source_prefix e)) x y \<longrightarrow> build_option p y = Some e)"
proof -
  obtain plen where pp: "policy_prefix p (family_for x) = Some plen" and e: "client_subnet_new x plen = Inr e"
    using assms by (auto simp: build_option_prefix warden_ok split: option.splits)
  have same: "build_option p y = result_ok (client_subnet_new y plen)" if "family_for x = family_for y" for y
    using pp that by (simp add: build_option_prefix)
  have p: "ecs_source_prefix e = plen" "plen \<le> max_prefix (family_for x)" "ecs_addr e = mask_address x plen"
      "ecs_scope_prefix e = 0"
    using e by (auto simp: client_subnet_new_def Let_def not_less split: if_splits)
  have "build_option p y = Some e" if "same_prefix (unat plen) x y" for y
    using that same [of y] e unfolding same_prefix_masks by (auto simp: client_subnet_new_def Let_def split: if_splits)
  then show ?thesis using p by auto
qed

definition sample_policy :: ecs_policy where
  "sample_policy = \<lparr>ep_mode = EcsSubnet, ep_source_prefix_v4 = 20, ep_source_prefix_v6 = 0\<rparr>"

theorem ecs_reveals_only_prefix_witness:
  "\<exists>e. build_option sample_policy (V4 0xC0A81FFA) = Some e \<and> ecs_addr e = V4 0xC0A81000
     \<and> build_option sample_policy (V4 0xC0A81001) = Some e"
proof -
  let ?e = "\<lparr>ecs_addr = V4 0xC0A81000, ecs_source_prefix = 20, ecs_scope_prefix = 0\<rparr>"
  have e: "build_option sample_policy (V4 0xC0A81FFA) = Some ?e" by code_simp
  have "mask_address (V4 0xC0A81FFA) 20 = mask_address (V4 0xC0A81001) 20" by code_simp
  then have "same_prefix (unat (ecs_source_prefix ?e)) (V4 0xC0A81FFA) (V4 0xC0A81001)"
    unfolding same_prefix_masks by simp
  then show ?thesis using ecs_reveals_only_prefix [OF e] e by auto
qed

text \<open>The global switch wins over every profile: with \<open>[upstream.ecs] enabled = false\<close> no
  profile sends the option; with it enabled a profile that names no mode inherits the
  global one.\<close>

theorem ecs_kill_switch:
  "(\<not> ec_enabled up \<longrightarrow> build_option (from_profile_and_upstream pe up) ip = None)
   \<and> (ec_enabled up \<longrightarrow> ep_mode (from_profile_and_upstream pe up) =
        (case Option.bind pe pe_mode of Some m \<Rightarrow> m | None \<Rightarrow> ec_mode up))"
  by (auto simp: from_profile_and_upstream_def build_option_def ecs_OFF_def split: option.splits)

theorem ecs_kill_switch_witness:
  "build_option (from_profile_and_upstream
     (Some \<lparr>pe_mode = Some EcsSubnet, pe_source_prefix_v4 = Some 32, pe_source_prefix_v6 = None\<rparr>)
     \<lparr>ec_enabled = False, ec_mode = EcsOff, ec_source_prefix_v4 = 0, ec_source_prefix_v6 = 0\<rparr>) (V4 1) = None"
  using ecs_kill_switch [of "\<lparr>ec_enabled = False, ec_mode = EcsOff, ec_source_prefix_v4 = 0, ec_source_prefix_v6 = 0\<rparr>"]
  by simp

end
