(* ===== verification/Response_Limiter.thy ===== *)
theory Response_Limiter
  imports Packed_Counters Bounded_Map Client_Subnet
begin

unbundle bit_operations_syntax

text \<open>
  Response rate limiting, \<open>security/rrl.rs\<close>: the budget per destination prefix or client, the
  choice between dropping and truncating, and the keys that keep the budgets apart.  The clock
  is an argument (seconds since the limiter was created).
\<close>

section \<open>Keys\<close>

definition client_key :: "ip_addr \<Rightarrow> u64" where
  "client_key ip =
     (case ip of
        V4 v4 \<Rightarrow>
          (let o4 = octets 4 v4
           in push_bit 62 1 OR push_bit 24 (ucast (o4 ! 0)) OR push_bit 16 (ucast (o4 ! 1))
              OR push_bit 8 (ucast (o4 ! 2)) OR ucast (o4 ! 3))
      | V6 v6 \<Rightarrow>
          (let h = foldl (\<lambda>h b. (h XOR ucast b) * 0x100000001b3) 0xcbf29ce484222325 (octets 16 v6)
           in drop_bit 2 h OR push_bit 63 1 OR push_bit 62 1))"

definition prefix_key :: "ip_addr \<Rightarrow> u64" where
  "prefix_key ip =
     (case ip of
        V4 v4 \<Rightarrow>
          (let o4 = octets 4 v4 in push_bit 16 (ucast (o4 ! 0)) OR push_bit 8 (ucast (o4 ! 1)) OR ucast (o4 ! 2))
      | V6 v6 \<Rightarrow>
          (let o6 = octets 16 v6
           in push_bit 63 1 OR push_bit 40 (ucast (o6 ! 0)) OR push_bit 32 (ucast (o6 ! 1)) OR push_bit 24 (ucast (o6 ! 2))
              OR push_bit 16 (ucast (o6 ! 3)) OR push_bit 8 (ucast (o6 ! 4)) OR ucast (o6 ! 5)))"

section \<open>The limiter\<close>

datatype rrl_action = RrlAllow | RrlDrop | RrlSlip

definition MAX_TRACKED_PREFIXES :: nat where
  "MAX_TRACKED_PREFIXES = 100000"

record prefix_state =
  ps_counter :: u64
  ps_slip :: u32

definition prefix_state_new :: "u64 \<Rightarrow> prefix_state" where
  "prefix_state_new now_secs = \<lparr>ps_counter = window_new now_secs, ps_slip = 0\<rparr>"

definition prefix_age :: "prefix_state \<Rightarrow> u64" where
  "prefix_age st = window_start_secs (ps_counter st)"

record rrl_params =
  rp_responses_per_second :: u32
  rp_window_secs :: u64
  rp_slip_rate :: u32

text \<open>\<open>RrlParams::from_config\<close> floors the window at one second.\<close>

definition rrl_from_config :: "rrl_params \<Rightarrow> rrl_params" where
  "rrl_from_config config = config\<lparr>rp_window_secs := max (rp_window_secs config) 1\<rparr>"

record rrl =
  rrl_prefixes :: "(u64, prefix_state) bounded_map"
  rrl_params_of :: rrl_params

definition rrl_new :: "rrl_params \<Rightarrow> rrl" where
  "rrl_new config = \<lparr>rrl_prefixes = bm_new MAX_TRACKED_PREFIXES, rrl_params_of = rrl_from_config config\<rparr>"

definition rrl_set_params :: "rrl \<Rightarrow> rrl_params \<Rightarrow> rrl" where
  "rrl_set_params r config = r\<lparr>rrl_params_of := rrl_from_config config\<rparr>"

definition slip_or_drop :: "u32 \<Rightarrow> u32 \<Rightarrow> rrl_action \<times> u32" where
  "slip_or_drop slip slip_rate =
     (if slip_rate = 0 then (RrlDrop, slip)
      else if slip_rate = 1 then (RrlSlip, slip)
      else (if slip mod slip_rate = 0 then RrlSlip else RrlDrop, slip + 1))"

definition max_count :: "rrl_params \<Rightarrow> u32" where
  "max_count p =
     sat_mul (rp_responses_per_second p) (if rp_window_secs p \<le> 0xFFFFFFFF then ucast (rp_window_secs p) else - 1)"

definition rrl_check ::
  "(u64, prefix_state) iteration \<Rightarrow> rrl \<Rightarrow> u64 \<Rightarrow> ip_addr \<Rightarrow> bool \<Rightarrow> rrl_action \<times> rrl"
where
  "rrl_check iter r now_secs dest_ip per_client =
     (let key = (if per_client then client_key dest_ip else prefix_key dest_ip);
          p = rrl_params_of r;
          (prefixes, st) = entry_or_insert_with iter prefix_age (rrl_prefixes r) key (prefix_state_new now_secs);
          (count, counter) = check_and_bump (ps_counter st) now_secs (rp_window_secs p);
          (action, slip) = (if count < max_count p then (RrlAllow, ps_slip st) else slip_or_drop (ps_slip st) (rp_slip_rate p))
      in (action, r\<lparr>rrl_prefixes := bm_store prefixes key \<lparr>ps_counter = counter, ps_slip = slip\<rparr>\<rparr>))"

text \<open>The product \<open>window_secs * 2\<close> wraps in a release build; a validated window is at most a day.\<close>

definition rrl_cleanup :: "rrl \<Rightarrow> u64 \<Rightarrow> rrl" where
  "rrl_cleanup r now_secs =
     r\<lparr>rrl_prefixes := bm_retain (\<lambda>_ st. sat_sub now_secs (window_start_secs (ps_counter st)) < rp_window_secs (rrl_params_of r) * 2)
         (rrl_prefixes r)\<rparr>"

section \<open>Budgets are kept apart\<close>

lemma bit_octet:
  assumes "8 * (n - 1 - i) = k + d" "i < n" "k \<le> 56"
  shows "bit (push_bit k (ucast (octets n a ! i)) :: u64) m \<longleftrightarrow> k \<le> m \<and> m < k + 8 \<and> bit a (m + d)"
proof -
  have "octets n a ! i = ucast (drop_bit (k + d) a)" using assms(1,2) by (simp add: octets_def)
  then show ?thesis using assms(3) by (auto simp: bit_simps algebra_simps)
qed

lemma bit_octet_0:
  assumes "8 * (n - 1 - i) = d" "i < n"
  shows "bit (ucast (octets n a ! i) :: u64) m \<longleftrightarrow> m < 8 \<and> bit a (m + d)"
  using bit_octet [of n i 0 d a m] assms by simp

lemma bit_flag: "k < 64 \<Longrightarrow> bit (push_bit k 1 :: u64) m \<longleftrightarrow> m = k"
  by (auto simp: bit_exp_iff)

lemma key_flags: "bit (push_bit 62 1 :: u64) m \<longleftrightarrow> m = 62" "bit (push_bit 63 1 :: u64) m \<longleftrightarrow> m = 63"
  by (rule bit_flag, simp)+

lemma word_bits_eq: "a = b \<longleftrightarrow> (\<forall>n. bit a n = bit b n)" for a b :: "'a::len word"
  by (auto intro: bit_eqI)

lemma bit_prefix_key_V4: "bit (prefix_key (V4 a)) m \<longleftrightarrow> m < 24 \<and> bit a (m + 8)"
proof -
  have "bit (prefix_key (V4 a)) m \<longleftrightarrow>
      16 \<le> m \<and> m < 24 \<and> bit a (m + 8) \<or> 8 \<le> m \<and> m < 16 \<and> bit a (m + 8) \<or> m < 8 \<and> bit a (m + 8)"
    using bit_octet [of 4 0 16 8 a m] bit_octet [of 4 1 8 8 a m] bit_octet_0 [of 4 2 8 a m]
    by (simp add: prefix_key_def bit_or_iff Let_def)
  then show ?thesis by auto
qed

lemma bit_client_key_V4: "bit (client_key (V4 a)) m \<longleftrightarrow> m = 62 \<or> m < 32 \<and> bit a m"
proof -
  have "bit (client_key (V4 a)) m \<longleftrightarrow> m = 62 \<or> 24 \<le> m \<and> m < 32 \<and> bit a m \<or> 16 \<le> m \<and> m < 24 \<and> bit a m
      \<or> 8 \<le> m \<and> m < 16 \<and> bit a m \<or> m < 8 \<and> bit a m"
    using bit_octet [of 4 0 24 0 a m] bit_octet [of 4 1 16 0 a m] bit_octet [of 4 2 8 0 a m] bit_octet_0 [of 4 3 0 a m]
    unfolding client_key_def Let_def ip_addr.case bit_or_iff key_flags by (simp add: disj_assoc)
  then show ?thesis by auto
qed

lemma bit_prefix_key_V6: "bit (prefix_key (V6 a)) m \<longleftrightarrow> m = 63 \<or> m < 48 \<and> bit a (m + 80)"
proof -
  have "bit (prefix_key (V6 a)) m \<longleftrightarrow> m = 63 \<or> 40 \<le> m \<and> m < 48 \<and> bit a (m + 80) \<or> 32 \<le> m \<and> m < 40 \<and> bit a (m + 80)
      \<or> 24 \<le> m \<and> m < 32 \<and> bit a (m + 80) \<or> 16 \<le> m \<and> m < 24 \<and> bit a (m + 80)
      \<or> 8 \<le> m \<and> m < 16 \<and> bit a (m + 80) \<or> m < 8 \<and> bit a (m + 80)"
    using bit_octet [of 16 0 40 80 a m] bit_octet [of 16 1 32 80 a m] bit_octet [of 16 2 24 80 a m]
      bit_octet [of 16 3 16 80 a m] bit_octet [of 16 4 8 80 a m] bit_octet_0 [of 16 5 80 a m]
    unfolding prefix_key_def Let_def ip_addr.case bit_or_iff key_flags by (simp add: disj_assoc)
  then show ?thesis by (cases "bit a (m + 80)"; simp; presburger)
qed

lemma bit_client_key_V6: "bit (client_key (V6 a)) 62" "bit (client_key (V6 a)) 63"
  unfolding client_key_def Let_def ip_addr.case bit_or_iff key_flags by simp_all

lemma flagged_eq:
  assumes "\<And>n. P n \<Longrightarrow> n < w" "\<And>n. Q n \<Longrightarrow> n < w" "w \<le> k"
  shows "(\<forall>n. (n = k \<or> n < w \<and> P n) = (n = k \<or> n < w \<and> Q n)) \<longleftrightarrow> (\<forall>n :: nat. P n = Q n)"
proof
  assume eq: "\<forall>n. (n = k \<or> n < w \<and> P n) = (n = k \<or> n < w \<and> Q n)"
  have "P n = Q n" for n using eq [rule_format, of n] assms(1) [of n] assms(2) [of n] assms(3) by (cases "n < w") auto
  then show "\<forall>n. P n = Q n" by blast
qed auto

lemma drop_bit_eq_iff: "drop_bit k a = drop_bit k b \<longleftrightarrow> (\<forall>m. bit a (m + k) = bit b (m + k))" for a b :: "'a::len word"
  unfolding word_bits_eq [of "drop_bit k a"] by (simp add: bit_drop_bit_eq add.commute)

text \<open>No two destinations share a budget unless they should: prefix keys agree exactly for two
  addresses of one IPv4 /24 or one IPv6 /48; a client key is never a prefix key; client keys
  of IPv4 addresses are distinct, and distinct from those of IPv6.\<close>

theorem rrl_keys_disjoint:
  "(prefix_key (V4 a) = prefix_key (V4 b) \<longleftrightarrow> drop_bit 8 a = drop_bit 8 b)
   \<and> (prefix_key (V6 c) = prefix_key (V6 d) \<longleftrightarrow> drop_bit 80 c = drop_bit 80 d)
   \<and> prefix_key (V4 a) \<noteq> prefix_key (V6 c)
   \<and> client_key ip \<noteq> prefix_key ip'
   \<and> (client_key (V4 a) = client_key (V4 b) \<longleftrightarrow> a = b)
   \<and> client_key (V4 a) \<noteq> client_key (V6 c)"
proof (intro conjI)
  have "bit x (m + 8) \<Longrightarrow> m < 24" for m and x :: u32 using bit_imp_le_length [of x "m + 8"] by simp
  then show "prefix_key (V4 a) = prefix_key (V4 b) \<longleftrightarrow> drop_bit 8 a = drop_bit 8 b"
    unfolding drop_bit_eq_iff word_bits_eq [of "prefix_key _"] bit_prefix_key_V4 by blast
  have "bit x (m + 80) \<Longrightarrow> m < 48" for m and x :: u128 using bit_imp_le_length [of x "m + 80"] by simp
  then show "prefix_key (V6 c) = prefix_key (V6 d) \<longleftrightarrow> drop_bit 80 c = drop_bit 80 d"
    unfolding drop_bit_eq_iff word_bits_eq [of "prefix_key _"] bit_prefix_key_V6 by (intro flagged_eq) auto
  show "prefix_key (V4 a) \<noteq> prefix_key (V6 c)"
    using bit_prefix_key_V4 [of a 63] bit_prefix_key_V6 [of c 63] by auto
  show "client_key ip \<noteq> prefix_key ip'"
  proof -
    have "bit (client_key ip) 62" by (cases ip) (simp_all add: bit_client_key_V4 bit_client_key_V6)
    moreover have "\<not> bit (prefix_key ip') 62" by (cases ip') (simp_all add: bit_prefix_key_V4 bit_prefix_key_V6)
    ultimately show ?thesis by metis
  qed
  have "bit x m \<Longrightarrow> m < 32" for m and x :: u32 using bit_imp_le_length [of x m] by simp
  then show "client_key (V4 a) = client_key (V4 b) \<longleftrightarrow> a = b"
    unfolding word_bits_eq [of "client_key _"] word_bits_eq [of a] bit_client_key_V4 by (intro flagged_eq) auto
  show "client_key (V4 a) \<noteq> client_key (V6 c)"
    using bit_client_key_V4 [of a 63] bit_client_key_V6(2) [of c] by auto
qed

section \<open>One window\<close>

definition rrl_run ::
  "(u64, prefix_state) iteration \<Rightarrow> rrl \<Rightarrow> ip_addr \<Rightarrow> bool \<Rightarrow> u64 list \<Rightarrow> rrl"
where
  "rrl_run iter r ip per_client ts = foldl (\<lambda>r now. snd (rrl_check iter r now ip per_client)) r ts"

text \<open>The action for the \<open>i\<close>-th response of a window.\<close>

definition nth_action :: "rrl_params \<Rightarrow> nat \<Rightarrow> rrl_action" where
  "nth_action p i =
     (let budget = unat (max_count p)
      in if i < budget then RrlAllow
         else if rp_slip_rate p = 0 then RrlDrop
         else if (i - budget) mod unat (rp_slip_rate p) = 0 then RrlSlip
         else RrlDrop)"

definition after_responses :: "rrl_params \<Rightarrow> u32 \<Rightarrow> nat \<Rightarrow> prefix_state" where
  "after_responses p t0 i =
     \<lparr>ps_counter = pack (of_nat i) t0,
      ps_slip = (if rp_slip_rate p = 0 \<or> rp_slip_rate p = 1 then 0 else of_nat (i - unat (max_count p)))\<rparr>"

lemma rrl_check_present:
  assumes "bm_inner (rrl_prefixes r) key = Some st" "key = (if per_client then client_key ip else prefix_key ip)"
    and "check_and_bump (ps_counter st) now (rp_window_secs (rrl_params_of r)) = (count, counter)"
    and "(action, slip) = (if count < max_count (rrl_params_of r) then (RrlAllow, ps_slip st)
           else slip_or_drop (ps_slip st) (rp_slip_rate (rrl_params_of r)))"
  shows "rrl_check iter r now ip per_client =
    (action, r\<lparr>rrl_prefixes := bm_store (rrl_prefixes r) key \<lparr>ps_counter = counter, ps_slip = slip\<rparr>\<rparr>)"
proof -
  note entry_present [OF assms(1)]
  then show ?thesis unfolding rrl_check_def Let_def assms(2) [symmetric] by (simp only: assms(3) prod.case assms(4) [symmetric])
qed

lemma unat_mod_word: "unat (a mod b) = unat a mod unat b" for a b :: u32
  by (simp add: unat_mod)

lemma nth_step:
  assumes "i < 2 ^ 32 - 1" "sat_sub now (ucast t0) < rp_window_secs p"
  defines "st \<equiv> after_responses p t0 i"
  shows "check_and_bump (ps_counter st) now (rp_window_secs p) = (of_nat i, pack (of_nat (Suc i)) t0)"
    and "(if of_nat i < max_count p then (RrlAllow, ps_slip st) else slip_or_drop (ps_slip st) (rp_slip_rate p))
      = (nth_action p i, ps_slip (after_responses p t0 (Suc i)))"
proof -
  show "check_and_bump (ps_counter st) now (rp_window_secs p) = (of_nat i, pack (of_nat (Suc i)) t0)"
    using bump_in_window [OF assms(2), of "of_nat i"] by (simp add: st_def after_responses_def add.commute)
  have i: "unat (of_nat i :: u32) = i" "of_nat i < max_count p \<longleftrightarrow> i < unat (max_count p)"
    using assms(1) by (simp_all add: unat_of_nat word_less_nat_alt)
  have d: "unat (of_nat (i - unat (max_count p)) :: u32) = i - unat (max_count p)"
    using assms(1) by (simp add: unat_of_nat)
  show "(if of_nat i < max_count p then (RrlAllow, ps_slip st) else slip_or_drop (ps_slip st) (rp_slip_rate p))
      = (nth_action p i, ps_slip (after_responses p t0 (Suc i)))"
  proof (cases "i < unat (max_count p)")
    case True
    then show ?thesis using i(2) by (simp add: st_def after_responses_def nth_action_def)
  next
    case False
    have "of_nat (i - unat (max_count p)) mod rp_slip_rate p = 0 \<longleftrightarrow> (i - unat (max_count p)) mod unat (rp_slip_rate p) = 0"
      using unat_mod_word [of "of_nat (i - unat (max_count p))" "rp_slip_rate p"] d by (metis unat_eq_0)
    then show ?thesis using False i(2)
      by (auto simp: st_def after_responses_def nth_action_def slip_or_drop_def Suc_diff_le Let_def)
  qed
qed

lemma rrl_check_nth:
  assumes "bm_inner (rrl_prefixes r) key = Some (after_responses p t0 i)" "rrl_params_of r = p"
    and "key = (if per_client then client_key ip else prefix_key ip)"
    and "i < 2 ^ 32 - 1" "sat_sub now (ucast t0) < rp_window_secs p"
  shows "fst (rrl_check iter r now ip per_client) = nth_action p i"
    and "bm_inner (rrl_prefixes (snd (rrl_check iter r now ip per_client))) key = Some (after_responses p t0 (Suc i))"
    and "rrl_params_of (snd (rrl_check iter r now ip per_client)) = p"
proof -
  note n = nth_step [OF assms(4,5)]
  have c: "rrl_check iter r now ip per_client =
      (nth_action p i, r\<lparr>rrl_prefixes := bm_store (rrl_prefixes r) key
         \<lparr>ps_counter = pack (of_nat (Suc i)) t0, ps_slip = ps_slip (after_responses p t0 (Suc i))\<rparr>\<rparr>)"
    by (rule rrl_check_present [OF assms(1,3), unfolded assms(2), OF n(1) n(2) [symmetric]])
  have "\<lparr>ps_counter = pack (of_nat (Suc i)) t0, ps_slip = ps_slip (after_responses p t0 (Suc i))\<rparr> = after_responses p t0 (Suc i)"
    by (simp add: after_responses_def)
  then show "fst (rrl_check iter r now ip per_client) = nth_action p i"
    "bm_inner (rrl_prefixes (snd (rrl_check iter r now ip per_client))) key = Some (after_responses p t0 (Suc i))"
    "rrl_params_of (snd (rrl_check iter r now ip per_client)) = p"
    using assms(2) by (simp_all add: c bm_store_def)
qed

text \<open>C35. The responses of one window: from the time an entry is created at \<open>t0\<close>, as long as the
  window has not elapsed, the \<open>i\<close>-th response (from 0) to that key is sent when \<open>i\<close> is below the
  budget \<open>responses_per_second * window_secs\<close>; of the others every \<open>slip_rate\<close>-th, starting with
  the first, is truncated and the rest are dropped.\<close>

theorem rrl_window_cadence:
  fixes r :: rrl
  defines "p \<equiv> rrl_params_of r"
  assumes "bm_inner (rrl_prefixes r) (if per_client then client_key ip else prefix_key ip) = None"
    and "length ts < 2 ^ 32 - 2" "t0 < 2 ^ 32"
    and "\<forall>now \<in> set (ts @ [t]). sat_sub now t0 < rp_window_secs p"
  shows "fst (rrl_check iter (rrl_run iter r ip per_client (t0 # ts)) t ip per_client) = nth_action p (Suc (length ts))"
proof -
  let ?key = "if per_client then client_key ip else prefix_key ip"
  let ?t0 = "ucast t0 :: u32"
  have t0: "ucast ?t0 = t0"
    using assms(4) by (simp add: word_unat_eq_iff unsigned_ucast_eq unsigned_take_bit_eq take_bit_nat_eq_self word_less_nat_alt)
  have run: "bm_inner (rrl_prefixes (rrl_run iter r' ip per_client ts)) ?key = Some (after_responses p ?t0 (i + length ts))
      \<and> rrl_params_of (rrl_run iter r' ip per_client ts) = p"
    if "bm_inner (rrl_prefixes r') ?key = Some (after_responses p ?t0 i)" "rrl_params_of r' = p" "i + length ts < 2 ^ 32 - 1"
      "\<forall>now \<in> set ts. sat_sub now t0 < rp_window_secs p" for r' i ts
    using that
  proof (induction ts arbitrary: r' i)
    case (Cons now ts)
    note step = rrl_check_nth [of r' ?key p ?t0 i per_client ip now iter, OF Cons.prems(1,2) refl]
    have "i < 2 ^ 32 - 1" "sat_sub now (ucast ?t0) < rp_window_secs p" using Cons.prems(3,4) t0 by auto
    with step(2,3) Cons.IH [of "snd (rrl_check iter r' now ip per_client)" "Suc i"] Cons.prems(3,4)
    show ?case by (simp add: rrl_run_def)
  qed (simp add: rrl_run_def)
  obtain b where b: "entry_or_insert_with iter prefix_age (rrl_prefixes r) ?key (prefix_state_new t0) = (b, prefix_state_new t0)"
      "bm_inner b ?key = Some (prefix_state_new t0)"
    using entry_fresh [OF assms(2)] .
  let ?r = "r\<lparr>rrl_prefixes := b\<rparr>"
  have first: "rrl_check iter r t0 ip per_client = rrl_check iter ?r t0 ip per_client"
    unfolding rrl_check_def Let_def using b(1) entry_present [OF b(2)] by (simp add: case_prod_beta)
  have "prefix_state_new t0 = after_responses p ?t0 0"
    by (simp add: prefix_state_new_def after_responses_def window_new_def)
  with b(2) have "bm_inner (rrl_prefixes ?r) ?key = Some (after_responses p ?t0 0)" by simp
  moreover have "sat_sub t0 (ucast ?t0) < rp_window_secs p"
    using assms(5) by (auto simp: t0 sat_sub_def split: if_splits intro: le_less_trans [OF word_zero_le])
  ultimately have "bm_inner (rrl_prefixes (snd (rrl_check iter r t0 ip per_client))) ?key = Some (after_responses p ?t0 1)"
    "rrl_params_of (snd (rrl_check iter r t0 ip per_client)) = p"
    using rrl_check_nth [of ?r ?key p ?t0 0 per_client ip t0 iter, OF _ _ refl] by (simp_all add: first p_def)
  from run [OF this, of ts] assms(3,5)
  have "bm_inner (rrl_prefixes (rrl_run iter r ip per_client (t0 # ts))) ?key = Some (after_responses p ?t0 (Suc (length ts)))"
    "rrl_params_of (rrl_run iter r ip per_client (t0 # ts)) = p"
    by (simp_all add: rrl_run_def)
  from rrl_check_nth(1) [OF this refl, of t iter] assms(3,5) show ?thesis by (simp add: t0)
qed

theorem rrl_window_cadence_witness:
  "fst (rrl_check (\<lambda>_. []) (rrl_run (\<lambda>_. [])
       (rrl_new \<lparr>rp_responses_per_second = 1, rp_window_secs = 2, rp_slip_rate = 2\<rparr>) (V4 9) False [5, 6]) 6 (V4 9) False) = RrlSlip"
proof -
  let ?c = "\<lparr>rp_responses_per_second = 1, rp_window_secs = 2, rp_slip_rate = 2\<rparr>"
  have "rrl_params_of (rrl_new ?c) = ?c" by (simp add: rrl_new_def rrl_from_config_def)
  moreover have "nth_action ?c (Suc (Suc 0)) = RrlSlip" by code_simp
  ultimately show ?thesis
    using rrl_window_cadence [of "rrl_new ?c" False "V4 9" "[6]" 5 6 "\<lambda>_. []"]
    by (simp add: rrl_new_def bm_new_def sat_sub_def)
qed

end
