(* ===== verification/Domain_Names.thy ===== *)
theory Domain_Names
  imports Warden_Prelude
begin

text \<open>
  Domain names: the syntactic check of \<open>common/domain.rs\<close>, the subdomain test
  of \<open>filter/rules.rs\<close> and the suffix walk of \<open>filter/engine.rs\<close> that every
  lookup of the filter uses.  The walk visits the name itself and then every
  non-empty suffix behind a dot; the theory shows that this is exactly the set
  of names whose zone contains the queried name.
\<close>

section \<open>Syntactic validity (common/domain.rs)\<close>

definition domain_byte :: "char \<Rightarrow> bool" where
  "domain_byte c \<longleftrightarrow>
     is_ascii_alphanumeric c \<or> c = CHR ''-'' \<or> c = CHR ''.'' \<or> c = CHR ''_''"

definition label_ok :: "string \<Rightarrow> bool" where
  "label_ok l \<longleftrightarrow>
     \<not> (l = [] \<or> 63 < length l \<or> prefix ''-'' l \<or> suffix ''-'' l)"

definition is_valid_domain :: "string \<Rightarrow> bool" where
  "is_valid_domain domain =
     (if domain = [] \<or> 253 < length domain then False
      else if \<not> list_all domain_byte domain then False
      else list_all label_ok (split_on (CHR ''.'') domain))"

section \<open>Subdomains (filter/rules.rs) and the suffix walk (filter/engine.rs)\<close>

definition is_subdomain_of :: "string \<Rightarrow> string \<Rightarrow> bool" where
  "is_subdomain_of domain parent =
     (if parent = [] then False
      else length parent < length domain \<and> suffix parent domain
        \<and> domain ! (length domain - length parent - 1) = CHR ''.'')"

text \<open>The keys the byte scan visits after the name itself, in order.\<close>

fun dot_suffixes :: "string \<Rightarrow> string list" where
  "dot_suffixes [] = []"
| "dot_suffixes (b # rest) =
     (if b = CHR ''.'' \<and> rest \<noteq> [] then rest # dot_suffixes rest else dot_suffixes rest)"

definition walk_keys :: "string \<Rightarrow> string list" where
  "walk_keys domain = domain # dot_suffixes domain"

text \<open>The scan of \<open>domain_matches_set\<close>, with its early return.\<close>

fun suffix_in_set :: "string \<Rightarrow> string set \<Rightarrow> bool" where
  "suffix_in_set [] S = False"
| "suffix_in_set (b # rest) S =
     (if b = CHR ''.'' \<and> rest \<noteq> [] \<and> rest \<in> S then True else suffix_in_set rest S)"

definition domain_matches_set :: "string \<Rightarrow> string set \<Rightarrow> bool" where
  "domain_matches_set domain S =
     (if S = {} then False
      else if domain \<in> S then True
      else suffix_in_set domain S)"

text \<open>A name covers itself and everything below it.\<close>

definition covers :: "string \<Rightarrow> string \<Rightarrow> bool" where
  "covers s d \<longleftrightarrow> d = s \<or> is_subdomain_of d s"

section \<open>Facts\<close>

lemma is_subdomain_of_iff:
  "is_subdomain_of d s \<longleftrightarrow> s \<noteq> [] \<and> (\<exists>p. d = p @ CHR ''.'' # s)"
proof (cases "s = []")
  case False
  have "is_subdomain_of d s" if "d = p @ CHR ''.'' # s" for p
    using that False by (auto simp: is_subdomain_of_def suffix_def nth_append)
  moreover have "\<exists>p. d = p @ CHR ''.'' # s" if sub: "is_subdomain_of d s"
  proof -
    from sub False obtain p where p: "d = p @ s" "p \<noteq> []"
      and dot: "d ! (length d - length s - 1) = CHR ''.''"
      by (auto simp: is_subdomain_of_def suffix_def)
    from dot p have "last p = CHR ''.''"
      by (simp add: nth_append last_conv_nth)
    with p have "d = butlast p @ CHR ''.'' # s"
      by (metis append_butlast_last_id append.assoc append_Cons append_Nil)
    then show ?thesis by blast
  qed
  ultimately show ?thesis using False by blast
qed (simp add: is_subdomain_of_def)

lemma set_dot_suffixes:
  "s \<in> set (dot_suffixes d) \<longleftrightarrow> s \<noteq> [] \<and> (\<exists>p. d = p @ CHR ''.'' # s)"
proof (induction d)
  case Nil
  show ?case by simp
next
  case (Cons b rest)
  show ?case using Cons.IH by (auto simp: ex_append_Cons)
qed

lemma set_walk_keys: "set (walk_keys d) = {s. covers s d}"
  by (auto simp: walk_keys_def covers_def is_subdomain_of_iff set_dot_suffixes)

lemma suffix_in_set_iff: "suffix_in_set d S \<longleftrightarrow> (\<exists>s \<in> S. s \<in> set (dot_suffixes d))"
  by (induction d) auto

lemma domain_matches_set_walk:
  "domain_matches_set d S \<longleftrightarrow> (\<exists>s \<in> S. s \<in> set (walk_keys d))"
  by (auto simp: domain_matches_set_def suffix_in_set_iff walk_keys_def)

lemma domain_matches_set_covers:
  "domain_matches_set d S \<longleftrightarrow> (\<exists>s \<in> S. covers s d)"
  by (simp add: domain_matches_set_walk set_walk_keys)

lemma domain_matches_set_empty [simp]: "domain_matches_set d {} = False"
  by (simp add: domain_matches_set_def)

lemma covers_refl [simp, intro]: "covers d d"
  by (simp add: covers_def)

lemma covers_trans: "covers a b \<Longrightarrow> covers b c \<Longrightarrow> covers a c"
  by (auto simp: covers_def is_subdomain_of_iff)

lemma covers_antisym: "covers a b \<Longrightarrow> covers b a \<Longrightarrow> a = b"
  by (auto simp: covers_def is_subdomain_of_iff)

lemma covers_suffix: "covers s d \<Longrightarrow> suffix s d"
  unfolding covers_def is_subdomain_of_iff
  by (metis append_Cons append_Nil suffixI suffix_ConsI suffix_appendI suffix_order.refl)

lemma covers_by_suffix:
  assumes "covers a d" "covers b d" "suffix a b"
  shows "covers a b"
proof (cases "a = b")
  case False
  obtain p where p: "b = p @ a" "p \<noteq> []"
    using assms(3) False by (auto simp: suffix_def)
  have "d \<noteq> a"
    using p covers_suffix [OF assms(2)] suffix_length_le by fastforce
  then obtain q where q: "d = q @ CHR ''.'' # a" "a \<noteq> []"
    using assms(1) by (auto simp: covers_def is_subdomain_of_iff)
  obtain r where r: "d = r @ b"
    using covers_suffix [OF assms(2)] by (auto simp: suffix_def)
  have "q @ [CHR ''.''] = r @ p" using q r p by simp
  then have "last p = CHR ''.''" using p by (metis last_appendR last_snoc)
  then have "b = butlast p @ CHR ''.'' # a"
    using p by (metis append_butlast_last_id append.assoc append_Cons append_Nil)
  then show ?thesis using q by (auto simp: covers_def is_subdomain_of_iff)
qed simp

text \<open>The zones containing one name form a chain: of two of them, one covers the other.\<close>

lemma covers_linear: "covers a d \<Longrightarrow> covers b d \<Longrightarrow> covers a b \<or> covers b a"
  using covers_by_suffix covers_suffix suffix_same_cases by metis

subsection \<open>Validity\<close>

lemma is_valid_domain_ne: "is_valid_domain d \<Longrightarrow> d \<noteq> []"
  by (auto simp: is_valid_domain_def)

lemma is_valid_domain_bytes: "is_valid_domain d \<Longrightarrow> c \<in> set d \<Longrightarrow> domain_byte c"
  by (auto simp: is_valid_domain_def list_all_iff split: if_splits)

lemma is_valid_domain_excludes:
  assumes "is_valid_domain d" "\<not> domain_byte c"
  shows "c \<notin> set d"
  using assms is_valid_domain_bytes by blast

lemma domain_byte_lower: "domain_byte (to_ascii_lower c) = domain_byte c"
proof (cases "is_ascii_uppercase c")
  case True
  then have "is_ascii_lowercase (to_ascii_lower c)"
    using byte_to_ascii_lower [of c] by (simp add: ascii_defs)
  then show ?thesis using True by (simp add: domain_byte_def is_ascii_alphanumeric_def)
qed (simp add: to_ascii_lower_def)

lemma to_ascii_lower_eq_punct:
  assumes "byte d < 65"
  shows "to_ascii_lower c = d \<longleftrightarrow> c = d"
  using assms by (auto simp: to_ascii_lower_def is_ascii_uppercase_def)

lemma to_ascii_lower_dash:
  "CHR ''-'' = to_ascii_lower c \<longleftrightarrow> c = CHR ''-''"
proof -
  have "byte (CHR ''-'') < 65" by simp
  then show ?thesis using to_ascii_lower_eq_punct [of "CHR ''-''" c] by metis
qed

lemma prefix_dash_map: "prefix ''-'' (map to_ascii_lower l) = prefix ''-'' l"
  by (cases l) (simp_all add: to_ascii_lower_dash, metis)

lemma suffix_dash_map: "suffix ''-'' (map to_ascii_lower l) = suffix ''-'' l"
  using prefix_dash_map [of "rev l"] by (simp add: suffix_to_prefix rev_map)

lemma label_ok_lower: "label_ok (map to_ascii_lower l) = label_ok l"
  by (simp add: label_ok_def prefix_dash_map suffix_dash_map)

lemma is_valid_domain_lower [simp]:
  "is_valid_domain (to_ascii_lowercase d) = is_valid_domain d"
proof -
  have "split_on (CHR ''.'') (map to_ascii_lower d)
      = map (map to_ascii_lower) (split_on (CHR ''.'') d)"
    by (rule split_on_map) (simp add: to_ascii_lower_eq_punct)
  then show ?thesis
    by (simp add: is_valid_domain_def to_ascii_lowercase_def list_all_iff
        domain_byte_lower label_ok_lower)
qed

lemma split_on_append_sep: "split_on c (xs @ c # ys) = split_on c xs @ split_on c ys"
proof (induction xs)
  case (Cons x xs)
  obtain q qs where "split_on c xs = q # qs"
    by (cases "split_on c xs") auto
  then show ?case using Cons by auto
qed simp

text \<open>Every zone on the walk of a valid name is itself a valid name.\<close>

lemma is_valid_domain_covers:
  assumes "is_valid_domain d" "covers s d"
  shows "is_valid_domain s"
proof (cases "s = d")
  case False
  then obtain p where p: "d = p @ CHR ''.'' # s" "s \<noteq> []"
    using assms by (auto simp: covers_def is_subdomain_of_iff)
  then show ?thesis
    using assms(1) by (auto simp: is_valid_domain_def list_all_iff split_on_append_sep split: if_splits)
qed (use assms in simp)

end
