(* ===== verification/Query_Gates.thy ===== *)
theory Query_Gates
  imports Domain_Names Std_Net
begin

text \<open>
  The stateless gates of a query: structural validation of the wire name
  (\<open>dns/validation.rs\<close>), the character and rebinding checks (\<open>security/query_validator.rs\<close>)
  and the operator's list of resolver names (\<open>security/anti_bypass.rs\<close>).
\<close>

section \<open>Structural validation\<close>

datatype name_error = EmptyName | LabelTooLong | NameTooLong | TooManyLabels

definition MAX_LABEL_LEN :: nat where
  "MAX_LABEL_LEN = 63"

definition MAX_NAME_LEN :: nat where
  "MAX_NAME_LEN = 253"

definition MAX_LABEL_COUNT :: nat where
  "MAX_LABEL_COUNT = 15"

definition MAX_LABEL_COUNT_ARPA :: nat where
  "MAX_LABEL_COUNT_ARPA = 34"

text \<open>The loop over the labels: length so far, labels so far, last label.\<close>

fun measure_labels :: "nat \<Rightarrow> nat \<Rightarrow> string \<Rightarrow> string list \<Rightarrow> (name_error, nat \<times> nat \<times> string) result" where
  "measure_labels name_len label_count last_label [] = Inr (name_len, label_count, last_label)"
| "measure_labels name_len label_count last_label (label # ls) =
     (if label = [] then measure_labels name_len label_count last_label ls
      else if MAX_LABEL_LEN < length label then Inl LabelTooLong
      else measure_labels ((if 0 < label_count then name_len + 1 else name_len) + length label)
             (label_count + 1) label ls)"

text \<open>The library's \<open>is_empty\<close> and \<open>is_root\<close> of the name and its labels are arguments.\<close>

definition validate_query :: "bool \<Rightarrow> bool \<Rightarrow> string list \<Rightarrow> (name_error, unit) result" where
  "validate_query is_empty is_root labels =
     (if is_empty \<or> is_root then Inl EmptyName
      else rbind (measure_labels 0 0 [] labels) (\<lambda>(name_len, label_count, last_label).
        if MAX_NAME_LEN < name_len then Inl NameTooLong
        else
          (let max_labels = (if last_label = ''arpa'' then MAX_LABEL_COUNT_ARPA else MAX_LABEL_COUNT)
           in if max_labels < label_count then Inl TooManyLabels else Inr ())))"

section \<open>Characters and rebinding\<close>

datatype char_error = EmptyDomain | HyphenAtEdge | InvalidCharacter

definition label_char :: "char \<Rightarrow> bool" where
  "label_char ch \<longleftrightarrow> is_ascii_lowercase ch \<or> is_ascii_uppercase ch \<or> is_ascii_digit ch \<or> ch = CHR ''-'' \<or> ch = CHR ''_''"

fun check_label_chars :: "string list \<Rightarrow> (char_error, unit) result" where
  "check_label_chars [] = Inr ()"
| "check_label_chars (label # ls) =
     (if label = [] then check_label_chars ls
      else if prefix ''-'' label \<or> suffix ''-'' label then Inl HyphenAtEdge
      else if \<not> list_all label_char label then Inl InvalidCharacter
      else check_label_chars ls)"

definition validate_domain_chars :: "string \<Rightarrow> (char_error, unit) result" where
  "validate_domain_chars domain =
     (if domain = [] then Inl EmptyDomain else check_label_chars (split_on CHR ''.'' domain))"

definition MAX_LABELS :: nat where
  "MAX_LABELS = (let deepest = (if MAX_LABEL_COUNT_ARPA > MAX_LABEL_COUNT then MAX_LABEL_COUNT_ARPA else MAX_LABEL_COUNT)
                 in deepest + 1)"

text \<open>The labels copied into the stack array; \<^term>\<open>None\<close> when they do not fit.\<close>

fun collect_labels :: "string list \<Rightarrow> string list \<Rightarrow> string list option" where
  "collect_labels buf [] = Some buf"
| "collect_labels buf (label # ls) =
     (if MAX_LABELS \<le> length buf then None else collect_labels (buf @ [label]) ls)"

definition domain_labels :: "string \<Rightarrow> string list option" where
  "domain_labels domain = collect_labels [] (filter (\<lambda>l. l \<noteq> []) (split_on CHR ''.'' domain))"

definition octet_label :: "string \<Rightarrow> bool" where
  "octet_label l \<longleftrightarrow> length l \<le> 3 \<and> parse_u8 l \<noteq> None"

definition has_rebinding_pattern :: "string \<Rightarrow> bool" where
  "has_rebinding_pattern domain =
     (case domain_labels domain of
        None \<Rightarrow> False
      | Some labels \<Rightarrow>
          if length labels < 4 then False
          else list_ex (\<lambda>w. list_all octet_label (take 4 (drop w labels))) [0..<length labels - 4 + 1])"

section \<open>Anti-bypass\<close>

definition strip_dot :: "string \<Rightarrow> string" where
  "strip_dot s = unwrap_or s (strip_suffix ''.'' s)"

definition anti_bypass_new :: "string list \<Rightarrow> string set" where
  "anti_bypass_new extra_domains =
     foldl (\<lambda>domains d. let stripped = strip_dot (trim d)
                        in if stripped = [] then domains else insert (to_ascii_lowercase stripped) domains)
       {} extra_domains"

fun parent_in_set :: "string set \<Rightarrow> string \<Rightarrow> bool" where
  "parent_in_set domains [] = False"
| "parent_in_set domains (b # rest) = (if b = CHR ''.'' \<and> rest \<in> domains then True else parent_in_set domains rest)"

definition bypass_matches :: "string set \<Rightarrow> string \<Rightarrow> bool" where
  "bypass_matches domains domain \<longleftrightarrow> domain \<in> domains \<or> parent_in_set domains domain"

definition is_bypass_domain :: "string set \<Rightarrow> string \<Rightarrow> bool" where
  "is_bypass_domain domains domain =
     (let stripped = strip_dot domain
      in if list_ex is_ascii_uppercase stripped then bypass_matches domains (to_ascii_lowercase stripped)
         else bypass_matches domains stripped)"

section \<open>What validation admits\<close>

definition real_labels :: "string list \<Rightarrow> string list" where
  "real_labels labels = filter (\<lambda>l. l \<noteq> []) labels"

lemma measure_labels_eq:
  "measure_labels n c la labels =
     (if list_all (\<lambda>l. length l \<le> 63) labels
      then Inr (n + length (concat (real_labels labels)) + (c + length (real_labels labels) - 1) - (c - 1),
                c + length (real_labels labels), last (la # real_labels labels))
      else Inl LabelTooLong)"
proof (induction labels arbitrary: n c la)
  case (Cons l ls)
  show ?case
  proof (cases "l = []")
    case True
    then show ?thesis using Cons by (simp add: real_labels_def)
  next
    case False
    have "n + length l + (if 0 < c then 1 else 0) + length (concat (real_labels ls)) + (c + 1 + length (real_labels ls) - 1) - (c + 1 - 1)
        = n + (length l + length (concat (real_labels ls))) + (c + Suc (length (real_labels ls)) - 1) - (c - 1)"
      by (cases c) simp_all
    then show ?thesis
      using False Cons [of "(if 0 < c then n + 1 else n) + length l" "c + 1" l]
      by (auto simp: real_labels_def MAX_LABEL_LEN_def)
  qed
qed (simp add: real_labels_def)

lemma length_join_with: "ls \<noteq> [] \<Longrightarrow> length (join_with c ls) = length (concat ls) + (length ls - 1)"
  by (induction c ls rule: join_with.induct) auto

text \<open>A name passes exactly when its labels and its text are within the limits of RFC 1035 and
  its depth is at most 15, or 34 below \<open>arpa\<close>.\<close>

lemma validate_query_Inr:
  "validate_query is_empty is_root labels = Inr () \<longleftrightarrow>
     \<not> is_empty \<and> \<not> is_root \<and> list_all (\<lambda>l. length l \<le> 63) labels
     \<and> length (join_with CHR ''.'' (real_labels labels)) \<le> 253
     \<and> length (real_labels labels) \<le> (if last ([] # real_labels labels) = ''arpa'' then 34 else 15)"
proof -
  have "length (concat (real_labels labels)) + (length (real_labels labels) - 1) = length (join_with CHR ''.'' (real_labels labels))"
    by (cases "real_labels labels = []") (simp_all add: length_join_with)
  then show ?thesis
    by (auto simp: validate_query_def measure_labels_eq MAX_NAME_LEN_def MAX_LABEL_COUNT_def MAX_LABEL_COUNT_ARPA_def Let_def)
qed

section \<open>The gates see the whole name\<close>

lemma collect_labels_eq:
  "length buf \<le> MAX_LABELS \<Longrightarrow>
     collect_labels buf ls = (if length buf + length ls \<le> MAX_LABELS then Some (buf @ ls) else None)"
  by (induction ls arbitrary: buf) auto

lemma domain_labels_eq:
  "domain_labels d =
     (let ls = real_labels (split_on CHR ''.'' d) in if length ls \<le> MAX_LABELS then Some ls else None)"
  using collect_labels_eq [of "[]"] by (simp add: domain_labels_def real_labels_def Let_def)

lemma MAX_LABELS_eq: "MAX_LABELS = 35"
  by (simp add: MAX_LABELS_def MAX_LABEL_COUNT_ARPA_def MAX_LABEL_COUNT_def Let_def)

text \<open>The text of a name whose labels hold no dot splits back into its labels.\<close>

lemma split_on_join_with:
  "ls \<noteq> [] \<Longrightarrow> \<forall>l \<in> set ls. c \<notin> set l \<Longrightarrow> split_on c (join_with c ls) = ls"
  by (induction c ls rule: join_with.induct) (auto simp: split_on_no_sep split_on_append)

lemma validated_labels:
  assumes "validate_query e r labels = Inr ()" "\<forall>l \<in> set labels. CHR ''.'' \<notin> set l"
  shows "domain_labels (join_with CHR ''.'' (real_labels labels)) = Some (real_labels labels)"
proof -
  have "length (real_labels labels) \<le> MAX_LABELS"
    using assms(1) by (auto simp: validate_query_Inr MAX_LABELS_eq split: if_splits)
  moreover have "real_labels (split_on CHR ''.'' (join_with CHR ''.'' (real_labels labels))) = real_labels labels"
  proof (cases "real_labels labels = []")
    case True
    then show ?thesis by (simp add: real_labels_def)
  next
    case False
    with assms(2) have "split_on CHR ''.'' (join_with CHR ''.'' (real_labels labels)) = real_labels labels"
      by (intro split_on_join_with) (auto simp: real_labels_def)
    then show ?thesis by (simp add: real_labels_def)
  qed
  ultimately show ?thesis by (simp add: domain_labels_eq Let_def)
qed


text \<open>C40. Depth is no hiding place: on every name that passes validation (up to 34 labels below
  \<open>arpa\<close>), the rebinding check finds four consecutive labels that spell an IPv4 address exactly
  when they are there.\<close>

theorem rebinding_sees_whole_name:
  assumes "validate_query is_empty is_root labels = Inr ()" "\<forall>l \<in> set labels. CHR ''.'' \<notin> set l"
  shows "has_rebinding_pattern (join_with CHR ''.'' (real_labels labels)) \<longleftrightarrow>
    (\<exists>pre quad post. real_labels labels = pre @ quad @ post \<and> length quad = 4 \<and> list_all octet_label quad)"
proof -
  let ?ls = "real_labels labels"
  have "(\<exists>w < length ?ls - 4 + 1. 4 \<le> length ?ls \<and> list_all octet_label (take 4 (drop w ?ls))) \<longleftrightarrow>
      (\<exists>pre quad post. ?ls = pre @ quad @ post \<and> length quad = 4 \<and> list_all octet_label quad)" (is "?L \<longleftrightarrow> ?R")
  proof
    assume ?L
    then obtain w where w: "w < length ?ls - 4 + 1" "4 \<le> length ?ls" "list_all octet_label (take 4 (drop w ?ls))" by blast
    have "?ls = take w ?ls @ take 4 (drop w ?ls) @ drop 4 (drop w ?ls)" by (simp only: append_take_drop_id)
    moreover have "length (take 4 (drop w ?ls)) = 4" using w by simp
    ultimately show ?R using w(3) by blast
  next
    assume ?R
    then obtain pre quad post where q: "?ls = pre @ quad @ post" "length quad = 4" "list_all octet_label quad" by blast
    then have "take 4 (drop (length pre) ?ls) = quad" "length pre < length ?ls - 4 + 1" "4 \<le> length ?ls" by simp_all
    then show ?L using q(3) by metis
  qed
  moreover have "has_rebinding_pattern (join_with CHR ''.'' ?ls) \<longleftrightarrow>
      (\<exists>w < length ?ls - 4 + 1. 4 \<le> length ?ls \<and> list_all octet_label (take 4 (drop w ?ls)))"
    unfolding has_rebinding_pattern_def validated_labels [OF assms] option.case list_ex_iff set_upt by (auto simp: Bex_def)
  ultimately show ?thesis by simp
qed

theorem rebinding_sees_whole_name_witness:
  "validate_query False False [''x'', ''10'', ''0'', ''0'', ''1'', ''evil'', ''com'', []] = Inr ()
   \<and> has_rebinding_pattern ''x.10.0.0.1.evil.com''"
proof -
  have ls: "real_labels [''x'', ''10'', ''0'', ''0'', ''1'', ''evil'', ''com'', []] = [''x''] @ [''10'', ''0'', ''0'', ''1''] @ [''evil'', ''com'']"
    by (simp add: real_labels_def)
  have v: "validate_query False False [''x'', ''10'', ''0'', ''0'', ''1'', ''evil'', ''com'', []] = Inr ()" by code_simp
  have q: "list_all octet_label [''10'', ''0'', ''0'', ''1'']" by code_simp
  have "has_rebinding_pattern (join_with CHR ''.'' (real_labels [''x'', ''10'', ''0'', ''0'', ''1'', ''evil'', ''com'', []]))"
  proof (rule iffD2 [OF rebinding_sees_whole_name [OF v]])
    show "\<exists>pre quad post. real_labels [''x'', ''10'', ''0'', ''0'', ''1'', ''evil'', ''com'', []] = pre @ quad @ post
        \<and> length quad = 4 \<and> list_all octet_label quad"
      unfolding ls using q by (intro exI conjI) (rule refl, simp_all)
  qed simp
  then show ?thesis using v unfolding ls by simp
qed

section \<open>The operator's resolver names\<close>

lemma bypass_set: "anti_bypass_new ds = {to_ascii_lowercase (strip_dot (trim d)) | d. d \<in> set ds \<and> strip_dot (trim d) \<noteq> []}"
proof -
  have "foldl (\<lambda>S d. let s = strip_dot (trim d) in if s = [] then S else insert (to_ascii_lowercase s) S) A ds =
      A \<union> {to_ascii_lowercase (strip_dot (trim d)) | d. d \<in> set ds \<and> strip_dot (trim d) \<noteq> []}" for A
    by (induction ds arbitrary: A) (auto simp: Let_def)
  then show ?thesis by (simp add: anti_bypass_new_def)
qed

lemma parent_in_set_iff: "parent_in_set S d \<longleftrightarrow> (\<exists>p s. d = p @ CHR ''.'' # s \<and> s \<in> S)"
proof (induction d)
  case (Cons b rest)
  have "(\<exists>p s. b # rest = p @ CHR ''.'' # s \<and> s \<in> S) \<longleftrightarrow>
      b = CHR ''.'' \<and> rest \<in> S \<or> (\<exists>p s. rest = p @ CHR ''.'' # s \<and> s \<in> S)"
    by (auto simp: Cons_eq_append_conv)
  then show ?case using Cons by auto
qed simp

lemma bypass_matches_iff: "[] \<notin> S \<Longrightarrow> bypass_matches S d \<longleftrightarrow> (\<exists>s \<in> S. covers s d)"
  unfolding bypass_matches_def parent_in_set_iff covers_def is_subdomain_of_iff by metis

text \<open>A query is stopped as a bypass exactly when a configured entry, freed of blanks and one
  trailing dot and in lower case, is its name or a parent of it, whatever the letter case and
  trailing dot of the query.  Entries that are empty after that never match.\<close>

theorem bypass_covers:
  "is_bypass_domain (anti_bypass_new extra_domains) d \<longleftrightarrow>
     (\<exists>e \<in> set extra_domains. strip_dot (trim e) \<noteq> []
        \<and> covers (to_ascii_lowercase (strip_dot (trim e))) (to_ascii_lowercase (strip_dot d)))"
proof -
  have low: "to_ascii_lowercase s = s" if "\<not> list_ex is_ascii_uppercase s" for s
    using that by (induction s) (auto simp: to_ascii_lowercase_def to_ascii_lower_def)
  have "to_ascii_lowercase s \<noteq> []" if "s \<noteq> []" for s using that by simp
  then have "[] \<notin> anti_bypass_new extra_domains" unfolding bypass_set by fastforce
  note m = bypass_matches_iff [OF this]
  have "is_bypass_domain (anti_bypass_new extra_domains) d \<longleftrightarrow> bypass_matches (anti_bypass_new extra_domains) (to_ascii_lowercase (strip_dot d))"
    using low [of "strip_dot d"] by (simp add: is_bypass_domain_def Let_def)
  also have "\<dots> \<longleftrightarrow> (\<exists>e \<in> set extra_domains. strip_dot (trim e) \<noteq> []
        \<and> covers (to_ascii_lowercase (strip_dot (trim e))) (to_ascii_lowercase (strip_dot d)))"
    unfolding m unfolding bypass_set by blast
  finally show ?thesis .
qed

end
