(* ===== verification/Tunneling.thy ===== *)
theory Tunneling
  imports Packed_Counters Bounded_Map Query_Gates
begin

unbundle bit_operations_syntax

text \<open>
  The tunneling detector, \<open>security/tunneling.rs\<close>: the shape check and the count of distinct
  names per client and base domain.  The clock is an argument (seconds since the detector was
  created), the name hash (the standard hasher's \<open>finish\<close>) and the comparison of the
  floating-point entropy with its threshold are parameters.
\<close>

section \<open>Base domains\<close>

definition TWO_LABEL_SUFFIXES :: "string list" where
  "TWO_LABEL_SUFFIXES =
     [''co.uk'', ''co.jp'', ''co.kr'', ''co.nz'', ''co.za'', ''co.in'', ''co.il'', ''co.th'', ''com.au'', ''com.br'',
      ''com.cn'', ''com.mx'', ''com.tw'', ''com.tr'', ''com.sg'', ''com.hk'', ''ac.uk'', ''ac.jp'', ''ac.nz'',
      ''gov.uk'', ''gov.au'', ''gov.br'', ''org.uk'', ''org.au'', ''org.nz'', ''net.au'', ''net.nz'', ''net.br'',
      ''edu.au'', ''edu.br'']"

definition MAX_TWO_LABEL_SUFFIX_LEN :: nat where
  "MAX_TWO_LABEL_SUFFIX_LEN = 6"

definition compute_base_domain :: "string list \<Rightarrow> string option" where
  "compute_base_domain labels =
     (let n = length labels
      in if n < 2 then None
         else
           (let probe = labels ! (n - 2) @ ''.'' @ labels ! (n - 1)
            in if 3 \<le> n \<and> length (labels ! (n - 2)) + 1 + length (labels ! (n - 1)) \<le> MAX_TWO_LABEL_SUFFIX_LEN
                  \<and> probe \<in> set TWO_LABEL_SUFFIXES
               then Some (labels ! (n - 3) @ ''.'' @ probe)
               else Some probe))"

section \<open>Exemptions and zones\<close>

definition is_exempt :: "string \<Rightarrow> string list \<Rightarrow> bool" where
  "is_exempt domain exempt =
     list_ex (\<lambda>s. if s = [] then False
                  else if domain = s then True
                  else length domain > length s \<and> domain ! (length domain - length s - 1) = CHR ''.'' \<and> suffix s domain)
       exempt"

definition is_reverse_zone :: "string \<Rightarrow> bool" where
  "is_reverse_zone domain =
     list_ex (\<lambda>zone. domain = zone
        \<or> (length domain > length zone \<and> domain ! (length domain - length zone - 1) = CHR ''.'' \<and> suffix zone domain))
       [''in-addr.arpa'', ''ip6.arpa'']"

definition longest_unbroken_run :: "string \<Rightarrow> nat" where
  "longest_unbroken_run label = foldl max 0 (map length (split_on CHR ''-'' label))"

section \<open>The ring of recent names\<close>

definition RECENT_NAME_SLOTS :: nat where
  "RECENT_NAME_SLOTS = 8"

definition recent_names_new :: "u64 list" where
  "recent_names_new = replicate RECENT_NAME_SLOTS 0"

definition seen_or_record :: "u64 list \<Rightarrow> u64 \<Rightarrow> u64 \<Rightarrow> u64 \<Rightarrow> bool \<times> u64 list" where
  "seen_or_record slots hash now_secs window_secs =
     (let idx = unat (hash AND (of_nat RECENT_NAME_SLOTS - 1));
          hash_high = ucast (drop_bit 32 hash) :: u32;
          now = ucast now_secs :: u32;
          (prev_hash, prev_secs) = unpack (slots ! idx)
      in if prev_hash = hash_high \<and> ucast (sat_sub now prev_secs) < window_secs then (True, slots)
         else (False, slots[idx := pack hash_high now]))"

section \<open>The detector\<close>

record tracker =
  tr_counter :: u64
  tr_recent :: "u64 list"

definition tracker_new :: "u64 \<Rightarrow> tracker" where
  "tracker_new now_secs = \<lparr>tr_counter = window_new now_secs, tr_recent = recent_names_new\<rparr>"

definition tracker_age :: "tracker \<Rightarrow> u64" where
  "tracker_age t = window_start_secs (tr_counter t)"

definition MAX_TRACKED_BASE_DOMAINS :: nat where
  "MAX_TRACKED_BASE_DOMAINS = 100000"

record 'f tunneling_params =
  tp_entropy_threshold :: 'f
  tp_label_len_threshold :: nat
  tp_max_unbroken_run :: nat
  tp_entropy_min_len :: nat
  tp_subdomain_rate_limit :: u32
  tp_window_secs :: u64
  tp_exempt_domains :: "string list"

definition trim_dots :: "string \<Rightarrow> string" where
  "trim_dots s = rev (dropWhile (\<lambda>c. c = CHR ''.'') (rev (dropWhile (\<lambda>c. c = CHR ''.'') s)))"

definition tunneling_from_config :: "'f tunneling_params \<Rightarrow> 'f tunneling_params" where
  "tunneling_from_config config =
     config\<lparr>tp_exempt_domains := map (\<lambda>d. to_ascii_lowercase (trim_dots d)) (tp_exempt_domains config)\<rparr>"

record 'f tunneling =
  td_rates :: "(ip_addr \<times> string, tracker) bounded_map"
  td_params :: "'f tunneling_params"

definition tunneling_new :: "'f tunneling_params \<Rightarrow> 'f tunneling" where
  "tunneling_new config = \<lparr>td_rates = bm_new MAX_TRACKED_BASE_DOMAINS, td_params = tunneling_from_config config\<rparr>"

definition tunneling_set_params :: "'f tunneling \<Rightarrow> 'f tunneling_params \<Rightarrow> 'f tunneling" where
  "tunneling_set_params td config = td\<lparr>td_params := tunneling_from_config config\<rparr>"

definition tunneling_entry_count :: "(ip_addr \<times> string, tracker) iteration \<Rightarrow> 'f tunneling \<Rightarrow> nat" where
  "tunneling_entry_count iter td = bm_len iter (td_rates td)"

datatype tunneling_verdict = TunnelClean | TunnelSuspicious

text \<open>The base of a name and its labels in front of the base; \<^term>\<open>None\<close> when there are none.\<close>

definition tunnel_labels :: "string \<Rightarrow> (string \<times> string list) option" where
  "tunnel_labels domain =
     (case domain_labels domain of
        None \<Rightarrow> None
      | Some labels \<Rightarrow>
          (case compute_base_domain labels of
             None \<Rightarrow> None
           | Some base \<Rightarrow>
               (let base_label_count = length (split_on CHR ''.'' base)
                in if length labels \<le> base_label_count then None
                   else Some (base, take (length labels - base_label_count) labels))))"

definition tunnel_check :: "(string \<Rightarrow> 'f \<Rightarrow> bool) \<Rightarrow> 'f tunneling \<Rightarrow> string \<Rightarrow> tunneling_verdict" where
  "tunnel_check entropy_reaches td domain =
     (case tunnel_labels domain of
        None \<Rightarrow> TunnelClean
      | Some (_, check_labels) \<Rightarrow>
          (let p = td_params td;
               shape = list_ex (\<lambda>label. tp_label_len_threshold p \<le> length label
                                  \<or> tp_max_unbroken_run p \<le> longest_unbroken_run label) check_labels;
               flagged = shape \<or> (tp_entropy_min_len p \<le> sum_list (map length check_labels)
                                  \<and> entropy_reaches (concat check_labels) (tp_entropy_threshold p))
           in if flagged \<and> tp_exempt_domains p \<noteq> [] \<and> is_exempt domain (tp_exempt_domains p) then TunnelClean
              else if flagged then TunnelSuspicious
              else TunnelClean))"

text \<open>What \<open>check_rate\<close> does to the tracker of its key.\<close>

definition count_name :: "u64 \<Rightarrow> u64 \<Rightarrow> 'f tunneling_params \<Rightarrow> tracker \<Rightarrow> bool \<times> tracker" where
  "count_name name now_secs p t =
     (case seen_or_record (tr_recent t) name now_secs (tp_window_secs p) of
        (True, recent) \<Rightarrow> (False, t\<lparr>tr_recent := recent\<rparr>)
      | (False, recent) \<Rightarrow>
          (let (prev_count, counter) = check_and_bump (tr_counter t) now_secs (tp_window_secs p)
           in (tp_subdomain_rate_limit p \<le> prev_count, \<lparr>tr_counter = counter, tr_recent = recent\<rparr>)))"

definition check_rate ::
  "(ip_addr \<times> string, tracker) iteration \<Rightarrow> (string \<Rightarrow> u64) \<Rightarrow> 'f tunneling \<Rightarrow> u64 \<Rightarrow> ip_addr \<Rightarrow> string
     \<Rightarrow> bool \<times> 'f tunneling"
where
  "check_rate iter name_hash td now_secs client_ip domain =
     (case tunnel_labels domain of
        None \<Rightarrow> (False, td)
      | Some (base, _) \<Rightarrow>
          (let p = td_params td
           in if tp_exempt_domains p \<noteq> [] \<and> is_exempt domain (tp_exempt_domains p) then (False, td)
              else
                (let key = (client_ip, base);
                     (rates, t) = entry_or_insert_with iter tracker_age (td_rates td) key (tracker_new now_secs);
                     (over, t') = count_name (name_hash domain) now_secs p t
                 in (over, td\<lparr>td_rates := bm_store rates key t'\<rparr>))))"

definition tunneling_cleanup :: "'f tunneling \<Rightarrow> u64 \<Rightarrow> 'f tunneling" where
  "tunneling_cleanup td now_secs =
     td\<lparr>td_rates := bm_retain (\<lambda>_ t. sat_sub now_secs (window_start_secs (tr_counter t)) < tp_window_secs (td_params td) * 2)
          (td_rates td)\<rparr>"

definition tunneling_rate_gate_applies :: "bool \<Rightarrow> string \<Rightarrow> bool" where
  "tunneling_rate_gate_applies is_ptr domain \<longleftrightarrow> \<not> is_ptr \<or> \<not> is_reverse_zone domain"

section \<open>Anchored suffixes\<close>

lemma anchored_iff:
  "s \<noteq> [] \<Longrightarrow> (length d > length s \<and> d ! (length d - length s - 1) = CHR ''.'' \<and> suffix s d) \<longleftrightarrow> is_subdomain_of d s"
  by (auto simp: is_subdomain_of_def)

lemma is_exempt_iff: "is_exempt d ex \<longleftrightarrow> (\<exists>s \<in> set ex. s \<noteq> [] \<and> covers s d)"
  unfolding is_exempt_def list_ex_iff covers_def using anchored_iff by (metis (full_types))

lemma is_exempt_Nil [simp]: "\<not> is_exempt d []"
  by (simp add: is_exempt_def)

lemma is_reverse_zone_iff: "is_reverse_zone d \<longleftrightarrow> covers ''in-addr.arpa'' d \<or> covers ''ip6.arpa'' d"
  using anchored_iff [of "''in-addr.arpa''" d] anchored_iff [of "''ip6.arpa''" d]
  by (auto simp: is_reverse_zone_def covers_def)


section \<open>The visits of a bucket\<close>

text \<open>A name that is counted: it has labels in front of a base, and no exemption.\<close>

definition counted_under :: "'f tunneling_params \<Rightarrow> string \<Rightarrow> string \<Rightarrow> bool" where
  "counted_under p base d \<longleftrightarrow> (\<exists>ls. tunnel_labels d = Some (base, ls)) \<and> \<not> is_exempt d (tp_exempt_domains p)"

lemma check_rate_counted:
  assumes "counted_under (td_params td) base d"
  shows "check_rate iter h td now ip d =
    (let (over, rates) = serve (entry_or_insert_with iter tracker_age) bm_store (td_rates td) (ip, base) (tracker_new now)
           (count_name (h d) now (td_params td))
     in (over, td\<lparr>td_rates := rates\<rparr>))"
  using assms by (auto simp: counted_under_def check_rate_def serve_def Let_def case_prod_unfold)

lemma check_rate_over_counted:
  assumes "fst (check_rate iter h td now ip d)"
  obtains base where "counted_under (td_params td) base d"
  using assms
  by (auto simp: check_rate_def counted_under_def Let_def split: option.splits if_splits prod.splits)

definition rate_slot :: "u64 \<Rightarrow> nat" where
  "rate_slot hash = unat (hash AND 7)"

definition hash_high :: "u64 \<Rightarrow> u32" where
  "hash_high hash = ucast (drop_bit 32 hash)"

lemma rate_slot_less: "rate_slot hash < 8"
proof -
  have "hash AND 7 = take_bit 3 hash" by (simp add: take_bit_eq_mask mask_eq_exp_minus_1)
  then have "unat (hash AND 7) = take_bit 3 (unat hash)" by (simp add: unsigned_take_bit_eq)
  then show ?thesis using take_bit_nat_less_exp [of 3 "unat hash"] by (simp add: rate_slot_def)
qed

lemma seen_or_record_eq:
  "seen_or_record slots hash now win =
     (let prev = unpack (slots ! rate_slot hash)
      in if fst prev = hash_high hash \<and> ucast (sat_sub (ucast now :: u32) (snd prev)) < win then (True, slots)
         else (False, slots[rate_slot hash := pack (hash_high hash) (ucast now)]))"
  by (simp add: seen_or_record_def rate_slot_def hash_high_def RECENT_NAME_SLOTS_def Let_def case_prod_unfold)

lemma length_count_name: "length (tr_recent (snd (count_name hash now p t))) = length (tr_recent t)"
  by (auto simp: count_name_def seen_or_record_eq Let_def split: prod.splits bool.splits if_splits)

text \<open>Every tracker has its eight slots.\<close>

definition tunneling_wf :: "'f tunneling \<Rightarrow> bool" where
  "tunneling_wf td \<longleftrightarrow> (\<forall>k t. bm_get (td_rates td) k = Some t \<longrightarrow> length (tr_recent t) = 8)"

lemma check_rate_wf:
  assumes "tunneling_wf td"
  shows "tunneling_wf (snd (check_rate iter h td now ip d)) \<and> td_params (snd (check_rate iter h td now ip d)) = td_params td"
proof (cases "\<exists>base. counted_under (td_params td) base d")
  case True
  then obtain base where c: "counted_under (td_params td) base d" ..
  define f where "f = count_name (h d) now (td_params td)"
  define rates where "rates = snd (serve (entry_or_insert_with iter tracker_age) bm_store (td_rates td) (ip, base) (tracker_new now) f)"
  have "length (tr_recent t) = 8" if "bm_get rates k = Some t" for k t
  proof (cases "k = (ip, base)")
    case True
    have "length (tr_recent (tracker_new now)) = 8" by (simp add: tracker_new_def recent_names_new_def RECENT_NAME_SLOTS_def)
    then show ?thesis
      using that True assms bm.serve_present(2) [of "td_rates td" "(ip, base)" _ iter tracker_age "tracker_new now" f]
        bm.serve_fresh(2) [of "td_rates td" "(ip, base)" iter tracker_age "tracker_new now" f]
      unfolding rates_def [symmetric]
      by (cases "bm_get (td_rates td) (ip, base)") (auto simp: f_def length_count_name tunneling_wf_def)
  next
    case False
    then show ?thesis
      using bm.serve_other [OF False, of iter tracker_age "td_rates td" "tracker_new now" f t] that assms
      unfolding rates_def [symmetric] tunneling_wf_def by blast
  qed
  then show ?thesis
    unfolding check_rate_counted [OF c] f_def [symmetric] by (simp add: tunneling_wf_def case_prod_unfold Let_def rates_def)
next
  case False
  then have "snd (check_rate iter h td now ip d) = td"
    by (auto simp: check_rate_def counted_under_def Let_def split: option.splits)
  then show ?thesis using assms by simp
qed

definition tunnel_run ::
  "(ip_addr \<times> string, tracker) iteration \<Rightarrow> (string \<Rightarrow> u64) \<Rightarrow> 'f tunneling \<Rightarrow> (u64 \<times> ip_addr \<times> string) list \<Rightarrow> 'f tunneling"
where
  "tunnel_run iter h td events = foldl (\<lambda>td (now, ip, d). snd (check_rate iter h td now ip d)) td events"

lemma tunnel_run_wf:
  "tunneling_wf td \<Longrightarrow> tunneling_wf (tunnel_run iter h td events) \<and> td_params (tunnel_run iter h td events) = td_params td"
  unfolding tunnel_run_def
proof (induction events arbitrary: td)
  case (Cons e events)
  obtain now ip d where e: "e = (now, ip, d)" by (cases e)
  from check_rate_wf [OF Cons.prems, of iter h now ip d] Cons.IH [of "snd (check_rate iter h td now ip d)"]
  show ?case by (simp add: e)
qed simp

lemma tunneling_new_wf: "tunneling_wf (tunneling_new config)"
  by (simp add: tunneling_wf_def tunneling_new_def bm_new_def bm_get_def)


section \<open>Fan-out\<close>

lemma count_name_unseen:
  assumes "fst (unpack (tr_recent t ! rate_slot hash)) \<noteq> hash_high hash" "tr_counter t = pack (of_nat i) t0"
    and "sat_sub now (ucast t0) < tp_window_secs p" "i < 2 ^ 32"
  shows "count_name hash now p t =
    (unat (tp_subdomain_rate_limit p) \<le> i,
     \<lparr>tr_counter = pack (of_nat (Suc i)) t0, tr_recent = (tr_recent t)[rate_slot hash := pack (hash_high hash) (ucast now)]\<rparr>)"
proof -
  have "unat (of_nat i :: u32) = i" using assms(4) by (simp add: unat_of_nat)
  then show ?thesis
    using assms(1-3) bump_in_window [OF assms(3), of "of_nat i"]
    by (simp add: count_name_def seen_or_record_eq word_le_nat_alt Let_def add.commute)
qed

lemma replay_distinct:
  assumes "length (tr_recent t) = 8" "tr_counter t = pack (of_nat i) t0"
    and "\<forall>k < 8. fst (unpack (tr_recent t ! k)) \<notin> hash_high ` set (map (\<lambda>(now, d). h d) es)"
    and "distinct (map (\<lambda>(now, d). hash_high (h d)) es)"
    and "\<forall>(now, d) \<in> set es. sat_sub now (ucast t0) < tp_window_secs p" "i + length es \<le> 2 ^ 32"
  shows "fst (replay t (map (\<lambda>(now, d). count_name (h d) now p) es)) =
    map (\<lambda>j. unat (tp_subdomain_rate_limit p) \<le> j) [i..<i + length es]"
  using assms
proof (induction es arbitrary: t i)
  case (Cons e es)
  obtain now d where e: "e = (now, d)" by fastforce
  let ?t = "\<lparr>tr_counter = pack (of_nat (Suc i)) t0, tr_recent = (tr_recent t)[rate_slot (h d) := pack (hash_high (h d)) (ucast now)]\<rparr>"
  have "fst (unpack (tr_recent t ! rate_slot (h d))) \<noteq> hash_high (h d)"
    using Cons.prems(3) rate_slot_less [of "h d"] by (auto simp: e)
  then have c: "count_name (h d) now p t = (unat (tp_subdomain_rate_limit p) \<le> i, ?t)"
    using Cons.prems(2,5,6) by (intro count_name_unseen) (auto simp: e)
  have "fst (replay ?t (map (\<lambda>(now, d). count_name (h d) now p) es)) =
      map (\<lambda>j. unat (tp_subdomain_rate_limit p) \<le> j) [Suc i..<Suc i + length es]"
  proof (rule Cons.IH)
    show "\<forall>k < 8. fst (unpack (tr_recent ?t ! k)) \<notin> hash_high ` set (map (\<lambda>(now, d). h d) es)"
    proof (intro allI impI)
      fix k :: nat assume "k < 8"
      then show "fst (unpack (tr_recent ?t ! k)) \<notin> hash_high ` set (map (\<lambda>(now, d). h d) es)"
        using Cons.prems(1,3,4) rate_slot_less [of "h d"]
        by (cases "k = rate_slot (h d)") (auto simp: e case_prod_unfold image_image)
    qed
  qed (use Cons.prems in \<open>auto simp: e\<close>)
  then show ?case
    using upt_conv_Cons [of i "i + length (e # es)"] by (simp add: e c case_prod_unfold Let_def)
qed simp


fun rate_outputs ::
  "(ip_addr \<times> string, tracker) iteration \<Rightarrow> (string \<Rightarrow> u64) \<Rightarrow> 'f tunneling \<Rightarrow> ip_addr \<Rightarrow> (u64 \<times> string) list \<Rightarrow> bool list"
where
  "rate_outputs iter h td ip [] = []"
| "rate_outputs iter h td ip ((now, d) # es) =
     (let (over, td') = check_rate iter h td now ip d in over # rate_outputs iter h td' ip es)"

lemma rate_outputs_serve:
  assumes "\<forall>(now, d) \<in> set es. counted_under (td_params td) base d"
  shows "rate_outputs iter h td ip es =
    fst (serve_all (entry_or_insert_with iter tracker_age) bm_store (td_rates td) (ip, base)
      (map (\<lambda>(now, d). (tracker_new now, count_name (h d) now (td_params td))) es))"
  using assms
proof (induction es arbitrary: td)
  case (Cons e es)
  obtain now d where e: "e = (now, d)" by fastforce
  have c: "counted_under (td_params td) base d" using Cons.prems by (simp add: e)
  obtain over rates where s: "serve (entry_or_insert_with iter tracker_age) bm_store (td_rates td) (ip, base) (tracker_new now)
      (count_name (h d) now (td_params td)) = (over, rates)" by fastforce
  show ?case using Cons.IH [of "td\<lparr>td_rates := rates\<rparr>"] Cons.prems
    by (simp add: e check_rate_counted [OF c] s case_prod_unfold Let_def)
qed simp

text \<open>C38. Fan-out is caught at the limit: when a client that has no bucket under a base asks, within
  one window, for names below it whose hashes differ in their upper halves (and are not zero
  there), the first \<open>subdomain_rate\<close> names pass and every later one is refused.\<close>

theorem fan_out_refused_at_limit:
  fixes td :: "'f tunneling"
  defines "p \<equiv> td_params td"
  assumes "bm_get (td_rates td) (ip, base) = None"
    and "\<forall>(now, d) \<in> set ((t0, d0) # es). counted_under p base d \<and> sat_sub now t0 < tp_window_secs p \<and> hash_high (h d) \<noteq> 0"
    and "distinct (map (\<lambda>(now, d). hash_high (h d)) ((t0, d0) # es))" "length es < 2 ^ 32 - 1" "t0 < 2 ^ 32"
  shows "rate_outputs iter h td ip ((t0, d0) # es) =
    map (\<lambda>i. unat (tp_subdomain_rate_limit p) \<le> i) [0..<Suc (length es)]"
proof -
  let ?es = "(t0, d0) # es" and ?t = "tracker_new t0"
  have t0: "ucast (ucast t0 :: u32) = t0"
    using assms(6) by (simp add: word_unat_eq_iff unsigned_ucast_eq unsigned_take_bit_eq take_bit_nat_eq_self word_less_nat_alt)
  have z: "unpack 0 = (0, 0)" by (simp add: unpack_def)
  have "\<forall>(now, d) \<in> set ?es. counted_under p base d" using assms(3) by auto
  then have "rate_outputs iter h td ip ?es =
      fst (serve_all (entry_or_insert_with iter tracker_age) bm_store (td_rates td) (ip, base)
        (map (\<lambda>(now, d). (tracker_new now, count_name (h d) now p)) ?es))"
    unfolding p_def by (rule rate_outputs_serve)
  also have "\<dots> = fst (replay ?t (map (\<lambda>(now, d). count_name (h d) now p) ?es))"
    using bm.serve_all_fresh [OF assms(2), of iter tracker_age ?t "count_name (h d0) t0 p"
        "map (\<lambda>(now, d). (tracker_new now, count_name (h d) now p)) es"]
    by (simp add: case_prod_unfold comp_def)
  also have "\<dots> = map (\<lambda>i. unat (tp_subdomain_rate_limit p) \<le> i) [0..<0 + length ?es]"
  proof (rule replay_distinct)
    show "\<forall>k < 8. fst (unpack (tr_recent ?t ! k)) \<notin> hash_high ` set (map (\<lambda>(now, d). h d) ?es)"
      using assms(3) by (auto simp: tracker_new_def recent_names_new_def RECENT_NAME_SLOTS_def z)
    show "\<forall>(now, d) \<in> set ?es. sat_sub now (ucast (ucast t0 :: u32)) < tp_window_secs p" unfolding t0 using assms(3) by auto
  qed (use assms(4,5) in \<open>simp_all add: tracker_new_def recent_names_new_def RECENT_NAME_SLOTS_def window_new_def\<close>)
  finally show ?thesis by simp
qed

section \<open>Refused names\<close>

text \<open>The bucket holds the name in the ring, with the time it was counted.\<close>

definition ringed :: "'f tunneling \<Rightarrow> ip_addr \<times> string \<Rightarrow> u64 \<Rightarrow> u64 \<Rightarrow> bool" where
  "ringed td key hash now \<longleftrightarrow>
     (\<exists>t. bm_get (td_rates td) key = Some t \<and> length (tr_recent t) = 8
        \<and> tr_recent t ! rate_slot hash = pack (hash_high hash) (ucast now))"

lemma count_name_ring:
  "tr_recent (snd (count_name hash now p t)) = tr_recent t
   \<or> tr_recent (snd (count_name hash now p t)) = (tr_recent t)[rate_slot hash := pack (hash_high hash) (ucast now)]"
  by (auto simp: count_name_def seen_or_record_eq Let_def split: prod.splits bool.splits if_splits)

lemma count_name_over_rings:
  assumes "fst (count_name hash now p t)"
  shows "tr_recent (snd (count_name hash now p t)) = (tr_recent t)[rate_slot hash := pack (hash_high hash) (ucast now)]"
  using assms by (auto simp: count_name_def seen_or_record_eq Let_def split: prod.splits bool.splits if_splits)

lemma ringed_passes:
  assumes "ringed td (ip, base) (h d) now" "tunnel_labels d = Some (base, ls)"
    and "ucast (sat_sub (ucast now' :: u32) (ucast now)) < tp_window_secs (td_params td)"
  shows "\<not> fst (check_rate iter h td now' ip d)"
proof (cases "counted_under (td_params td) base d")
  case True
  obtain t where t: "bm_get (td_rates td) (ip, base) = Some t" "length (tr_recent t) = 8"
    "tr_recent t ! rate_slot (h d) = pack (hash_high (h d)) (ucast now)"
    using assms(1) by (auto simp: ringed_def)
  have "\<not> fst (count_name (h d) now' (td_params td) t)"
    using t(3) assms(3) by (simp add: count_name_def seen_or_record_eq)
  then show ?thesis
    using bm.serve_present(1) [OF t(1), of iter tracker_age "tracker_new now'" "count_name (h d) now' (td_params td)"]
    by (simp add: check_rate_counted [OF True] case_prod_unfold Let_def)
next
  case False
  then show ?thesis using assms(2) check_rate_over_counted [of iter h td now' ip d] by (auto simp: counted_under_def)
qed

lemma check_rate_rings:
  assumes "tunneling_wf td" "fst (check_rate iter h td now ip d)" "tunnel_labels d = Some (base, ls)"
  shows "ringed (snd (check_rate iter h td now ip d)) (ip, base) (h d) now"
proof -
  have c: "counted_under (td_params td) base d"
    using check_rate_over_counted [OF assms(2)] assms(3) by (auto simp: counted_under_def)
  let ?f = "count_name (h d) now (td_params td)" and ?key = "(ip, base)"
  let ?s = "serve (entry_or_insert_with iter tracker_age) bm_store (td_rates td) ?key (tracker_new now) ?f"
  obtain t where t: "length (tr_recent t) = 8" "fst ?s = fst (?f t)" "bm_get (snd ?s) ?key = Some (snd (?f t))"
  proof (cases "bm_get (td_rates td) ?key")
    case None
    show thesis
      by (rule that [of "tracker_new now"])
        (simp_all add: bm.serve_fresh [OF None] tracker_new_def recent_names_new_def RECENT_NAME_SLOTS_def)
  next
    case (Some t)
    show thesis by (rule that [of t]) (use assms(1) Some in \<open>simp_all add: bm.serve_present [OF Some] tunneling_wf_def\<close>)
  qed
  then have "fst (?f t)" using assms(2) by (simp add: check_rate_counted [OF c] case_prod_unfold Let_def)
  then show ?thesis
    using t(1,3) rate_slot_less [of "h d"] count_name_over_rings [of "h d" now "td_params td" t]
    by (simp add: ringed_def check_rate_counted [OF c] case_prod_unfold Let_def)
qed

lemma ringed_step:
  assumes "ringed td key hash now" "bm_get (td_rates (snd (check_rate iter h td n ip d))) key \<noteq> None"
    and "map_option (\<lambda>l. (ip, fst l)) (tunnel_labels d) = Some key \<longrightarrow> rate_slot (h d) \<noteq> rate_slot hash"
  shows "ringed (snd (check_rate iter h td n ip d)) key hash now"
proof (cases "\<exists>base. counted_under (td_params td) base d")
  case True
  then obtain base where c: "counted_under (td_params td) base d" ..
  let ?f = "count_name (h d) n (td_params td)" and ?key = "(ip, base)"
  let ?s = "serve (entry_or_insert_with iter tracker_age) bm_store (td_rates td) ?key (tracker_new n) ?f"
  have rates: "td_rates (snd (check_rate iter h td n ip d)) = snd ?s"
    by (simp add: check_rate_counted [OF c] case_prod_unfold Let_def)
  obtain t where t: "bm_get (td_rates td) key = Some t" "length (tr_recent t) = 8"
    "tr_recent t ! rate_slot hash = pack (hash_high hash) (ucast now)"
    using assms(1) by (auto simp: ringed_def)
  show ?thesis
  proof (cases "key = ?key")
    case True
    then have ne: "rate_slot (h d) \<noteq> rate_slot hash" using assms(3) c by (auto simp: counted_under_def)
    have "bm_get (snd ?s) key = Some (snd (?f t))" unfolding True by (rule bm.serve_present(2)) (use t(1) True in simp)
    moreover have "tr_recent (snd (?f t)) ! rate_slot hash = tr_recent t ! rate_slot hash"
      using count_name_ring [of "h d" n "td_params td" t] ne by auto
    ultimately show ?thesis using t(2,3) by (simp add: ringed_def rates length_count_name)
  next
    case False
    obtain t' where t': "bm_get (snd ?s) key = Some t'" using assms(2) unfolding rates by auto
    from bm.serve_other [OF False t'] t(1) have "t' = t" by simp
    then show ?thesis using t t' by (simp add: ringed_def rates)
  qed
next
  case False
  then have "snd (check_rate iter h td n ip d) = td"
    by (auto simp: check_rate_def counted_under_def Let_def split: option.splits)
  then show ?thesis using assms(1) by simp
qed

lemma ringed_run:
  assumes "ringed td key hash now"
    and "\<forall>n \<le> length mid. bm_get (td_rates (tunnel_run iter h td (take n mid))) key \<noteq> None"
    and "\<forall>(n, ip, d) \<in> set mid. map_option (\<lambda>l. (ip, fst l)) (tunnel_labels d) = Some key \<longrightarrow> rate_slot (h d) \<noteq> rate_slot hash"
  shows "ringed (tunnel_run iter h td mid) key hash now"
  using assms
proof (induction mid arbitrary: td)
  case (Cons e mid)
  obtain n ip d where e: "e = (n, ip, d)" by (cases e)
  let ?td = "snd (check_rate iter h td n ip d)"
  have run: "tunnel_run iter h td (e # es) = tunnel_run iter h ?td es" for es by (simp add: tunnel_run_def e)
  have held: "bm_get (td_rates (tunnel_run iter h ?td (take k mid))) key \<noteq> None" if "k \<le> length mid" for k
    using Cons.prems(2) [rule_format, of "Suc k"] that by (simp add: run)
  have "bm_get (td_rates ?td) key \<noteq> None" using held [of 0] by (simp add: tunnel_run_def)
  then have "ringed ?td key hash now"
    using Cons.prems(1,3) by (intro ringed_step) (auto simp: e)
  then show ?case unfolding run using Cons.prems(3) held by (intro Cons.IH) auto
qed (simp add: tunnel_run_def)

text \<open>C39. A refused name is let through when it is asked again.  Whatever queries came before, a
  name that \<open>check_rate\<close> refuses has been entered in the ring of names counted; so when the same
  client asks for it again within the window, whatever queries came in between, it is taken for a
  repetition and passes, as long as the client's bucket was not evicted and no other name of that
  bucket took its place in the ring.\<close>

theorem refused_name_passes_on_retry:
  fixes config :: "'f tunneling_params" and iter h events now ip d
  defines "td \<equiv> tunnel_run iter h (tunneling_new config) events"
  defines "td' \<equiv> snd (check_rate iter h td now ip d)"
  assumes "fst (check_rate iter h td now ip d)" "tunnel_labels d = Some (base, ls)"
    and "\<forall>n \<le> length mid. bm_get (td_rates (tunnel_run iter h td' (take n mid))) (ip, base) \<noteq> None"
    and "\<forall>(_, ip', d') \<in> set mid. map_option (\<lambda>l. (ip', fst l)) (tunnel_labels d') = Some (ip, base)
           \<longrightarrow> rate_slot (h d') \<noteq> rate_slot (h d)"
    and "ucast (sat_sub (ucast now' :: u32) (ucast now)) < tp_window_secs config"
  shows "\<not> fst (check_rate iter h (tunnel_run iter h td' mid) now' ip d)"
proof (rule ringed_passes)
  have wf: "tunneling_wf td" "td_params td = tunneling_from_config config"
    unfolding td_def using tunnel_run_wf [OF tunneling_new_wf, of iter h config events] by (simp_all add: tunneling_new_def)
  have wf': "tunneling_wf td'" "td_params td' = td_params td"
    unfolding td'_def using check_rate_wf [OF wf(1), of iter h now ip d] by simp_all
  have "ringed td' (ip, base) (h d) now" unfolding td'_def by (rule check_rate_rings [OF wf(1) assms(3,4)])
  then show "ringed (tunnel_run iter h td' mid) (ip, base) (h d) now" using assms(5,6) by (rule ringed_run)
  have "td_params (tunnel_run iter h td' mid) = tunneling_from_config config"
    using tunnel_run_wf [OF wf'(1), of iter h mid] wf(2) wf'(2) by simp
  then show "ucast (sat_sub (ucast now' :: u32) (ucast now)) < tp_window_secs (td_params (tunnel_run iter h td' mid))"
    using assms(7) by (simp add: tunneling_from_config_def)
qed (rule assms(4))

section \<open>A sample\<close>

definition sample_tunneling :: "unit tunneling_params" where
  "sample_tunneling =
     \<lparr>tp_entropy_threshold = (), tp_label_len_threshold = 60, tp_max_unbroken_run = 40, tp_entropy_min_len = 100,
      tp_subdomain_rate_limit = 2, tp_window_secs = 60, tp_exempt_domains = [''.ok.com'']\<rparr>"

text \<open>A hash for the samples: the first byte in the upper half.\<close>

definition sample_hash :: "string \<Rightarrow> u64" where
  "sample_hash s = push_bit 32 (of_nat (byte (hd s)))"

lemma sample_high: "hash_high (sample_hash s) = of_nat (byte (hd s))"
  unfolding hash_high_def sample_hash_def by (auto simp: bit_eq_iff bit_simps dest: bit_imp_le_length)

definition no_iteration :: "('k, 'v) iteration" where
  "no_iteration _ = []"

theorem fan_out_refused_at_limit_witness:
  "rate_outputs no_iteration sample_hash (tunneling_new sample_tunneling) (V4 1)
     [(5, ''a.t.com''), (6, ''b.t.com''), (7, ''c.t.com''), (64, ''d.t.com'')] = [False, False, True, True]"
proof -
  let ?es = "[(6, ''b.t.com''), (7, ''c.t.com''), (64, ''d.t.com'')] :: (u64 \<times> string) list"
  have c: "counted_under (td_params (tunneling_new sample_tunneling)) ''t.com'' d" if "d \<in> {''a.t.com'', ''b.t.com'', ''c.t.com'', ''d.t.com''}" for d
  proof -
    have "\<forall>d \<in> set [''a.t.com'', ''b.t.com'', ''c.t.com'', ''d.t.com'']. map_option fst (tunnel_labels d) = Some ''t.com''
        \<and> \<not> is_exempt d (tp_exempt_domains (td_params (tunneling_new sample_tunneling)))"
      by code_simp
    then show ?thesis using that unfolding counted_under_def by auto
  qed
  have "rate_outputs no_iteration sample_hash (tunneling_new sample_tunneling) (V4 1) ((5, ''a.t.com'') # ?es) =
      map (\<lambda>i. unat (tp_subdomain_rate_limit (td_params (tunneling_new sample_tunneling))) \<le> i) [0..<Suc (length ?es)]"
  proof (rule fan_out_refused_at_limit [where base = "''t.com''"])
    show "\<forall>(now, d) \<in> set ((5, ''a.t.com'') # ?es). counted_under (td_params (tunneling_new sample_tunneling)) ''t.com'' d
        \<and> sat_sub now 5 < tp_window_secs (td_params (tunneling_new sample_tunneling)) \<and> hash_high (sample_hash d) \<noteq> 0"
    proof -
      have "tp_window_secs (td_params (tunneling_new sample_tunneling)) = 60"
        by (simp add: tunneling_new_def tunneling_from_config_def sample_tunneling_def)
      then show ?thesis
        using c [of "''a.t.com''"] c [of "''b.t.com''"] c [of "''c.t.com''"] c [of "''d.t.com''"]
        by (simp add: sat_sub_def sample_high)
    qed
    show "distinct (map (\<lambda>(now, d). hash_high (sample_hash d)) ((5, ''a.t.com'') # ?es))" by (simp add: sample_high)
  qed (simp_all add: tunneling_new_def bm_new_def bm_get_def)
  moreover have "map (\<lambda>i. unat (tp_subdomain_rate_limit (td_params (tunneling_new sample_tunneling))) \<le> i) [0..<Suc (length ?es)] =
      [False, False, True, True]" by code_simp
  ultimately show ?thesis by simp
qed

text \<open>With a limit of zero already the first name is refused.  It passes two seconds later, although
  in between the client asked for another name, also refused, and another client for the same.\<close>

definition sample_ring_hash :: "string \<Rightarrow> u64" where
  "sample_ring_hash s = (let b = of_nat (byte (hd s)) in push_bit 32 b OR b)"

text \<open>Where the map sees no entries to sample, it evicts none.\<close>

lemma no_iteration_keeps:
  "bm_get (td_rates td) k \<noteq> None \<Longrightarrow> bm_get (td_rates (tunnel_run no_iteration h td events)) k \<noteq> None"
proof (induction events arbitrary: td)
  case (Cons e events)
  obtain n ip d where e: "e = (n, ip, d)" by (cases e)
  have "bm_get (td_rates (snd (check_rate no_iteration h td n ip d))) k \<noteq> None"
    using Cons.prems
    by (auto simp: check_rate_def bm_get_def bm_store_def entry_or_insert_with_def evict_approximate_oldest_def
        remove_victim_def pick_victim_def no_iteration_def Let_def split: option.split prod.split)
  from Cons.IH [OF this] show ?case by (simp add: tunnel_run_def e)
qed (simp add: tunnel_run_def)

lemma fresh_over_limit:
  assumes "bm_get (td_rates td) (ip, base) = None" "counted_under (td_params td) base d"
    and "hash_high (h d) \<noteq> 0" "tp_subdomain_rate_limit (td_params td) = 0"
  shows "fst (check_rate iter h td now ip d)"
proof -
  have "unpack 0 = (0, 0)" by (simp add: unpack_def)
  then have "fst (count_name (h d) now (td_params td) (tracker_new now))"
    using assms(3,4) rate_slot_less [of "h d"]
    by (simp add: count_name_def seen_or_record_eq tracker_new_def recent_names_new_def RECENT_NAME_SLOTS_def Let_def case_prod_unfold)
  then show ?thesis
    unfolding check_rate_counted [OF assms(2)] by (simp add: case_prod_unfold Let_def bm.serve_fresh(1) [OF assms(1)])
qed

theorem refused_name_passes_on_retry_witness:
  "\<exists>td td'. td = tunnel_run no_iteration sample_ring_hash (tunneling_new (sample_tunneling\<lparr>tp_subdomain_rate_limit := 0\<rparr>)) []
     \<and> fst (check_rate no_iteration sample_ring_hash td 7 (V4 1) ''c.t.com'')
     \<and> td' = snd (check_rate no_iteration sample_ring_hash td 7 (V4 1) ''c.t.com'')
     \<and> \<not> fst (check_rate no_iteration sample_ring_hash
           (tunnel_run no_iteration sample_ring_hash td' [(8, V4 1, ''d.t.com''), (8, V4 2, ''c.t.com'')]) 9 (V4 1) ''c.t.com'')"
proof -
  let ?cfg = "sample_tunneling\<lparr>tp_subdomain_rate_limit := 0\<rparr>" and ?h = sample_ring_hash
  let ?td = "tunnel_run no_iteration ?h (tunneling_new ?cfg) []"
  let ?td' = "snd (check_rate no_iteration ?h ?td 7 (V4 1) ''c.t.com'')"
  let ?mid = "[(8, V4 1, ''d.t.com''), (8, V4 2, ''c.t.com'')] :: (u64 \<times> ip_addr \<times> string) list"
  have labels: "tunnel_labels ''c.t.com'' = Some (''t.com'', [''c''])" "tunnel_labels ''d.t.com'' = Some (''t.com'', [''d''])"
    and ex: "\<not> is_exempt ''c.t.com'' (tp_exempt_domains (td_params (tunneling_new ?cfg)))"
    by code_simp+
  have td: "?td = tunneling_new ?cfg" by (simp add: tunnel_run_def)
  have over: "fst (check_rate no_iteration ?h ?td 7 (V4 1) ''c.t.com'')"
    unfolding td
  proof (rule fresh_over_limit)
    show "hash_high (?h ''c.t.com'') \<noteq> 0" by (simp add: hash_high_def sample_ring_hash_def)
    show "counted_under (td_params (tunneling_new ?cfg)) ''t.com'' ''c.t.com''" using labels ex by (simp add: counted_under_def)
  qed (simp_all add: tunneling_new_def tunneling_from_config_def bm_new_def bm_get_def)
  have "bm_get (td_rates ?td') (V4 1, ''t.com'') \<noteq> None"
    using check_rate_rings [OF tunneling_new_wf over [unfolded td] labels(1)] by (auto simp: ringed_def td)
  then have held: "\<forall>n \<le> length ?mid. bm_get (td_rates (tunnel_run no_iteration ?h ?td' (take n ?mid))) (V4 1, ''t.com'') \<noteq> None"
    using no_iteration_keeps by blast
  have "rate_slot (?h ''d.t.com'') \<noteq> rate_slot (?h ''c.t.com'')" by (simp add: rate_slot_def sample_ring_hash_def)
  then have slots: "\<forall>(_, ip', d') \<in> set ?mid. map_option (\<lambda>l. (ip', fst l)) (tunnel_labels d') = Some (V4 1, ''t.com'')
      \<longrightarrow> rate_slot (?h d') \<noteq> rate_slot (?h ''c.t.com'')"
    by (simp add: labels)
  have "ucast (sat_sub (ucast (9 :: u64) :: u32) (ucast (7 :: u64))) < tp_window_secs ?cfg"
    by (simp add: sat_sub_def sample_tunneling_def)
  from refused_name_passes_on_retry [OF over labels(1) held slots this] over show ?thesis by blast
qed

end
