(* ===== verification/Dns_Records.thy ===== *)
theory Dns_Records
  imports Std_Net
begin

text \<open>
  What the daemon sees of the DNS library's messages: record types, response codes and resource
  records over an abstract type \<open>'n\<close> of wire names, and what that library documents about
  names.  Durations of the standard library are natural numbers of nanoseconds.
\<close>

section \<open>Records\<close>

datatype record_type =
  RtA | RtAAAA | RtCNAME | RtMX | RtTXT | RtNS | RtSOA | RtSRV | RtPTR | RtHTTPS | RtSVCB | RtTLSA | RtHINFO | RtANY
  | RtOther u16

datatype response_code = NoError | NXDomain | ServFail | RcRefused | RcOther u16

datatype 'n rdata = RdA u32 | RdAAAA u128 | RdCname 'n | RdPtr 'n | RdOther record_type string

record 'n dns_record =
  dr_name :: 'n
  dr_type :: record_type
  dr_ttl :: u32
  dr_data :: "'n rdata"

text \<open>\<open>Record::from_rdata\<close>: the type is the one of the data.\<close>

fun rdata_type :: "'n rdata \<Rightarrow> record_type" where
  "rdata_type (RdA _) = RtA"
| "rdata_type (RdAAAA _) = RtAAAA"
| "rdata_type (RdCname _) = RtCNAME"
| "rdata_type (RdPtr _) = RtPTR"
| "rdata_type (RdOther t _) = t"

definition from_rdata :: "'n \<Rightarrow> u32 \<Rightarrow> 'n rdata \<Rightarrow> 'n dns_record" where
  "from_rdata name ttl data = \<lparr>dr_name = name, dr_type = rdata_type data, dr_ttl = ttl, dr_data = data\<rparr>"

text \<open>What the library documents: names have no empty label, and \<open>eq_ignore_root\<close> compares
  labels without regard to ASCII case.\<close>

definition canon :: "('n \<Rightarrow> string list) \<Rightarrow> 'n \<Rightarrow> string list" where
  "canon labels n = map to_ascii_lowercase (labels n)"

definition name_library :: "('n \<Rightarrow> string list) \<Rightarrow> ('n \<Rightarrow> 'n \<Rightarrow> bool) \<Rightarrow> bool" where
  "name_library labels same_name \<longleftrightarrow>
     (\<forall>n. [] \<notin> set (labels n)) \<and> (\<forall>a b. same_name a b \<longleftrightarrow> canon labels a = canon labels b)"

text \<open>\<open>ascii_domain\<close> of \<open>dns/handler.rs\<close>: the printed name without the root dot.\<close>

definition ascii_domain :: "('n \<Rightarrow> string) \<Rightarrow> 'n \<Rightarrow> string" where
  "ascii_domain to_ascii name =
     (let domain = to_ascii name in if domain \<noteq> [] \<and> last domain = CHR ''.'' then butlast domain else domain)"

section \<open>Durations\<close>

type_synonym duration = nat

definition from_secs :: "nat \<Rightarrow> duration" where
  "from_secs s = s * 1000000000"

definition as_secs :: "duration \<Rightarrow> nat" where
  "as_secs d = d div 1000000000"

lemma as_secs_from_secs [simp]: "as_secs (from_secs s) = s"
  by (simp add: as_secs_def from_secs_def)

lemma from_secs_le_iff [simp]: "from_secs a \<le> from_secs b \<longleftrightarrow> a \<le> b"
  by (simp add: from_secs_def)

lemma as_secs_mono: "a \<le> b \<Longrightarrow> as_secs a \<le> as_secs b"
  by (simp add: as_secs_def div_le_mono)

end
