(* ===== verification/Security_Layer.thy ===== *)
theory Security_Layer
  imports Rate_Limiter Response_Limiter Tunneling Dns_Records Cidr_Blocks
begin

text \<open>
  The checks before a query is answered: \<open>SecurityLayer\<close> and \<open>source_allowed\<close> of
  \<open>dns/handler.rs\<close>.  The surroundings of the limiters (iteration order of their tables, clocks,
  the name hash, the entropy comparison) are collected in one record.
\<close>

section \<open>The layer\<close>

record 'f limiter_env =
  le_rate_iter :: "(ip_addr, u64) iteration"
  le_rrl_iter :: "(u64, prefix_state) iteration"
  le_tunnel_iter :: "(ip_addr \<times> string, tracker) iteration"
  le_rate_now :: u32
  le_rrl_now :: u64
  le_tunnel_now :: u64
  le_name_hash :: "string \<Rightarrow> u64"
  le_entropy_reaches :: "string \<Rightarrow> 'f \<Rightarrow> bool"

record 'f security_layer =
  sl_rate_limiter :: "rate_limiter option"
  sl_rrl :: "rrl option"
  sl_tunneling :: "'f tunneling option"
  sl_anti_bypass :: "string set option"

record 'f security_config =
  sy_enabled :: bool
  sy_rate_limit :: "rate_limiter_params option"
  sy_rrl :: "rrl_params option"
  sy_tunneling :: "'f tunneling_params option"

text \<open>\<open>Some\<close> parameters stand for a section with \<open>enabled = true\<close>.\<close>

definition security_from_config :: "'f security_config \<Rightarrow> string list option \<Rightarrow> 'f security_layer" where
  "security_from_config security anti_bypass_config =
     (if \<not> sy_enabled security
      then \<lparr>sl_rate_limiter = None, sl_rrl = None, sl_tunneling = None, sl_anti_bypass = None\<rparr>
      else
        \<lparr>sl_rate_limiter = map_option rate_limiter_new (sy_rate_limit security),
         sl_rrl = map_option rrl_new (sy_rrl security),
         sl_tunneling = map_option tunneling_new (sy_tunneling security),
         sl_anti_bypass =
           (case anti_bypass_config of
              None \<Rightarrow> None
            | Some extra_domains \<Rightarrow>
                (let ab = anti_bypass_new extra_domains in if ab = {} then None else Some ab))\<rparr>)"

datatype refusal = RateLimited | InvalidCharacters | RebindingPattern | BypassDomain | TunnelingDetected

text \<open>The reason of a refusal, or \<^term>\<open>None\<close>, and the layer with the client's bucket drawn.\<close>

definition check_pre_query ::
  "'f limiter_env \<Rightarrow> 'f security_layer \<Rightarrow> ip_addr \<Rightarrow> string \<Rightarrow> record_type \<Rightarrow> refusal option \<times> 'f security_layer"
where
  "check_pre_query env sec client_ip domain rt =
     (let (limited, sec) =
            (case sl_rate_limiter sec of
               None \<Rightarrow> (False, sec)
             | Some rl \<Rightarrow>
                 (let (ok, rl') = rate_check (le_rate_iter env) rl (le_rate_now env) client_ip
                  in (\<not> ok, sec\<lparr>sl_rate_limiter := Some rl'\<rparr>)))
      in (if limited then Some RateLimited
          else if isl (validate_domain_chars domain) then Some InvalidCharacters
          else if rt \<in> {RtA, RtAAAA, RtHTTPS, RtSVCB} \<and> has_rebinding_pattern domain then Some RebindingPattern
          else if (case sl_anti_bypass sec of Some ab \<Rightarrow> is_bypass_domain ab domain | None \<Rightarrow> False) then Some BypassDomain
          else if rt \<noteq> RtPTR
               \<and> (case sl_tunneling sec of
                    Some td \<Rightarrow> tunnel_check (le_entropy_reaches env) td domain = TunnelSuspicious
                  | None \<Rightarrow> False)
               then Some TunnelingDetected
          else None, sec))"

definition check_response ::
  "'f limiter_env \<Rightarrow> 'f security_layer \<Rightarrow> ip_addr \<Rightarrow> bool \<Rightarrow> rrl_action \<times> 'f security_layer"
where
  "check_response env sec dest_ip per_client =
     (case sl_rrl sec of
        None \<Rightarrow> (RrlAllow, sec)
      | Some rrl \<Rightarrow>
          (let (action, rrl') = rrl_check (le_rrl_iter env) rrl (le_rrl_now env) dest_ip per_client
           in (action, sec\<lparr>sl_rrl := Some rrl'\<rparr>)))"

definition check_tunneling_rate ::
  "'f limiter_env \<Rightarrow> 'f security_layer \<Rightarrow> ip_addr \<Rightarrow> string \<Rightarrow> bool \<times> 'f security_layer"
where
  "check_tunneling_rate env sec client_ip domain =
     (case sl_tunneling sec of
        None \<Rightarrow> (False, sec)
      | Some td \<Rightarrow>
          (let (over, td') = check_rate (le_tunnel_iter env) (le_name_hash env) td (le_tunnel_now env) client_ip domain
           in (over, sec\<lparr>sl_tunneling := Some td'\<rparr>)))"

definition security_cleanup :: "'f limiter_env \<Rightarrow> 'f security_layer \<Rightarrow> 'f security_layer" where
  "security_cleanup env sec =
     sec\<lparr>sl_rate_limiter := map_option (\<lambda>rl. rate_cleanup rl (le_rate_now env)) (sl_rate_limiter sec),
         sl_rrl := map_option (\<lambda>r. rrl_cleanup r (le_rrl_now env)) (sl_rrl sec),
         sl_tunneling := map_option (\<lambda>td. tunneling_cleanup td (le_tunnel_now env)) (sl_tunneling sec)\<rparr>"

section \<open>Sources\<close>

definition source_allowed :: "ip_addr \<Rightarrow> cidr list option \<Rightarrow> bool" where
  "source_allowed client_ip allow_from =
     (case allow_from of None \<Rightarrow> True | Some acl \<Rightarrow> acl = [] \<or> any_contains acl client_ip)"

text \<open>Sources the operator vouched for have a budget of their own.\<close>

definition rrl_per_client :: "ip_addr \<Rightarrow> cidr list option \<Rightarrow> bool" where
  "rrl_per_client client_ip allow_from =
     (case allow_from of None \<Rightarrow> False | Some acl \<Rightarrow> acl \<noteq> [] \<and> source_allowed client_ip (Some acl))"

end
