(* ===== verification/Ranked_Choice.thy ===== *)
theory Ranked_Choice
  imports Warden_Prelude
begin

text \<open>
  The contract of a "keep the strongest hit" scan.  Two parts of the program
  run one: the admin-rule priority scan of \<open>filter/evaluator.rs\<close> and the hit
  reduction of \<open>filter/operator_rules/decision.rs\<close>.  Each promises that its
  step replaces the kept hit only by a strictly stronger one; the lemmas of the
  locale show once what that gives: the scan returns the first hit of maximal
  rank, and nothing only when there is no hit at all.
\<close>

definition strongest :: "('a option \<Rightarrow> 'a \<Rightarrow> 'a option) \<Rightarrow> 'a list \<Rightarrow> 'a option" where
  "strongest pick xs = foldl pick None xs"

locale ranked_choice =
  fixes rank :: "'a \<Rightarrow> 'r::linorder"
    and pick :: "'a option \<Rightarrow> 'a \<Rightarrow> 'a option"
  assumes pick_None: "pick None x = Some x"
    and pick_Some: "pick (Some b) x = (if rank b < rank x then Some x else Some b)"
begin

lemma foldl_pick_Some:
  "\<exists>m. foldl pick (Some b) xs = Some m \<and> m \<in> insert b (set xs)
     \<and> (\<forall>x \<in> insert b (set xs). rank x \<le> rank m)"
proof (induction xs arbitrary: b)
  case Nil
  show ?case by simp
next
  case (Cons x xs)
  show ?case
  proof (cases "rank b < rank x")
    case True
    then show ?thesis using Cons.IH [of x] by (force simp: pick_Some)
  next
    case False
    then show ?thesis using Cons.IH [of b] by (force simp: pick_Some)
  qed
qed

lemma strongest_None_iff: "strongest pick xs = None \<longleftrightarrow> xs = []"
proof (cases xs)
  case (Cons x ys)
  then show ?thesis
    using foldl_pick_Some [of x ys] by (auto simp: strongest_def pick_None)
qed (simp add: strongest_def)

lemma strongest_member:
  assumes "strongest pick xs = Some m"
  shows "m \<in> set xs" and "x \<in> set xs \<Longrightarrow> rank x \<le> rank m"
proof -
  obtain y ys where xs: "xs = y # ys"
    using assms by (cases xs) (auto simp: strongest_def)
  then show "m \<in> set xs" "x \<in> set xs \<Longrightarrow> rank x \<le> rank m"
    using assms foldl_pick_Some [of y ys] by (auto simp: strongest_def pick_None)
qed

lemma foldl_pick_absorb:
  "(\<And>x. x \<in> set xs \<Longrightarrow> \<not> rank b < rank x) \<Longrightarrow> foldl pick (Some b) xs = Some b"
  by (induction xs) (auto simp: pick_Some)

lemma strongest_append: "strongest pick (xs @ ys) = foldl pick (strongest pick xs) ys"
  by (simp add: strongest_def)

text \<open>Ties go to the earliest hit: nothing before the winner is as strong as the winner.\<close>

lemma strongest_first:
  assumes "strongest pick xs = Some m"
  shows "\<exists>us vs. xs = us @ m # vs \<and> (\<forall>x \<in> set us. rank x < rank m)
           \<and> (\<forall>x \<in> set vs. rank x \<le> rank m)"
  using assms
proof (induction xs arbitrary: m rule: rev_induct)
  case Nil
  then show ?case by (simp add: strongest_def)
next
  case (snoc y ys)
  show ?case
  proof (cases "strongest pick ys")
    case None
    then have "ys = []" by (simp add: strongest_None_iff)
    then have "ys @ [y] = [] @ m # []"
      using snoc.prems by (simp add: strongest_def pick_None)
    moreover have "\<forall>x \<in> set []. rank x < rank m" "\<forall>x \<in> set []. rank x \<le> rank m" by simp_all
    ultimately show ?thesis by metis
  next
    case (Some b)
    then have step: "Some m = (if rank b < rank y then Some y else Some b)"
      using snoc.prems by (simp add: strongest_append pick_Some)
    show ?thesis
    proof (cases "rank b < rank y")
      case True
      then have "\<forall>x \<in> set ys. rank x < rank y"
        using strongest_member(2) [OF Some] by (meson le_less_trans)
      moreover have "ys @ [y] = ys @ m # []" and "m = y" using True step by simp_all
      moreover have "\<forall>x \<in> set []. rank x \<le> rank m" by simp
      ultimately show ?thesis by metis
    next
      case False
      then have "m = b" "rank y \<le> rank b" using step by auto
      moreover obtain us vs where "ys = us @ b # vs" "\<forall>x \<in> set us. rank x < rank b"
          "\<forall>x \<in> set vs. rank x \<le> rank b"
        using snoc.IH [OF Some] by blast
      ultimately have "ys @ [y] = us @ m # (vs @ [y])" "\<forall>x \<in> set us. rank x < rank m"
          "\<forall>x \<in> set (vs @ [y]). rank x \<le> rank m"
        by auto
      then show ?thesis by blast
    qed
  qed
qed

lemma strongest_unique:
  assumes "m \<in> set xs" and "\<And>x. x \<in> set xs \<Longrightarrow> x = m \<or> rank x < rank m"
  shows "strongest pick xs = Some m"
proof -
  obtain w where w: "strongest pick xs = Some w"
    using assms(1) strongest_None_iff [of xs] by (cases "strongest pick xs") auto
  then have "w = m"
    using strongest_member [OF w] assms by (meson leD)
  then show ?thesis using w by simp
qed

text \<open>When distinct hits have distinct ranks the order of the hits does not matter.\<close>

lemma strongest_cong_set:
  assumes "set xs = set ys" and "inj_on rank (set xs)"
  shows "strongest pick xs = strongest pick ys"
proof (cases "strongest pick ys")
  case None
  then show ?thesis using assms by (simp add: strongest_None_iff)
next
  case (Some m)
  show ?thesis
    unfolding Some
  proof (rule strongest_unique)
    show "m \<in> set xs" using strongest_member(1) [OF Some] assms by simp
    fix x assume x: "x \<in> set xs"
    then have "rank x \<le> rank m" using strongest_member(2) [OF Some] assms by simp
    then show "x = m \<or> rank x < rank m"
      using x assms strongest_member(1) [OF Some] by (auto simp: le_less inj_on_def)
  qed
qed

end

end
