(* ===== verification/Admin_Rules.thy ===== *)
theory Admin_Rules
  imports Domain_Names Ranked_Choice
begin

text \<open>
  The operator's admin rules: the rule grammar of \<open>filter/rules.rs\<close> and the
  priority scan of \<open>filter/evaluator.rs\<close>.

  The \<open>regex\<close> crate is a parameter: \<open>re_build\<close> stands for
  \<open>RegexBuilder::new(p).size_limit(1 << 20).case_insensitive(true).build()\<close>, which
  gives an error text or a compiled program, and \<open>re_is_match\<close> for
  \<open>Regex::is_match\<close>.
\<close>

section \<open>Data\<close>

datatype 'c rule_pattern = Exact string | Wildcard string | Regex string 'c

datatype rule_action = Block | Allow

record 'c dns_rule =
  pattern :: "'c rule_pattern"
  action :: rule_action
  important :: bool
  noapex :: bool

datatype rule_parse_error =
    Empty
  | UnterminatedRegex
  | EmptyRegex
  | InvalidRegex string string
  | TrailingAfterRegex string
  | UnknownModifier string
  | EmptyPattern
  | StrayWildcard
  | InvalidDomain string

datatype filter_result = Forward | BlockQuery

section \<open>Matching\<close>

definition rule_matches :: "('c \<Rightarrow> string \<Rightarrow> bool) \<Rightarrow> 'c dns_rule \<Rightarrow> string \<Rightarrow> bool" where
  "rule_matches re_is_match r domain =
     (case pattern r of
        Exact target \<Rightarrow> domain = target \<or> is_subdomain_of domain target
      | Wildcard sfx \<Rightarrow> is_subdomain_of domain sfx
      | Regex source compiled \<Rightarrow> re_is_match compiled domain)"

definition is_simple_exact :: "'c dns_rule \<Rightarrow> bool" where
  "is_simple_exact r =
     ((case pattern r of Exact _ \<Rightarrow> True | _ \<Rightarrow> False) \<and> \<not> important r)"

definition exact_domain :: "'c dns_rule \<Rightarrow> string option" where
  "exact_domain r = (case pattern r of Exact d \<Rightarrow> Some d | _ \<Rightarrow> None)"

section \<open>Parsing\<close>

text \<open>The modifier loop; the accumulator is the pair \<open>(important, noapex)\<close>.\<close>

fun parse_modifiers :: "string list \<Rightarrow> bool \<times> bool \<Rightarrow> (rule_parse_error, bool \<times> bool) result" where
  "parse_modifiers [] acc = Inr acc"
| "parse_modifiers (m # ms) (imp, apx) =
     (if trim m = ''important'' then parse_modifiers ms (True, apx)
      else if trim m = ''noapex'' then parse_modifiers ms (imp, True)
      else Inl (UnknownModifier (trim m)))"

definition parse_regex_body ::
  "(string \<Rightarrow> (string, 'c) result) \<Rightarrow> rule_action \<Rightarrow> string \<Rightarrow> (rule_parse_error, 'c dns_rule) result"
where
  "parse_regex_body re_build act rest =
     (case find_char (CHR ''/'') rest of
        None \<Rightarrow> Inl UnterminatedRegex
      | Some n \<Rightarrow>
          (let pat = take n rest; trailing = drop (n + 1) rest
           in if pat = [] then Inl EmptyRegex
              else if trailing \<noteq> [] then Inl (TrailingAfterRegex trailing)
              else rbind (map_err (InvalidRegex pat) (re_build pat))
                (\<lambda>compiled. Inr \<lparr>pattern = Regex pat compiled, action = act,
                                 important = False, noapex = False\<rparr>)))"

definition split_modifiers :: "string \<Rightarrow> (rule_parse_error, (bool \<times> bool) \<times> string) result" where
  "split_modifiers s =
     (case find_char (CHR ''$'') s of
        None \<Rightarrow> Inr ((False, False), s)
      | Some n \<Rightarrow>
          rbind (parse_modifiers (split_on (CHR '','') (drop (n + 1) s)) (False, False))
            (\<lambda>flags. Inr (flags, take n s)))"

definition parse_domain_pattern ::
  "rule_action \<Rightarrow> bool \<Rightarrow> bool \<Rightarrow> string \<Rightarrow> (rule_parse_error, 'c dns_rule) result"
where
  "parse_domain_pattern act imp apx s0 =
     (let s = unwrap_or s0 (strip_suffix ''^'' s0)
      in if s = [] then Inl EmptyPattern
         else case strip_prefix ''*.'' s of
           Some sfx \<Rightarrow>
             if sfx = [] \<or> \<not> is_valid_domain sfx then Inl (InvalidDomain sfx)
             else Inr \<lparr>pattern = Wildcard (to_ascii_lowercase sfx), action = act,
                       important = imp, noapex = apx\<rparr>
         | None \<Rightarrow>
             if CHR ''*'' \<in> set s then Inl StrayWildcard
             else if \<not> is_valid_domain s then Inl (InvalidDomain s)
             else Inr \<lparr>pattern = Exact (to_ascii_lowercase s), action = act,
                       important = imp, noapex = False\<rparr>)"

definition parse_domain_body ::
  "rule_action \<Rightarrow> string \<Rightarrow> (rule_parse_error, 'c dns_rule) result"
where
  "parse_domain_body act s =
     rbind (split_modifiers (if prefix ''||'' s then drop 2 s else s))
       (\<lambda>((imp, apx), s'). parse_domain_pattern act imp apx s')"

definition parse_rule_checked ::
  "(string \<Rightarrow> (string, 'c) result) \<Rightarrow> string \<Rightarrow> (rule_parse_error, 'c dns_rule) result"
where
  "parse_rule_checked re_build line =
     (let s = trim line
      in if s = [] then Inl Empty
         else let act = (if prefix ''@@'' s then Allow else Block);
                  s1 = (if prefix ''@@'' s then drop 2 s else s)
              in case strip_prefix ''/'' s1 of
                   Some rest \<Rightarrow> parse_regex_body re_build act rest
                 | None \<Rightarrow> parse_domain_body act s1)"

definition parse_rule ::
  "(string \<Rightarrow> (string, 'c) result) \<Rightarrow> string \<Rightarrow> 'c dns_rule option"
where
  "parse_rule re_build line = result_ok (parse_rule_checked re_build line)"

definition parse_rules ::
  "(string \<Rightarrow> (string, 'c) result) \<Rightarrow> string \<Rightarrow> 'c dns_rule list"
where
  "parse_rules re_build line =
     (case parse_rule re_build line of
        None \<Rightarrow> []
      | Some r \<Rightarrow>
          (case pattern r of
             Wildcard sfx \<Rightarrow>
               if \<not> noapex r
               then [r, \<lparr>pattern = Exact sfx, action = action r,
                        important = important r, noapex = False\<rparr>]
               else [r]
           | _ \<Rightarrow> [r]))"

section \<open>Evaluation (filter/evaluator.rs)\<close>

fun priority_of :: "bool \<Rightarrow> rule_action \<Rightarrow> int" where
  "priority_of True Allow = 3"
| "priority_of True Block = 2"
| "priority_of False Allow = 1"
| "priority_of False Block = 0"

abbreviation rule_priority :: "'c dns_rule \<Rightarrow> int" where
  "rule_priority r \<equiv> priority_of (important r) (action r)"

fun priority_loop ::
  "('c \<Rightarrow> string \<Rightarrow> bool) \<Rightarrow> string \<Rightarrow> (int \<times> 'c dns_rule) option \<Rightarrow> 'c dns_rule list
     \<Rightarrow> (int \<times> 'c dns_rule) option"
where
  "priority_loop re_is_match domain best [] = best"
| "priority_loop re_is_match domain best (r # rs) =
     (let p = rule_priority r
      in if (case best of Some (bp, _) \<Rightarrow> p \<le> bp | None \<Rightarrow> False)
         then priority_loop re_is_match domain best rs
         else if rule_matches re_is_match r domain
         then (if p = 3 then Some (p, r)
               else priority_loop re_is_match domain (Some (p, r)) rs)
         else priority_loop re_is_match domain best rs)"

definition priority_scan ::
  "('c \<Rightarrow> string \<Rightarrow> bool) \<Rightarrow> 'c dns_rule list \<Rightarrow> string \<Rightarrow> (int \<times> 'c dns_rule) option"
where
  "priority_scan re_is_match rules domain =
     (if rules = [] then None else priority_loop re_is_match domain None rules)"

fun action_result :: "rule_action \<Rightarrow> filter_result" where
  "action_result Allow = Forward"
| "action_result Block = BlockQuery"

definition evaluate_rules ::
  "('c \<Rightarrow> string \<Rightarrow> bool) \<Rightarrow> string \<Rightarrow> 'c dns_rule list \<Rightarrow> filter_result option"
where
  "evaluate_rules re_is_match domain rules =
     map_option (\<lambda>(_, r). action_result (action r)) (priority_scan re_is_match rules domain)"

section \<open>The scan returns the first rule of the strongest matching tier\<close>

text \<open>What the loop does with its kept rule when a rule matches.\<close>

definition keep_stronger :: "'c dns_rule option \<Rightarrow> 'c dns_rule \<Rightarrow> 'c dns_rule option" where
  "keep_stronger best r =
     (case best of
        None \<Rightarrow> Some r
      | Some b \<Rightarrow> if rule_priority r \<le> rule_priority b then Some b else Some r)"

interpretation scan: ranked_choice rule_priority keep_stronger
  by unfold_locales (auto simp: keep_stronger_def)

lemma priority_of_le_3: "priority_of i a \<le> 3"
  by (cases "(i, a)" rule: priority_of.cases) auto

lemma priority_loop_eq:
  "priority_loop re d (map_option (\<lambda>r. (rule_priority r, r)) b) rs =
     map_option (\<lambda>r. (rule_priority r, r))
       (foldl keep_stronger b (filter (\<lambda>r. rule_matches re r d) rs))"
proof (induction rs arbitrary: b)
  case Nil
  show ?case by simp
next
  case (Cons r rs)
  have top: "foldl keep_stronger (Some r) (filter (\<lambda>r. rule_matches re r d) rs) = Some r"
    if "rule_priority r = 3"
    using that priority_of_le_3 by (intro scan.foldl_pick_absorb) (simp add: not_less)
  show ?case
    using Cons.IH [of b] Cons.IH [of "Some r"] top
    by (cases b) (auto simp: scan.pick_None scan.pick_Some Let_def)
qed

lemma priority_scan_strongest:
  "priority_scan re rules d =
     map_option (\<lambda>r. (rule_priority r, r))
       (strongest keep_stronger (filter (\<lambda>r. rule_matches re r d) rules))"
  using priority_loop_eq [of re d None rules] by (simp add: priority_scan_def strongest_def)

lemma filter_split_lift:
  assumes "filter P xs = us @ y # vs"
  shows "\<exists>as bs. xs = as @ y # bs \<and> filter P as = us \<and> filter P bs = vs"
  using assms
proof (induction xs arbitrary: us)
  case (Cons x xs)
  show ?case
  proof (cases "P x \<and> us = []")
    case True
    then have "x # xs = [] @ y # xs" "filter P xs = vs" using Cons.prems by auto
    then show ?thesis using True by fastforce
  next
    case False
    then have "filter P xs = (if P x then tl us else us) @ y # vs"
      using Cons.prems by (cases us) auto
    then obtain as bs where "xs = as @ y # bs"
        "filter P as = (if P x then tl us else us)" "filter P bs = vs"
      using Cons.IH by blast
    moreover have "P x \<Longrightarrow> us = x # tl us" using Cons.prems False by (cases us) auto
    ultimately have "x # xs = (x # as) @ y # bs" "filter P (x # as) = us" by auto
    then show ?thesis using \<open>filter P bs = vs\<close> by blast
  qed
qed simp

lemma priority_scan_None_iff:
  "priority_scan re rules d = None \<longleftrightarrow> (\<forall>r \<in> set rules. \<not> rule_matches re r d)"
  by (auto simp: priority_scan_strongest scan.strongest_None_iff filter_empty_conv
)

lemma priority_scan_Some:
  assumes "priority_scan re rules d = Some (p, r)"
  shows "p = rule_priority r" and "r \<in> set rules" and "rule_matches re r d"
    and "r' \<in> set rules \<Longrightarrow> rule_matches re r' d \<Longrightarrow> rule_priority r' \<le> p"
proof -
  have s: "strongest keep_stronger (filter (\<lambda>r. rule_matches re r d) rules) = Some r"
    and p: "p = rule_priority r"
    using assms by (auto simp: priority_scan_strongest)
  show "p = rule_priority r" by (rule p)
  show "r \<in> set rules" "rule_matches re r d"
    using scan.strongest_member(1) [OF s] by auto
  show "r' \<in> set rules \<Longrightarrow> rule_matches re r' d \<Longrightarrow> rule_priority r' \<le> p"
    using scan.strongest_member(2) [OF s, of r'] p by auto
qed

text \<open>C20. The priority scan returns a matching rule of the highest matching
  tier, and among the rules of that tier the one written first; it returns
  nothing exactly when no rule matches.\<close>

theorem priority_scan_correct:
  "case priority_scan re rules d of
     None \<Rightarrow> \<forall>r \<in> set rules. \<not> rule_matches re r d
   | Some (p, r) \<Rightarrow>
       rule_matches re r d \<and> p = rule_priority r \<and>
       (\<exists>earlier later. rules = earlier @ r # later
          \<and> (\<forall>x \<in> set earlier. rule_matches re x d \<longrightarrow> rule_priority x < p)
          \<and> (\<forall>x \<in> set later. rule_matches re x d \<longrightarrow> rule_priority x \<le> p))"
proof (cases "priority_scan re rules d")
  case None
  then show ?thesis using priority_scan_None_iff [of re rules d] by simp
next
  case (Some pr)
  obtain p r where pr: "pr = (p, r)" by (cases pr)
  have s: "strongest keep_stronger (filter (\<lambda>r. rule_matches re r d) rules) = Some r"
    and p: "p = rule_priority r"
    using Some pr by (auto simp: priority_scan_strongest)
  obtain us vs where f: "filter (\<lambda>r. rule_matches re r d) rules = us @ r # vs"
    and us: "\<forall>x \<in> set us. rule_priority x < p" and vs: "\<forall>x \<in> set vs. rule_priority x \<le> p"
    using scan.strongest_first [OF s] p by auto
  obtain as bs where ab: "rules = as @ r # bs"
    "filter (\<lambda>r. rule_matches re r d) as = us" "filter (\<lambda>r. rule_matches re r d) bs = vs"
    using filter_split_lift [OF f] by blast
  have "\<forall>x \<in> set as. rule_matches re x d \<longrightarrow> rule_priority x < p"
    "\<forall>x \<in> set bs. rule_matches re x d \<longrightarrow> rule_priority x \<le> p"
    using ab us vs by (auto)
  then show ?thesis
    using Some pr p ab(1) priority_scan_Some(3) [of re rules d p r]
    by simp blast
qed

text \<open>A deny, then two allows of one tier; the first of the two allows wins.\<close>

definition sample_deny :: "unit dns_rule" where
  "sample_deny = \<lparr>pattern = Exact ''b.c'', action = Block, important = False, noapex = False\<rparr>"

definition sample_allow :: "unit dns_rule" where
  "sample_allow = \<lparr>pattern = Wildcard ''c'', action = Allow, important = False, noapex = False\<rparr>"

definition sample_rules :: "unit dns_rule list" where
  "sample_rules = [sample_deny, sample_allow, sample_allow\<lparr>pattern := Exact ''c''\<rparr>]"

lemma priority_scan_sample:
  "priority_scan (\<lambda>_ _. False) sample_rules ''a.b.c'' = Some (1, sample_allow)"
  by (simp add: priority_scan_def rule_matches_def is_subdomain_of_def suffix_def
      sample_rules_def sample_deny_def sample_allow_def)

theorem priority_scan_correct_witness:
  "rule_matches (\<lambda>_ _. False) sample_allow ''a.b.c'' \<and>
   (\<exists>earlier later. sample_rules = earlier @ sample_allow # later
      \<and> (\<forall>x \<in> set earlier. rule_matches (\<lambda>_ _. False) x ''a.b.c'' \<longrightarrow> rule_priority x < 1)
      \<and> (\<forall>x \<in> set later. rule_matches (\<lambda>_ _. False) x ''a.b.c'' \<longrightarrow> rule_priority x \<le> 1))"
  using priority_scan_correct [where re = "\<lambda>_ _. False" and rules = sample_rules and d = "''a.b.c''"]
  by (simp add: priority_scan_sample)

section \<open>Parsed rules are well formed\<close>

definition rule_wf :: "'c dns_rule \<Rightarrow> bool" where
  "rule_wf r =
     (case pattern r of
        Exact d \<Rightarrow> is_valid_domain d \<and> to_ascii_lowercase d = d \<and> \<not> noapex r
      | Wildcard d \<Rightarrow> is_valid_domain d \<and> to_ascii_lowercase d = d
      | Regex source _ \<Rightarrow> source \<noteq> [] \<and> CHR ''/'' \<notin> set source \<and> \<not> important r \<and> \<not> noapex r)"

lemma parse_regex_body_wf:
  assumes "parse_regex_body re_build act rest = Inr r"
  shows "rule_wf r" and "action r = act"
proof -
  obtain n where n: "find_char (CHR ''/'') rest = Some n"
    using assms by (auto simp: parse_regex_body_def split: option.splits)
  then show "rule_wf r" "action r = act"
    using assms find_char_SomeD(2) [OF n]
    by (auto simp: parse_regex_body_def rule_wf_def Let_def warden_ok)
qed

lemma parse_domain_body_wf:
  assumes "parse_domain_body act s = Inr r"
  shows "rule_wf r" and "action r = act"
  using assms
  by (auto simp: parse_domain_body_def parse_domain_pattern_def rule_wf_def Let_def warden_ok
      split: option.splits if_splits)

lemma parse_rule_checked_wf:
  assumes "parse_rule_checked re_build line = Inr r"
  shows "rule_wf r"
  using assms parse_regex_body_wf parse_domain_body_wf
  by (auto simp: parse_rule_checked_def Let_def split: option.splits if_splits)

text \<open>Every rule the parser hands to the engine, the apex rule it adds to
  a wildcard included, is well formed: domain patterns are valid lower-case
  names, a regex has a non-empty slash-free source and carries no modifier, and
  only a wildcard rule can be marked \<open>noapex\<close>.\<close>

theorem parse_rules_well_formed:
  "r \<in> set (parse_rules re_build line) \<Longrightarrow> rule_wf r"
proof -
  assume r: "r \<in> set (parse_rules re_build line)"
  then obtain r0 where r0: "parse_rule_checked re_build line = Inr r0"
    by (cases "parse_rule_checked re_build line") (auto simp: parse_rules_def parse_rule_def)
  then show "rule_wf r"
    using r parse_rule_checked_wf [OF r0]
    by (auto simp: parse_rules_def parse_rule_def rule_wf_def
        split: rule_pattern.splits if_splits)
qed

theorem parse_rules_well_formed_witness:
  "\<exists>r \<in> set (parse_rules (\<lambda>_. Inl []) ''||*.Ads.example^''). pattern r = Exact ''ads.example'' \<and> rule_wf (r :: unit dns_rule)"
proof -
  let ?r = "\<lparr>pattern = Exact ''ads.example'', action = Block, important = False, noapex = False\<rparr> :: unit dns_rule"
  have "?r \<in> set (parse_rules (\<lambda>_. Inl []) ''||*.Ads.example^'')"
    by code_simp
  then show ?thesis
    using parse_rules_well_formed [where r = ?r and re_build = "\<lambda>_. Inl []" and line = "''||*.Ads.example^''"]
    by (intro bexI [of _ ?r]) simp_all
qed

section \<open>Printing and parsing\<close>

text \<open>The texts of the admin grammar, from the parts of a rule.\<close>

definition modifier_text :: "bool \<Rightarrow> bool \<Rightarrow> string" where
  "modifier_text imp apx =
     (if imp \<and> apx then ''$important,noapex''
      else if imp then ''$important''
      else if apx then ''$noapex'' else [])"

definition domain_rule_text :: "rule_action \<Rightarrow> bool \<Rightarrow> string \<Rightarrow> bool \<Rightarrow> bool \<Rightarrow> string" where
  "domain_rule_text act wild d imp apx =
     (if act = Allow then ''@@'' else []) @ ''||'' @ (if wild then ''*.'' else []) @ d @ ''^''
       @ modifier_text imp apx"

lemma trim_modifiers [simp]:
  "trim ''important'' = ''important''" "trim ''noapex'' = ''noapex''"
  by (rule trim_id, simp add: ws_free_def whitespace_seqs_def)+

lemma trim_domain_rule_text [simp]:
  "trim (domain_rule_text act wild d imp apx) = domain_rule_text act wild d imp apx"
  by (rule trim_id) (auto simp: domain_rule_text_def modifier_text_def ws_free_def whitespace_seqs_def)


lemma valid_domain_punct:
  assumes "is_valid_domain d"
  shows "CHR ''$'' \<notin> set d" "CHR ''*'' \<notin> set d" "CHR ''^'' \<notin> set d"
    "CHR ''/'' \<notin> set d" "CHR ''|'' \<notin> set d"
  by (rule is_valid_domain_excludes [OF assms], simp add: domain_byte_def ascii_defs)+

lemma strip_suffix_snoc [simp]: "strip_suffix [c] (xs @ [c]) = Some xs"
  by (simp add: strip_suffix_def)

lemma strip_prefix_Cons [simp]:
  "strip_prefix [c] (x # xs) = (if c = x then Some xs else None)"
  "strip_prefix (c # p) (x # xs) = (if c = x then strip_prefix p xs else None)"
  "strip_prefix [] xs = Some xs"
  by (auto simp: strip_prefix_def)

lemma parse_modifier_texts:
  "parse_modifiers (split_on (CHR '','') ''important,noapex'') (False, False) = Inr (True, True)"
  "parse_modifiers (split_on (CHR '','') ''important'') (False, False) = Inr (True, False)"
  "parse_modifiers (split_on (CHR '','') ''noapex'') (False, False) = Inr (False, True)"
  by simp_all

lemma strip_wildcard_valid:
  "is_valid_domain d \<Longrightarrow> strip_prefix ''*.'' d = None"
  using valid_domain_punct(2) [of d] by (cases d) (auto simp: strip_prefix_def)

lemma split_modifiers_text:
  assumes "CHR ''$'' \<notin> set body"
  shows "split_modifiers (body @ modifier_text imp apx) = Inr ((imp, apx), body)"
  using find_char_append_Cons [OF assms] assms parse_modifier_texts
  by (cases imp; cases apx)
    (simp_all add: split_modifiers_def modifier_text_def find_char_None_iff [THEN iffD2])

lemma parse_domain_pattern_text:
  assumes "is_valid_domain d"
  shows "parse_domain_pattern act imp apx ((if wild then ''*.'' else []) @ d @ ''^'')
    = Inr \<lparr>pattern = (if wild then Wildcard (to_ascii_lowercase d) else Exact (to_ascii_lowercase d)),
           action = act, important = imp, noapex = wild \<and> apx\<rparr>"
proof -
  have "strip_suffix ''^'' ((if wild then ''*.'' else []) @ d @ ''^'')
      = Some ((if wild then ''*.'' else []) @ d)"
    using strip_suffix_snoc [of "CHR ''^''" "(if wild then ''*.'' else []) @ d"] by simp
  then show ?thesis
    using assms strip_wildcard_valid [OF assms] valid_domain_punct(2) [OF assms]
      is_valid_domain_ne [OF assms]
    by (cases wild) (simp_all add: parse_domain_pattern_def)
qed

lemma parse_domain_body_text:
  assumes "is_valid_domain d"
  shows "parse_domain_body act (''||'' @ ((if wild then ''*.'' else []) @ d @ ''^'') @ modifier_text imp apx)
    = Inr \<lparr>pattern = (if wild then Wildcard (to_ascii_lowercase d) else Exact (to_ascii_lowercase d)),
           action = act, important = imp, noapex = wild \<and> apx\<rparr>"
proof -
  have "CHR ''$'' \<notin> set ((if wild then ''*.'' else []) @ d @ ''^'')"
    using valid_domain_punct(1) [OF assms] by auto
  from split_modifiers_text [OF this, of imp apx] show ?thesis
    using parse_domain_pattern_text [OF assms, of act imp apx wild]
    by (simp add: parse_domain_body_def)
qed

text \<open>C21. Printing a domain rule in the admin grammar and parsing it gives the
  rule back, with the name in lower case, for every action, pattern form and
  combination of modifiers.\<close>

theorem parse_domain_rule_roundtrip:
  assumes "is_valid_domain d"
  shows "parse_rule_checked re_build (domain_rule_text act wild d imp apx) =
    Inr \<lparr>pattern = (if wild then Wildcard (to_ascii_lowercase d) else Exact (to_ascii_lowercase d)),
         action = act, important = imp, noapex = wild \<and> apx\<rparr>"
proof -
  let ?t = "''||'' @ ((if wild then ''*.'' else []) @ d @ ''^'') @ modifier_text imp apx"
  have "domain_rule_text act wild d imp apx = (if act = Allow then ''@@'' else []) @ ?t"
    by (simp add: domain_rule_text_def)
  then show ?thesis
    using parse_domain_body_text [OF assms, of act wild imp apx]
      trim_domain_rule_text [of act wild d imp apx]
    by (cases act) (simp_all add: parse_rule_checked_def)
qed

theorem parse_domain_rule_roundtrip_witness:
  "is_valid_domain ''Ads.example'' \<and>
   parse_rule_checked (\<lambda>_. Inl []) ''@@||*.Ads.example^$important'' =
     (Inr \<lparr>pattern = Wildcard ''ads.example'', action = Allow, important = True, noapex = False\<rparr>
       :: (rule_parse_error, unit dns_rule) result)"
proof -
  have v: "is_valid_domain ''Ads.example''" by code_simp
  have t: "domain_rule_text Allow True ''Ads.example'' True False = ''@@||*.Ads.example^$important''"
    "to_ascii_lowercase ''Ads.example'' = ''ads.example''"
    by code_simp+
  show ?thesis
    using v parse_domain_rule_roundtrip [OF v, of "\<lambda>_. Inl []" Allow True True False]
    by (simp add: t)
qed

end
