(* ===== verification/Sorted_Search.thy ===== *)
theory Sorted_Search
  imports Warden_Prelude
begin

text \<open>
  Lookup by key in a slice sorted by key, as \<open>slice::binary_search_by\<close> does it:
  the domain shards of \<open>filter/engine.rs\<close> and the pack and profile tables of
  \<open>filter/operator_rules/compiler.rs\<close> are such slices.  On strictly ascending
  keys the search finds exactly the entries of the slice.
\<close>

text \<open>The loop of \<open>slice::binary_search_by\<close> and its final comparison.\<close>

function bsearch_loop :: "('k::linorder \<times> 'v) list \<Rightarrow> 'k \<Rightarrow> nat \<Rightarrow> nat \<Rightarrow> nat" where
  "bsearch_loop es key base sz =
     (if 1 < sz
      then let half = sz div 2; mid = base + half
           in bsearch_loop es key (if key < fst (es ! mid) then base else mid) (sz - half)
      else base)"
  by pat_completeness auto
termination
  by (relation "measure (\<lambda>(_, _, _, sz). sz)") auto

declare bsearch_loop.simps [simp del]

definition binary_search :: "('k::linorder \<times> 'v) list \<Rightarrow> 'k \<Rightarrow> (nat, nat) result" where
  "binary_search es key =
     (if es = [] then Inl 0
      else let base = bsearch_loop es key 0 (length es)
           in if fst (es ! base) = key then Inr base
              else Inl (base + (if fst (es ! base) < key then 1 else 0)))"

text \<open>\<open>.binary_search_by(..).ok().map(|pos| slice[pos].1)\<close>\<close>

definition sorted_find :: "('k::linorder \<times> 'v) list \<Rightarrow> 'k \<Rightarrow> 'v option" where
  "sorted_find es key = map_option (\<lambda>pos. snd (es ! pos)) (result_ok (binary_search es key))"

definition strictly_ascending :: "('k::linorder \<times> 'v) list \<Rightarrow> bool" where
  "strictly_ascending es \<longleftrightarrow> sorted_wrt (<) (map fst es)"

lemma strictly_ascending_less:
  "strictly_ascending es \<Longrightarrow> i < j \<Longrightarrow> j < length es \<Longrightarrow> fst (es ! i) < fst (es ! j)"
  using sorted_wrt_nth_less [of "(<)" "map fst es" i j] by (simp add: strictly_ascending_def)

lemma strictly_ascending_distinct: "strictly_ascending es \<Longrightarrow> distinct (map fst es)"
  by (simp add: strictly_ascending_def strict_sorted_iff)

lemma bsearch_loop_range:
  "0 < sz \<Longrightarrow> base \<le> bsearch_loop es key base sz \<and> bsearch_loop es key base sz < base + sz"
proof (induction es key base sz rule: bsearch_loop.induct)
  case (1 es key base sz)
  show ?case
  proof (cases "1 < sz")
    case True
    let ?half = "sz div 2"
    let ?base = "if key < fst (es ! (base + ?half)) then base else base + ?half"
    have half: "0 < ?half" "?half < sz" using True by auto
    have "?base \<le> bsearch_loop es key ?base (sz - ?half)
        \<and> bsearch_loop es key ?base (sz - ?half) < ?base + (sz - ?half)"
      using 1(1) [OF True refl refl] half by simp
    moreover have "bsearch_loop es key base sz = bsearch_loop es key ?base (sz - ?half)"
      using True by (subst bsearch_loop.simps) (simp add: Let_def)
    moreover have "base \<le> ?base" "?base + (sz - ?half) \<le> base + sz" using half by simp_all
    ultimately show ?thesis by (metis le_trans less_le_trans)
  next
    case False
    then have "bsearch_loop es key base sz = base" by (subst bsearch_loop.simps) simp
    then show ?thesis using 1(2) by simp
  qed
qed

lemma bsearch_loop_finds:
  assumes "strictly_ascending es" "i < length es" "fst (es ! i) = key"
    and "base \<le> i" "i < base + sz" "base + sz \<le> length es"
  shows "bsearch_loop es key base sz = i"
  using assms
proof (induction es key base sz rule: bsearch_loop.induct)
  case (1 es key base sz)
  show ?case
  proof (cases "1 < sz")
    case True
    let ?half = "sz div 2"
    let ?base = "if key < fst (es ! (base + ?half)) then base else base + ?half"
    have half: "0 < ?half" "?half < sz" "base + ?half < length es" using True 1(7) by auto
    have side: "key < fst (es ! (base + ?half)) \<longleftrightarrow> i < base + ?half"
    proof (cases "i < base + ?half")
      case True
      then show ?thesis using strictly_ascending_less [OF 1(2) _ half(3)] 1(4) by blast
    next
      case False
      then have "fst (es ! (base + ?half)) \<le> fst (es ! i)"
        using strictly_ascending_less [OF 1(2) _ 1(3), of "base + ?half"] by (cases "base + ?half = i") auto
      then show ?thesis using False 1(4) by (simp add: not_less)
    qed
    have "?base \<le> i" "i < ?base + (sz - ?half)" "?base + (sz - ?half) \<le> length es"
      unfolding side using 1(5-7) half by auto
    then have "bsearch_loop es key ?base (sz - ?half) = i"
      using 1(1) [OF True refl refl 1(2-4)] by simp
    moreover have "bsearch_loop es key base sz = bsearch_loop es key ?base (sz - ?half)"
      using True by (subst bsearch_loop.simps) (simp add: Let_def)
    ultimately show ?thesis by simp
  next
    case False
    then show ?thesis using 1(5,6) by (subst bsearch_loop.simps) simp
  qed
qed

lemma binary_search_hit:
  assumes "strictly_ascending es" "i < length es"
  shows "binary_search es (fst (es ! i)) = Inr i"
proof -
  have "bsearch_loop es (fst (es ! i)) 0 (length es) = i"
    using assms by (intro bsearch_loop_finds) auto
  then show ?thesis using assms by (auto simp: binary_search_def Let_def)
qed

lemma binary_search_Inr:
  assumes "binary_search es key = Inr i"
  shows "i < length es" and "fst (es ! i) = key"
  using assms bsearch_loop_range [of "length es" 0 es key]
  by (auto simp: binary_search_def Let_def split: if_splits)

lemma sorted_find_map_of:
  assumes "strictly_ascending es"
  shows "sorted_find es key = map_of es key"
proof (cases "map_of es key")
  case None
  then have "key \<notin> fst ` set es" by (simp add: map_of_eq_None_iff)
  then have "binary_search es key \<noteq> Inr i" for i
    using binary_search_Inr [of es key i] by (metis image_eqI nth_mem)
  then show ?thesis using None by (cases "binary_search es key") (auto simp: sorted_find_def)
next
  case (Some v)
  then obtain i where i: "i < length es" "es ! i = (key, v)"
    using map_of_SomeD in_set_conv_nth by metis
  then have "binary_search es key = Inr i"
    using binary_search_hit [OF assms i(1)] by simp
  then show ?thesis using Some i by (simp add: sorted_find_def)
qed

section \<open>Ordered maps\<close>

text \<open>\<open>BTreeMap::insert\<close> on the ascending list of its entries.\<close>

fun bt_insert :: "'k::linorder \<Rightarrow> 'v \<Rightarrow> ('k \<times> 'v) list \<Rightarrow> ('k \<times> 'v) list" where
  "bt_insert k v [] = [(k, v)]"
| "bt_insert k v ((k', v') # rest) =
     (if k < k' then (k, v) # (k', v') # rest
      else if k = k' then (k, v) # rest
      else (k', v') # bt_insert k v rest)"

lemma set_fst_bt_insert: "fst ` set (bt_insert k v m) = insert k (fst ` set m)"
proof (induction m)
  case (Cons e m)
  then show ?case by (cases e) (simp add: insert_commute)
qed simp

lemma strictly_ascending_Cons:
  "strictly_ascending ((k, v) # m) \<longleftrightarrow> (\<forall>k' \<in> fst ` set m. k < k') \<and> strictly_ascending m"
  by (simp add: strictly_ascending_def)

lemma strictly_ascending_Nil [simp]: "strictly_ascending []"
  by (simp add: strictly_ascending_def)

lemma strictly_ascending_bt_insert:
  "strictly_ascending m \<Longrightarrow> strictly_ascending (bt_insert k v m)"
proof (induction m)
  case (Cons e m)
  obtain k' v' where e: "e = (k', v')" by (cases e)
  show ?case using Cons
    by (auto simp: e strictly_ascending_Cons set_fst_bt_insert simp del: set_map
        dest: order_less_trans)
qed (simp add: strictly_ascending_Cons)

lemma map_of_bt_insert:
  "strictly_ascending m \<Longrightarrow> map_of (bt_insert k v m) = (map_of m)(k \<mapsto> v)"
proof (induction m)
  case (Cons e m)
  obtain k' v' where e: "e = (k', v')" by (cases e)
  show ?case using Cons by (auto simp: e strictly_ascending_Cons fun_upd_twist)
qed simp

end
