(* ===== verification/Domain_Shards.thy ===== *)
theory Domain_Shards
  imports Domain_Names Sorted_Search
begin

unbundle bit_operations_syntax

text \<open>
  The downloaded-list corpus of \<open>filter/engine.rs\<close>: list policies (which list
  bits allow and which block, per profile), sorted shards with binary search,
  and the engine's table of sixteen shards.

  Not under the repository's sources and therefore parameters: the \<open>ahash\<close>
  hash of a key (\<open>hash\<close>).  The memory estimate kept beside the entries is
  diagnostics and is left out.  The process-wide generation counter is passed
  as a value.
\<close>

section \<open>Policies\<close>

record profile_masks =
  pm_allow :: u64
  pm_block :: u64

definition RESTRICTIVE :: profile_masks where
  "RESTRICTIVE = \<lparr>pm_allow = 0, pm_block = - 1\<rparr>"

definition INERT :: profile_masks where
  "INERT = \<lparr>pm_allow = 0, pm_block = 0\<rparr>"

definition is_inert :: "profile_masks \<Rightarrow> bool" where
  "is_inert m \<longleftrightarrow> pm_allow m = 0 \<and> pm_block m = 0"

record policy_masks =
  pol_base :: profile_masks
  pol_per_profile :: "string \<rightharpoonup> profile_masks"

definition policy_masks_default :: policy_masks where
  "policy_masks_default = \<lparr>pol_base = RESTRICTIVE, pol_per_profile = Map.empty\<rparr>"

record list_policy =
  lp_per_profile :: "string \<rightharpoonup> profile_masks"
  lp_base :: profile_masks
  lp_fallback :: profile_masks
  lp_gen_id :: u64

record domain_masks =
  allow_mask :: u64
  block_mask :: u64

definition masks_default :: domain_masks where
  "masks_default = \<lparr>allow_mask = 0, block_mask = 0\<rparr>"

definition block_only :: "u64 \<Rightarrow> domain_masks" where
  "block_only b = \<lparr>allow_mask = 0, block_mask = b\<rparr>"

definition masks_is_empty :: "domain_masks \<Rightarrow> bool" where
  "masks_is_empty m \<longleftrightarrow> allow_mask m = 0 \<and> block_mask m = 0"

text \<open>\<open>FILTER_GEN_ID.fetch_add(1)\<close>: the issued id and the counter after it.\<close>

definition next_gen_id :: "u64 \<Rightarrow> u64 \<times> u64" where
  "next_gen_id counter = (counter, counter + 1)"

definition derived :: "policy_masks \<Rightarrow> u64 \<Rightarrow> list_policy" where
  "derived masks gen =
     \<lparr>lp_per_profile = pol_per_profile masks, lp_base = pol_base masks,
      lp_fallback = RESTRICTIVE, lp_gen_id = gen\<rparr>"

definition publish :: "policy_masks \<Rightarrow> u64 \<Rightarrow> list_policy \<times> u64" where
  "publish masks counter = (let (gen, counter') = next_gen_id counter in (derived masks gen, counter'))"

definition uniform :: "u64 \<Rightarrow> u64 \<Rightarrow> list_policy" where
  "uniform allow_bits gen =
     (let split = \<lparr>pm_allow = allow_bits, pm_block = NOT allow_bits\<rparr>
      in \<lparr>lp_per_profile = Map.empty, lp_base = split, lp_fallback = split, lp_gen_id = gen\<rparr>)"

definition publish_uniform :: "u64 \<Rightarrow> u64 \<Rightarrow> list_policy \<times> u64" where
  "publish_uniform allow_bits counter =
     (let (gen, counter') = next_gen_id counter in (uniform allow_bits gen, counter'))"

definition inert_policy :: list_policy where
  "inert_policy =
     \<lparr>lp_per_profile = Map.empty, lp_base = RESTRICTIVE, lp_fallback = RESTRICTIVE, lp_gen_id = 0\<rparr>"

definition masks_for :: "list_policy \<Rightarrow> string \<Rightarrow> profile_masks" where
  "masks_for p profile = unwrap_or (lp_fallback p) (lp_per_profile p profile)"

definition split_base :: "list_policy \<Rightarrow> u64 \<Rightarrow> domain_masks" where
  "split_base p bits =
     \<lparr>allow_mask = bits AND pm_allow (lp_base p), block_mask = bits AND pm_block (lp_base p)\<rparr>"

section \<open>Sorted shards\<close>

record sorted_shard =
  entries :: "(string \<times> u64) list"
  policy :: list_policy

record shard_order_error =
  err_index :: nat
  err_previous :: string
  err_offending :: string
  err_duplicate :: bool

definition shard_empty :: sorted_shard where
  "shard_empty = \<lparr>entries = [], policy = inert_policy\<rparr>"

text \<open>\<open>entries.windows(2).position(|w| w[0].0 >= w[1].0)\<close>, with the two keys found there.\<close>

fun first_descent :: "nat \<Rightarrow> (string \<times> u64) list \<Rightarrow> (nat \<times> string \<times> string) option" where
  "first_descent i ((a, _) # (b, y) # rest) =
     (if b \<le> a then Some (i, a, b) else first_descent (i + 1) ((b, y) # rest))"
| "first_descent i _ = None"

definition from_sorted_entries ::
  "(string \<times> u64) list \<Rightarrow> list_policy \<Rightarrow> (shard_order_error, sorted_shard) result"
where
  "from_sorted_entries es pol =
     (case first_descent 0 es of
        Some (pos, a, b) \<Rightarrow>
          Inl \<lparr>err_index = pos + 1, err_previous = a, err_offending = b, err_duplicate = (a = b)\<rparr>
      | None \<Rightarrow> Inr \<lparr>entries = es, policy = pol\<rparr>)"

text \<open>\<open>dedup_by\<close> with the merging closure: the kept element absorbs equal successors.\<close>

fun dedup_merge :: "(string \<times> u64) list \<Rightarrow> (string \<times> u64) list" where
  "dedup_merge ((k, b) # (k', b') # rest) =
     (if k' = k then dedup_merge ((k, b OR b') # rest)
      else (k, b) # dedup_merge ((k', b') # rest))"
| "dedup_merge xs = xs"

definition union_allow :: "(string \<times> domain_masks) list \<Rightarrow> u64" where
  "union_allow pairs = foldl (\<lambda>acc (_, m). acc OR allow_mask m) 0 pairs"

definition conflicting_bits :: "(string \<times> domain_masks) list \<Rightarrow> u64" where
  "conflicting_bits pairs =
     foldl (\<lambda>acc (_, m). acc OR (block_mask m AND union_allow pairs)) 0 pairs"

definition pair_bits :: "string \<times> domain_masks \<Rightarrow> string \<times> u64" where
  "pair_bits = (\<lambda>(d, m). (d, allow_mask m OR block_mask m))"

definition from_pairs :: "(string \<times> domain_masks) list \<Rightarrow> u64 \<Rightarrow> sorted_shard" where
  "from_pairs pairs gen =
     \<lparr>entries = dedup_merge (sort_key fst (map pair_bits pairs)),
      policy = uniform (union_allow pairs) gen\<rparr>"

definition shard_find :: "sorted_shard \<Rightarrow> string \<Rightarrow> u64 option" where
  "shard_find s key = sorted_find (entries s) key"

section \<open>The engine's table of shards\<close>

definition DOMAIN_SHARDS :: nat where
  "DOMAIN_SHARDS = 16"

record filter_engine =
  shards :: "sorted_shard list"

definition shard_index :: "(string \<Rightarrow> u64) \<Rightarrow> string \<Rightarrow> nat" where
  "shard_index hash key = unat (drop_bit 32 (hash key)) mod DOMAIN_SHARDS"

definition engine_new :: filter_engine where
  "engine_new = \<lparr>shards = replicate DOMAIN_SHARDS shard_empty\<rparr>"

fun push_bucket ::
  "(string \<Rightarrow> u64) \<Rightarrow> (string \<times> domain_masks) list list \<Rightarrow> string \<times> domain_masks
     \<Rightarrow> (string \<times> domain_masks) list list"
where
  "push_bucket hash buckets (d, m) =
     (let i = shard_index hash d in buckets[i := buckets ! i @ [(d, m)]])"

definition partition_entries ::
  "(string \<Rightarrow> u64) \<Rightarrow> (string \<times> domain_masks) list \<Rightarrow> u64 \<Rightarrow> sorted_shard list \<times> u64"
where
  "partition_entries hash es counter =
     (let buckets = foldl (push_bucket hash) (replicate DOMAIN_SHARDS []) es;
          (gen, counter') = next_gen_id counter
      in (map (\<lambda>b. from_pairs b gen) buckets, counter'))"

definition from_shard_maps :: "sorted_shard list \<Rightarrow> filter_engine" where
  "from_shard_maps maps = \<lparr>shards = maps\<rparr>"

text \<open>\<open>ArcSwap::store\<close> on one cell.  \<open>swap_shard_sorted\<close> indexes the fixed table, so
  an index outside it panics (\<^term>\<open>None\<close>).\<close>

definition store_shard :: "filter_engine \<Rightarrow> nat \<Rightarrow> sorted_shard \<Rightarrow> filter_engine" where
  "store_shard eng i s = eng\<lparr>shards := (shards eng)[i := s]\<rparr>"

definition swap_shard_sorted :: "filter_engine \<Rightarrow> nat \<Rightarrow> sorted_shard \<Rightarrow> filter_engine option" where
  "swap_shard_sorted eng i s =
     (if i < length (shards eng) then Some (store_shard eng i s) else None)"

text \<open>One store per shard, in index order; the engine after \<open>n\<close> of the stores is
  what a reader may see during a reload.\<close>

definition store_first :: "filter_engine \<Rightarrow> sorted_shard list \<Rightarrow> nat \<Rightarrow> filter_engine" where
  "store_first eng maps n =
     foldl (\<lambda>e i. store_shard e i (maps ! i)) eng [0..<n]"

definition store_shard_maps :: "filter_engine \<Rightarrow> sorted_shard list \<Rightarrow> filter_engine" where
  "store_shard_maps eng maps = store_first eng maps (length maps)"

definition install_prepared_shards :: "filter_engine \<Rightarrow> filter_engine \<Rightarrow> filter_engine" where
  "install_prepared_shards eng prepared =
     store_first eng (shards prepared) (min (length (shards eng)) (length (shards prepared)))"

definition with_per_direction_domain_map ::
  "(string \<Rightarrow> u64) \<Rightarrow> (string \<times> domain_masks) list \<Rightarrow> u64 \<Rightarrow> filter_engine \<times> u64"
where
  "with_per_direction_domain_map hash m counter =
     (let (maps, counter') = partition_entries hash m counter in (from_shard_maps maps, counter'))"

definition with_domain_map ::
  "(string \<Rightarrow> u64) \<Rightarrow> (string \<times> u64) list \<Rightarrow> u64 \<Rightarrow> filter_engine \<times> u64"
where
  "with_domain_map hash m counter =
     with_per_direction_domain_map hash (map (\<lambda>(d, b). (d, block_only b)) m) counter"

definition with_domains :: "(string \<Rightarrow> u64) \<Rightarrow> string list \<Rightarrow> u64 \<Rightarrow> filter_engine \<times> u64" where
  "with_domains hash ds counter =
     with_per_direction_domain_map hash (map (\<lambda>d. (d, block_only 1)) ds) counter"

definition swap_domain_map ::
  "(string \<Rightarrow> u64) \<Rightarrow> filter_engine \<Rightarrow> (string \<times> u64) list \<Rightarrow> u64 \<Rightarrow> filter_engine \<times> u64"
where
  "swap_domain_map hash eng m counter =
     (let (maps, counter') = partition_entries hash (map (\<lambda>(d, b). (d, block_only b)) m) counter
      in (store_shard_maps eng maps, counter'))"

definition swap_blocklist ::
  "(string \<Rightarrow> u64) \<Rightarrow> filter_engine \<Rightarrow> string list \<Rightarrow> u64 \<Rightarrow> filter_engine \<times> u64"
where
  "swap_blocklist hash eng ds counter =
     (let (maps, counter') = partition_entries hash (map (\<lambda>d. (d, block_only 1)) ds) counter
      in (store_shard_maps eng maps, counter'))"

definition domain_count :: "filter_engine \<Rightarrow> nat" where
  "domain_count eng = sum_list (map (length \<circ> entries) (shards eng))"

definition filter_gen_ids :: "filter_engine \<Rightarrow> u64 list" where
  "filter_gen_ids eng = map (lp_gen_id \<circ> policy) (shards eng)"

section \<open>Probing and the membership walk\<close>

definition probe_shard :: "(string \<Rightarrow> u64) \<Rightarrow> filter_engine \<Rightarrow> string \<Rightarrow> string \<Rightarrow> domain_masks option" where
  "probe_shard hash eng key profile =
     (let s = shards eng ! shard_index hash key; m = masks_for (policy s) profile
      in if is_inert m then None
         else map_option (\<lambda>bits. \<lparr>allow_mask = bits AND pm_allow m, block_mask = bits AND pm_block m\<rparr>)
                (shard_find s key))"

definition probe_shard_base :: "(string \<Rightarrow> u64) \<Rightarrow> filter_engine \<Rightarrow> string \<Rightarrow> domain_masks option" where
  "probe_shard_base hash eng key =
     (let s = shards eng ! shard_index hash key
      in map_option (split_base (policy s)) (shard_find s key))"

definition or_masks :: "domain_masks \<Rightarrow> domain_masks option \<Rightarrow> domain_masks" where
  "or_masks acc probed =
     (case probed of
        None \<Rightarrow> acc
      | Some m \<Rightarrow> \<lparr>allow_mask = allow_mask acc OR allow_mask m,
                   block_mask = block_mask acc OR block_mask m\<rparr>)"

fun walk_suffixes :: "(string \<Rightarrow> domain_masks option) \<Rightarrow> domain_masks \<Rightarrow> string \<Rightarrow> domain_masks" where
  "walk_suffixes probe acc [] = acc"
| "walk_suffixes probe acc (b # rest) =
     (if b = CHR ''.'' \<and> rest \<noteq> [] then walk_suffixes probe (or_masks acc (probe rest)) rest
      else walk_suffixes probe acc rest)"

definition walk_membership :: "(string \<Rightarrow> domain_masks option) \<Rightarrow> string \<Rightarrow> domain_masks" where
  "walk_membership probe domain =
     walk_suffixes probe (or_masks masks_default (probe domain)) domain"

definition list_membership :: "(string \<Rightarrow> u64) \<Rightarrow> filter_engine \<Rightarrow> string \<Rightarrow> domain_masks" where
  "list_membership hash eng domain = walk_membership (probe_shard_base hash eng) domain"

definition list_membership_for ::
  "(string \<Rightarrow> u64) \<Rightarrow> filter_engine \<Rightarrow> string \<Rightarrow> string \<Rightarrow> domain_masks"
where
  "list_membership_for hash eng domain profile =
     walk_membership (\<lambda>key. probe_shard hash eng key profile) domain"

definition is_blocked :: "(string \<Rightarrow> u64) \<Rightarrow> filter_engine \<Rightarrow> string \<Rightarrow> bool" where
  "is_blocked hash eng domain \<longleftrightarrow> block_mask (list_membership hash eng domain) \<noteq> 0"

section \<open>Accepted shards\<close>

lemma first_descent_None_iff: "first_descent i es = None \<longleftrightarrow> strictly_ascending es"
proof (induction i es rule: first_descent.induct)
  case (1 i a x b y rest)
  have "strictly_ascending ((a, x) # (b, y) # rest) \<longleftrightarrow> a < b \<and> strictly_ascending ((b, y) # rest)"
    by (auto simp: strictly_ascending_def dest: order_less_trans)
  then show ?case using 1 by auto
qed (simp_all add: strictly_ascending_def)

lemma first_descent_Some:
  assumes "first_descent i es = Some (p, a, b)"
  shows "\<exists>k. p = i + k \<and> k + 1 < length es \<and> fst (es ! k) = a \<and> fst (es ! (k + 1)) = b \<and> b \<le> a
    \<and> strictly_ascending (take (k + 1) es)"
  using assms
proof (induction i es rule: first_descent.induct)
  case (1 i c x d y rest)
  show ?case
  proof (cases "d \<le> c")
    case True
    then show ?thesis using 1(2) by (auto simp: strictly_ascending_def)
  next
    case False
    then obtain k where k: "p = i + 1 + k" "k + 1 < length ((d, y) # rest)"
      "fst (((d, y) # rest) ! k) = a" "fst (((d, y) # rest) ! (k + 1)) = b" "b \<le> a"
      "strictly_ascending (take (k + 1) ((d, y) # rest))"
      using 1 by auto
    have "strictly_ascending (take (Suc k + 1) ((c, x) # (d, y) # rest))"
      using k(6) False by (auto simp: strictly_ascending_def dest: order_less_trans)
    then show ?thesis using k by (intro exI [of _ "Suc k"]) simp
  qed
qed simp_all

lemma shard_find_map_of:
  "strictly_ascending (entries s) \<Longrightarrow> shard_find s key = map_of (entries s) key"
  by (simp add: shard_find_def sorted_find_map_of)

text \<open>C14. A shard is accepted exactly when its entries are strictly ascending,
  and an accepted shard's binary search finds exactly its entries.  A refused
  shard reports the first position that is not ascending, the two keys there
  and whether they are equal.\<close>

theorem from_sorted_entries_correct:
  "case from_sorted_entries es pol of
     Inr s \<Rightarrow> strictly_ascending es \<and> policy s = pol \<and> (\<forall>key. shard_find s key = map_of es key)
   | Inl e \<Rightarrow>
       (\<exists>k. k + 1 < length es \<and> err_index e = k + 1
          \<and> err_previous e = fst (es ! k) \<and> err_offending e = fst (es ! (k + 1))
          \<and> err_offending e \<le> err_previous e
          \<and> (err_duplicate e \<longleftrightarrow> err_previous e = err_offending e)
          \<and> strictly_ascending (take (k + 1) es))"
proof (cases "first_descent 0 es")
  case None
  then show ?thesis
    using first_descent_None_iff [of 0 es] by (simp add: from_sorted_entries_def shard_find_map_of)
next
  case (Some r)
  obtain p a b where "r = (p, a, b)" by (cases r)
  then show ?thesis
    using Some first_descent_Some [of 0 es p a b] by (auto simp: from_sorted_entries_def)
qed

section \<open>Building shards\<close>

text \<open>The union of the bits recorded for a key.\<close>

fun or_bits :: "(string \<times> u64) list \<Rightarrow> string \<Rightarrow> u64 option" where
  "or_bits [] k = None"
| "or_bits ((k', b) # rest) k =
     (if k' = k then Some (b OR unwrap_or 0 (or_bits rest k)) else or_bits rest k)"

lemma or_bits_None_iff: "or_bits es k = None \<longleftrightarrow> k \<notin> fst ` set es"
  by (induction es) (auto split: if_splits)

lemma bit_or_bits:
  "bit (unwrap_or 0 (or_bits es k)) n \<longleftrightarrow> (\<exists>b. (k, b) \<in> set es \<and> bit b n)"
  by (induction es) (auto simp: bit_or_iff split: if_splits)

lemma or_bits_cong_set:
  assumes "set xs = set ys"
  shows "or_bits xs k = or_bits ys k"
proof (cases "or_bits xs k")
  case None
  then show ?thesis using assms by (metis or_bits_None_iff)
next
  case (Some v)
  then obtain w where w: "or_bits ys k = Some w"
    using assms or_bits_None_iff [of xs k] or_bits_None_iff [of ys k]
    by (cases "or_bits ys k") auto
  have "bit v n \<longleftrightarrow> bit w n" for n
    using bit_or_bits [of xs k n] bit_or_bits [of ys k n] Some w assms by simp
  then show ?thesis using Some w by (simp add: bit_eq_iff)
qed

lemma or_bits_distinct: "distinct (map fst es) \<Longrightarrow> or_bits es k = map_of es k"
proof (induction es)
  case (Cons e es)
  then show ?case
    using or_bits_None_iff [of es k] by (cases e) auto
qed simp

lemma or_bits_dedup_merge [simp]: "or_bits (dedup_merge es) k = or_bits es k"
  by (induction es rule: dedup_merge.induct) (auto simp: or.assoc)

lemma set_dedup_merge: "fst ` set (dedup_merge es) = fst ` set es"
  by (induction es rule: dedup_merge.induct) auto

lemma strictly_ascending_dedup_merge:
  "sorted (map fst es) \<Longrightarrow> strictly_ascending (dedup_merge es)"
proof (induction es rule: dedup_merge.induct)
  case (1 k b k' b' rest)
  show ?case
  proof (cases "k' = k")
    case True
    then show ?thesis using 1 by simp
  next
    case False
    then have "strictly_ascending (dedup_merge ((k', b') # rest))" using 1 by simp
    moreover have "k < x" if "x \<in> fst ` set (dedup_merge ((k', b') # rest))" for x
    proof -
      have "x \<in> insert k' (fst ` set rest)" using that by (simp only: set_dedup_merge) simp
      then show ?thesis using 1(3) False by (force simp: le_less)
    qed
    ultimately show ?thesis using False by (simp add: strictly_ascending_def)
  qed
qed (simp_all add: strictly_ascending_def)

lemma from_pairs_ascending: "strictly_ascending (entries (from_pairs ps gen))"
  by (simp add: from_pairs_def strictly_ascending_dedup_merge)

lemma shard_find_from_pairs: "shard_find (from_pairs ps gen) k = or_bits (map pair_bits ps) k"
proof -
  have "shard_find (from_pairs ps gen) k = or_bits (entries (from_pairs ps gen)) k"
    using from_pairs_ascending [of ps gen]
    by (simp add: shard_find_map_of or_bits_distinct strictly_ascending_distinct)
  also have "\<dots> = or_bits (map pair_bits ps) k"
    by (simp add: from_pairs_def) (rule or_bits_cong_set, simp)
  finally show ?thesis .
qed

text \<open>
  The contract of a store of list bits: whatever pairs it is built from, a
  lookup returns the union of the bits recorded for the key.  Both the single
  shard and the engine's hashed table provide it.
\<close>

locale mask_store =
  fixes build :: "(string \<times> domain_masks) list \<Rightarrow> 's"
    and find :: "'s \<Rightarrow> string \<Rightarrow> u64 option"
  assumes find_build: "find (build ps) k = or_bits (map pair_bits ps) k"
begin

lemma find_absent: "k \<notin> fst ` set ps \<Longrightarrow> find (build ps) k = None"
  by (force simp: find_build or_bits_None_iff pair_bits_def)

lemma find_distinct:
  assumes "distinct (map fst ps)" "(k, m) \<in> set ps"
  shows "find (build ps) k = Some (allow_mask m OR block_mask m)"
proof -
  have "distinct (map fst (map pair_bits ps))"
    using assms(1) by (simp add: pair_bits_def case_prod_beta comp_def)
  then show ?thesis
    using assms by (force simp: find_build or_bits_distinct pair_bits_def)
qed

text \<open>The order in which a hash map is iterated while building does not matter.\<close>

lemma find_order_irrelevant: "set ps = set qs \<Longrightarrow> find (build ps) k = find (build qs) k"
  by (simp add: find_build) (rule or_bits_cong_set, simp)

lemma find_bit:
  "bit (unwrap_or 0 (find (build ps) k)) n \<longleftrightarrow>
     (\<exists>m. (k, m) \<in> set ps \<and> (bit (allow_mask m) n \<or> bit (block_mask m) n))"
  by (force simp: find_build bit_or_bits pair_bits_def bit_or_iff)

end

interpretation one_shard: mask_store "\<lambda>ps. from_pairs ps gen" shard_find
  by unfold_locales (rule shard_find_from_pairs)

section \<open>The hashed table is a store as well\<close>

definition engine_find :: "(string \<Rightarrow> u64) \<Rightarrow> filter_engine \<Rightarrow> string \<Rightarrow> u64 option" where
  "engine_find hash eng key = shard_find (shards eng ! shard_index hash key) key"

lemma shard_index_less [simp]: "shard_index hash key < DOMAIN_SHARDS"
  by (simp add: shard_index_def DOMAIN_SHARDS_def)

lemma length_push_buckets [simp]: "length (foldl (push_bucket hash) bs es) = length bs"
  by (induction es arbitrary: bs) (auto simp: Let_def)

lemma nth_push_buckets:
  assumes "length bs = DOMAIN_SHARDS" "i < DOMAIN_SHARDS"
  shows "foldl (push_bucket hash) bs es ! i = bs ! i @ filter (\<lambda>(d, _). shard_index hash d = i) es"
  using assms
proof (induction es arbitrary: bs)
  case (Cons e es)
  obtain d m where e: "e = (d, m)" by (cases e)
  show ?case using Cons.prems Cons.IH [of "push_bucket hash bs e"]
    by (auto simp: e Let_def nth_list_update)
qed simp

lemma partition_entries_nth:
  assumes "i < DOMAIN_SHARDS"
  shows "fst (partition_entries hash ps counter) ! i =
    from_pairs (filter (\<lambda>(d, _). shard_index hash d = i) ps) counter"
  using assms by (simp add: partition_entries_def next_gen_id_def nth_push_buckets)

lemma length_partition_entries [simp]:
  "length (fst (partition_entries hash ps counter)) = DOMAIN_SHARDS"
  by (simp add: partition_entries_def next_gen_id_def)

lemma or_bits_own_shard:
  "or_bits (map pair_bits (filter (\<lambda>(d, _). shard_index hash d = shard_index hash k) ps)) k
     = or_bits (map pair_bits ps) k"
  by (induction ps) (auto simp: pair_bits_def)

lemma shards_with_per_direction:
  "i < DOMAIN_SHARDS \<Longrightarrow>
   shards (fst (with_per_direction_domain_map hash ps counter)) ! i =
     from_pairs (filter (\<lambda>(d, _). shard_index hash d = i) ps) counter"
  using partition_entries_nth [of i hash ps counter]
  by (simp add: with_per_direction_domain_map_def from_shard_maps_def case_prod_beta)

interpretation hashed: mask_store
  "\<lambda>ps. fst (with_per_direction_domain_map hash ps counter)" "engine_find hash"
  by unfold_locales
    (simp add: engine_find_def shards_with_per_direction one_shard.find_build or_bits_own_shard)

section \<open>The membership walk\<close>

lemma walk_suffixes_fold:
  "walk_suffixes probe acc d = foldl (\<lambda>a s. or_masks a (probe s)) acc (dot_suffixes d)"
  by (induction d arbitrary: acc) auto

lemma walk_membership_fold:
  "walk_membership probe d = foldl (\<lambda>a s. or_masks a (probe s)) masks_default (walk_keys d)"
  by (simp add: walk_membership_def walk_suffixes_fold walk_keys_def)

lemma bit_foldl_or_masks:
  "bit (allow_mask (foldl (\<lambda>a s. or_masks a (probe s)) acc ks)) n \<longleftrightarrow>
     bit (allow_mask acc) n \<or> (\<exists>s \<in> set ks. \<exists>m. probe s = Some m \<and> bit (allow_mask m) n)"
  "bit (block_mask (foldl (\<lambda>a s. or_masks a (probe s)) acc ks)) n \<longleftrightarrow>
     bit (block_mask acc) n \<or> (\<exists>s \<in> set ks. \<exists>m. probe s = Some m \<and> bit (block_mask m) n)"
  by (induction ks arbitrary: acc) (auto simp: or_masks_def bit_or_iff split: option.splits)

lemma bit_walk_membership:
  "bit (allow_mask (walk_membership probe d)) n \<longleftrightarrow>
     (\<exists>s m. covers s d \<and> probe s = Some m \<and> bit (allow_mask m) n)"
  "bit (block_mask (walk_membership probe d)) n \<longleftrightarrow>
     (\<exists>s m. covers s d \<and> probe s = Some m \<and> bit (block_mask m) n)"
  by (auto simp: walk_membership_fold bit_foldl_or_masks set_walk_keys masks_default_def)

lemma bit_union_allow:
  "bit (union_allow ps) n \<longleftrightarrow> (\<exists>d m. (d, m) \<in> set ps \<and> bit (allow_mask m) n)"
proof -
  have "bit (foldl (\<lambda>acc (_, m). acc OR allow_mask m) w ps) n \<longleftrightarrow>
      bit w n \<or> (\<exists>x \<in> set ps. bit (allow_mask (snd x)) n)" for w
    by (induction ps arbitrary: w) (auto simp: bit_or_iff)
  then show ?thesis by (force simp: union_allow_def)
qed

lemma bit_conflicting_bits:
  "bit (conflicting_bits ps) n \<longleftrightarrow>
     (\<exists>d m. (d, m) \<in> set ps \<and> bit (block_mask m) n) \<and> bit (union_allow ps) n"
proof -
  have "bit (foldl (\<lambda>acc (_, m). acc OR (block_mask m AND u)) w ps) n \<longleftrightarrow>
      bit w n \<or> (\<exists>x \<in> set ps. bit (block_mask (snd x)) n) \<and> bit u n" for w u
    by (induction ps arbitrary: w) (auto simp: bit_or_iff bit_and_iff)
  then show ?thesis by (force simp: conflicting_bits_def)
qed

text \<open>Without a bit used in both directions, a probe returns the masks of the key.\<close>

lemma probe_base_built:
  assumes "conflicting_bits ps = 0"
    and "probe_shard_base hash (fst (with_per_direction_domain_map hash ps counter)) k = Some m"
  shows "bit (allow_mask m) n \<longleftrightarrow> (\<exists>m'. (k, m') \<in> set ps \<and> bit (allow_mask m') n)"
    and "bit (block_mask m) n \<longleftrightarrow> (\<exists>m'. (k, m') \<in> set ps \<and> bit (block_mask m') n)"
proof -
  let ?i = "shard_index hash k"
  let ?b = "filter (\<lambda>(d, _). shard_index hash d = ?i) ps"
  obtain bits where bits: "shard_find (from_pairs ?b counter) k = Some bits"
    and m: "m = split_base (uniform (union_allow ?b) counter) bits"
    using assms(2) by (auto simp: probe_shard_base_def shards_with_per_direction Let_def from_pairs_def)
  have has: "bit bits n \<longleftrightarrow> (\<exists>m'. (k, m') \<in> set ps \<and> (bit (allow_mask m') n \<or> bit (block_mask m') n))"
    using one_shard.find_bit [where ps = ?b and gen = counter and k = k and n = n] bits by auto
  have clash: "\<not> (bit (block_mask m') n \<and> bit (union_allow ?b) n)" if "(k, m') \<in> set ps" for m'
    using assms(1) that bit_conflicting_bits [of ps n]
    by (auto simp: word_eq_0_bit bit_union_allow)
  have own: "bit (union_allow ?b) n" if "(k, m') \<in> set ps" "bit (allow_mask m') n" for m'
    using that by (auto simp: bit_union_allow)
  have n: "n < 64" if "bit w n" for w :: u64
    using bit_imp_le_length [OF that] by simp
  show "bit (allow_mask m) n \<longleftrightarrow> (\<exists>m'. (k, m') \<in> set ps \<and> bit (allow_mask m') n)"
    using has clash own m by (auto simp: split_base_def uniform_def Let_def bit_and_iff)
  show "bit (block_mask m) n \<longleftrightarrow> (\<exists>m'. (k, m') \<in> set ps \<and> bit (block_mask m') n)"
    using has clash own m n by (auto simp: split_base_def uniform_def Let_def bit_and_iff bit_not_iff)
qed

lemma probe_base_built_ex:
  "(k, m') \<in> set ps \<Longrightarrow>
   \<exists>m. probe_shard_base hash (fst (with_per_direction_domain_map hash ps counter)) k = Some m"
proof -
  assume "(k, m') \<in> set ps"
  then have "k \<in> fst ` set (map pair_bits ps)"
    by (force simp: pair_bits_def)
  then have "or_bits (map pair_bits ps) k \<noteq> None"
    by (simp add: or_bits_None_iff)
  then have "engine_find hash (fst (with_per_direction_domain_map hash ps counter)) k \<noteq> None"
    by (simp add: hashed.find_build)
  then show ?thesis by (auto simp: probe_shard_base_def engine_find_def Let_def)
qed

text \<open>An engine built from a map of per-domain masks answers membership for
  a name by the union of the masks of every listed name that covers it, in each
  direction, whatever the hash function spreads the names over and in whatever
  order the map is iterated, provided no list bit is used in both directions.\<close>

theorem list_membership_built:
  assumes "conflicting_bits ps = 0"
  shows "let m = list_membership hash (fst (with_per_direction_domain_map hash ps counter)) d
    in (bit (allow_mask m) n \<longleftrightarrow> (\<exists>s m'. (s, m') \<in> set ps \<and> covers s d \<and> bit (allow_mask m') n))
     \<and> (bit (block_mask m) n \<longleftrightarrow> (\<exists>s m'. (s, m') \<in> set ps \<and> covers s d \<and> bit (block_mask m') n))"
  unfolding Let_def list_membership_def bit_walk_membership
  using probe_base_built [OF assms, of hash counter] probe_base_built_ex [of _ _ ps hash counter]
  by metis

theorem list_membership_built_witness:
  "conflicting_bits [(''ads.example'', block_only 1), (''ok.ads.example'', \<lparr>allow_mask = 2, block_mask = 0\<rparr>)] = 0
   \<and> bit (block_mask (list_membership (\<lambda>s. of_nat (length s) * 4294967296)
        (fst (with_per_direction_domain_map (\<lambda>s. of_nat (length s) * 4294967296)
          [(''ads.example'', block_only 1), (''ok.ads.example'', \<lparr>allow_mask = 2, block_mask = 0\<rparr>)] 7))
        ''x.ads.example'')) 0"
proof -
  let ?h = "\<lambda>s :: string. of_nat (length s) * 4294967296 :: u64"
  let ?ps = "[(''ads.example'', block_only 1), (''ok.ads.example'', \<lparr>allow_mask = 2, block_mask = 0\<rparr>)]"
  have c: "conflicting_bits ?ps = 0"
    by (simp add: conflicting_bits_def union_allow_def block_only_def)
  have "covers ''ads.example'' ''x.ads.example''"
    by (simp add: covers_def is_subdomain_of_def suffix_def)
  moreover have "bit (block_mask (block_only 1)) 0" by (simp add: block_only_def)
  ultimately show ?thesis
    using c list_membership_built [OF c, where hash = ?h and counter = 7 and d = "''x.ads.example''" and n = 0]
    unfolding Let_def by auto
qed

section \<open>Installed generations\<close>

text \<open>A corpus installed shard by shard: every shard holds the part of the corpus
  that hashes to it, accepted by \<open>from_sorted_entries\<close>, under one published policy.\<close>

definition installed ::
  "(string \<Rightarrow> u64) \<Rightarrow> (string \<times> u64) list \<Rightarrow> list_policy \<Rightarrow> filter_engine \<Rightarrow> bool"
where
  "installed hash corpus pol eng \<longleftrightarrow>
     length (shards eng) = DOMAIN_SHARDS \<and>
     (\<forall>i < DOMAIN_SHARDS.
        from_sorted_entries (filter (\<lambda>(d, _). shard_index hash d = i) corpus) pol = Inr (shards eng ! i))"

lemma from_sorted_entries_Inr:
  "from_sorted_entries es pol = Inr s \<longleftrightarrow> strictly_ascending es \<and> s = \<lparr>entries = es, policy = pol\<rparr>"
  using first_descent_None_iff [of 0 es] by (auto simp: from_sorted_entries_def split: option.splits)

lemma map_of_own_shard:
  "map_of (filter (\<lambda>(d, _). shard_index hash d = shard_index hash k) corpus) k = map_of corpus k"
  by (induction corpus) auto

lemma installed_shard:
  assumes "installed hash corpus pol eng"
  shows "policy (shards eng ! shard_index hash k) = pol"
    and "shard_find (shards eng ! shard_index hash k) k = map_of corpus k"
  using assms
  by (auto simp: installed_def from_sorted_entries_Inr shard_find_map_of map_of_own_shard)

lemma installed_distinct:
  assumes "installed hash corpus pol eng" "(k, b) \<in> set corpus"
  shows "map_of corpus k = Some b"
proof -
  let ?es = "filter (\<lambda>(d, _). shard_index hash d = shard_index hash k) corpus"
  have "strictly_ascending ?es"
    using assms(1) by (auto simp: installed_def from_sorted_entries_Inr)
  then have "map_of ?es k = Some b"
    using assms(2) by (intro map_of_is_SomeI strictly_ascending_distinct) auto
  then show ?thesis by (simp only: map_of_own_shard)
qed

lemma probe_shard_installed:
  assumes "installed hash corpus pol eng"
  shows "probe_shard hash eng k profile =
    (let m = masks_for pol profile
     in if is_inert m then None
        else map_option (\<lambda>bits. \<lparr>allow_mask = bits AND pm_allow m, block_mask = bits AND pm_block m\<rparr>)
               (map_of corpus k))"
  using installed_shard [OF assms, of k] by (simp add: probe_shard_def Let_def)

lemma list_membership_for_bits:
  assumes "installed hash corpus pol eng"
  shows "bit (allow_mask (list_membership_for hash eng d profile)) n \<longleftrightarrow>
      bit (pm_allow (masks_for pol profile)) n \<and> (\<exists>s b. (s, b) \<in> set corpus \<and> covers s d \<and> bit b n)"
    and "bit (block_mask (list_membership_for hash eng d profile)) n \<longleftrightarrow>
      bit (pm_block (masks_for pol profile)) n \<and> (\<exists>s b. (s, b) \<in> set corpus \<and> covers s d \<and> bit b n)"
  using installed_distinct [OF assms]
  unfolding list_membership_for_def bit_walk_membership probe_shard_installed [OF assms] Let_def is_inert_def
  by (auto simp: bit_and_iff dest: map_of_SomeD) (metis map_of_SomeD bit_0_eq bot_apply)+

text \<open>C12. For an installed generation the profile-aware membership of a name is
  the union of the bits of every listed name that covers it, cut down to the
  bits the profile's own masks allow or block; a list outside both masks never
  shows up in either direction.\<close>

theorem list_membership_for_installed:
  assumes "installed hash corpus pol eng"
  shows "(bit (allow_mask (list_membership_for hash eng d profile)) n \<longleftrightarrow>
      bit (pm_allow (masks_for pol profile)) n \<and> (\<exists>s b. (s, b) \<in> set corpus \<and> covers s d \<and> bit b n))
    \<and> (bit (block_mask (list_membership_for hash eng d profile)) n \<longleftrightarrow>
      bit (pm_block (masks_for pol profile)) n \<and> (\<exists>s b. (s, b) \<in> set corpus \<and> covers s d \<and> bit b n))"
  using list_membership_for_bits [OF assms] by blast

lemma strictly_ascending_filter: "strictly_ascending es \<Longrightarrow> strictly_ascending (filter P es)"
  unfolding strictly_ascending_def by (simp add: sorted_wrt_map sorted_wrt_filter)

lemma installed_from_sorted:
  assumes "strictly_ascending corpus"
  shows "installed hash corpus pol
    \<lparr>shards = map (\<lambda>i. \<lparr>entries = filter (\<lambda>(d, _). shard_index hash d = i) corpus, policy = pol\<rparr>)
               [0..<DOMAIN_SHARDS]\<rparr>"
  using assms by (simp add: installed_def from_sorted_entries_Inr strictly_ascending_filter)

theorem list_membership_for_installed_witness:
  "\<exists>eng. installed (\<lambda>s. of_nat (length s) * 4294967296) [(''ads.example'', 3)]
       (derived policy_masks_default 1) eng
     \<and> bit (block_mask (list_membership_for (\<lambda>s. of_nat (length s) * 4294967296) eng ''x.ads.example'' ''kids'')) 0"
proof -
  let ?h = "\<lambda>s :: string. of_nat (length s) * 4294967296 :: u64"
  let ?pol = "derived policy_masks_default 1"
  obtain eng where eng: "installed ?h [(''ads.example'', 3)] ?pol eng"
    using installed_from_sorted [of "[(''ads.example'', 3)]" ?h ?pol]
    by (auto simp: strictly_ascending_def)
  have "covers ''ads.example'' ''x.ads.example''"
    by (simp add: covers_def is_subdomain_of_def suffix_def)
  moreover have "bit (pm_block (masks_for ?pol ''kids'')) 0" "bit (3 :: u64) 0"
    by (simp_all add: masks_for_def derived_def policy_masks_default_def RESTRICTIVE_def)
  ultimately have "bit (block_mask (list_membership_for ?h eng ''x.ads.example'' ''kids'')) 0"
    using list_membership_for_installed [OF eng, where d = "''x.ads.example''" and profile = "''kids''" and n = 0]
    by auto
  then show ?thesis using eng by blast
qed

section \<open>Reloads\<close>

lemma length_shards_store_first [simp]:
  "length (shards (store_first eng maps n)) = length (shards eng)"
  by (induction n) (simp_all add: store_first_def store_shard_def)

lemma nth_store_first:
  assumes "n \<le> length (shards eng)" "i < length (shards eng)"
  shows "shards (store_first eng maps n) ! i = (if i < n then maps ! i else shards eng ! i)"
  using assms
proof (induction n)
  case 0
  show ?case by (simp add: store_first_def)
next
  case (Suc n)
  have "store_first eng maps (Suc n) = store_shard (store_first eng maps n) n (maps ! n)"
    by (simp add: store_first_def)
  then show ?case
    using Suc by (auto simp: store_shard_def nth_list_update less_Suc_eq)
qed

text \<open>C13. While a reload stores its shards one by one, every probe of one key
  answers either entirely from the old generation or entirely from the new one:
  from the new one exactly when the key's shard has been stored.  When the last
  shard is stored the engine answers as the new generation.\<close>

theorem reload_is_never_torn:
  assumes "length (shards eng) = DOMAIN_SHARDS" "length maps = DOMAIN_SHARDS" "n \<le> DOMAIN_SHARDS"
  shows "probe_shard hash (store_first eng maps n) key profile =
      (if shard_index hash key < n then probe_shard hash (from_shard_maps maps) key profile
       else probe_shard hash eng key profile)
    \<and> probe_shard hash (store_shard_maps eng maps) key profile =
      probe_shard hash (from_shard_maps maps) key profile"
  using assms nth_store_first [of n eng "shard_index hash key" maps]
    nth_store_first [of DOMAIN_SHARDS eng "shard_index hash key" maps]
  by (simp add: probe_shard_def store_shard_maps_def from_shard_maps_def)

theorem reload_is_never_torn_witness:
  "probe_shard (\<lambda>_. 0) (store_first engine_new
       (fst (partition_entries (\<lambda>_. 0) [(''a.b'', block_only 1)] 5)) 1) ''a.b'' ''p''
     = probe_shard (\<lambda>_. 0)
         (from_shard_maps (fst (partition_entries (\<lambda>_. 0) [(''a.b'', block_only 1)] 5))) ''a.b'' ''p''"
  using reload_is_never_torn [where eng = engine_new and n = 1 and hash = "\<lambda>_. 0"
      and maps = "fst (partition_entries (\<lambda>_. 0) [(''a.b'', block_only 1)] 5)" and key = "''a.b''"
      and profile = "''p''"]
  by (simp add: engine_new_def shard_index_def DOMAIN_SHARDS_def)

end
