(* ===== verification/Std_Text.thy ===== *)
theory Std_Text
  imports Warden_Prelude
begin

text \<open>
  Lines of a text as Rust's \<open>str::lines\<close> and \<open>str::split_inclusive\<close> cut them, the body a
  writer makes of lines, and how the two compose: a line that is written and read back is
  the same up to one trailing carriage return, which \<open>str::trim\<close> removes anyway.
\<close>

definition newline :: char where
  "newline = CHR 0x0A"

fun split_inclusive :: "string \<Rightarrow> string list" where
  "split_inclusive [] = []"
| "split_inclusive (c # cs) =
     (if c = newline then [c] # split_inclusive cs
      else case split_inclusive cs of [] \<Rightarrow> [[c]] | p # ps \<Rightarrow> (c # p) # ps)"

definition carriage_return :: char where
  "carriage_return = CHR 0x0D"

definition line_text :: "string \<Rightarrow> string" where
  "line_text p =
     (case strip_suffix [newline] p of
        None \<Rightarrow> p
      | Some l \<Rightarrow> unwrap_or l (strip_suffix [carriage_return] l))"

definition str_lines :: "string \<Rightarrow> string list" where
  "str_lines s = map line_text (split_inclusive s)"

text \<open>\<open>lines.join("\n")\<close>, with a final newline when that is not empty.\<close>

definition body_of :: "string list \<Rightarrow> string" where
  "body_of ls = (let body = join_with newline ls in if body \<noteq> [] then body @ [newline] else body)"

section \<open>Written lines are read back\<close>

definition strip_cr :: "string \<Rightarrow> string" where
  "strip_cr l = unwrap_or l (strip_suffix [carriage_return] l)"

lemma split_inclusive_line:
  "newline \<notin> set l \<Longrightarrow> split_inclusive (l @ newline # rest) = (l @ [newline]) # split_inclusive rest"
  by (induction l) auto

lemma strip_suffix_snoc1: "strip_suffix [c] (xs @ [c]) = Some xs"
  by (simp add: strip_suffix_def)

lemma line_text_snoc: "line_text (l @ [newline]) = strip_cr l"
  by (simp add: line_text_def strip_suffix_snoc1 strip_cr_def)

lemma str_lines_join:
  assumes "\<forall>l \<in> set ls. newline \<notin> set l" "ls \<noteq> []"
  shows "str_lines (join_with newline ls @ [newline]) = map strip_cr ls"
  using assms
proof (induction ls)
  case (Cons l ls)
  show ?case
  proof (cases "ls = []")
    case True
    then show ?thesis using Cons.prems split_inclusive_line [of l "[]"] by (simp add: str_lines_def line_text_snoc)
  next
    case False
    then show ?thesis
      using Cons split_inclusive_line [of l "join_with newline ls @ [newline]"]
      by (simp add: join_with_Cons str_lines_def line_text_snoc)
  qed
qed simp

text \<open>Reading back a body loses nothing, except that a single empty line is an empty file.\<close>

lemma str_lines_body_of:
  assumes "\<forall>l \<in> set ls. newline \<notin> set l" "ls \<noteq> [[]]"
  shows "str_lines (body_of ls) = map strip_cr ls"
proof (cases "join_with newline ls = []")
  case True
  then have "ls = []" using assms(2) by (cases ls; cases "tl ls") (auto simp: join_with_Cons)
  then show ?thesis by (simp add: body_of_def str_lines_def)
next
  case False
  then have "ls \<noteq> []" by auto
  then show ?thesis using False str_lines_join [OF assms(1)] by (simp add: body_of_def Let_def)
qed

lemma split_inclusive_pieces:
  "p \<in> set (split_inclusive s) \<Longrightarrow> newline \<notin> set p \<or> (\<exists>l. p = l @ [newline] \<and> newline \<notin> set l)"
proof (induction s arbitrary: p)
  case (Cons c s)
  show ?case
  proof (cases "c = newline")
    case True
    then show ?thesis using Cons by auto
  next
    case False
    show ?thesis
    proof (cases "split_inclusive s")
      case Nil
      then show ?thesis using False Cons.prems by auto
    next
      case (Cons q qs)
      then have q: "newline \<notin> set q \<or> (\<exists>l. q = l @ [newline] \<and> newline \<notin> set l)" using Cons.IH by simp
      show ?thesis
      proof (cases "p = c # q")
        case True
        then show ?thesis using q False by (auto intro: exI [of _ "c # l" for l])
      next
        case False
        then show ?thesis using \<open>c \<noteq> newline\<close> Cons Cons.prems Cons.IH [of p] by auto
      qed
    qed
  qed
qed simp

lemma strip_suffix_subset: "strip_suffix t s = Some r \<Longrightarrow> set r \<subseteq> set s"
  by (auto simp: strip_suffix_def dest: in_set_takeD split: if_splits)

lemma str_lines_no_newline: "l \<in> set (str_lines s) \<Longrightarrow> newline \<notin> set l"
proof -
  assume "l \<in> set (str_lines s)"
  then obtain p where p: "p \<in> set (split_inclusive s)" "l = line_text p" by (auto simp: str_lines_def)
  from split_inclusive_pieces [OF p(1)] show ?thesis
  proof
    assume n: "newline \<notin> set p"
    then have "strip_suffix [newline] p = None"
      by (auto simp: strip_suffix_def suffix_def)
    then show ?thesis using n p(2) by (simp add: line_text_def)
  next
    assume "\<exists>k. p = k @ [newline] \<and> newline \<notin> set k"
    then obtain k where k: "p = k @ [newline]" "newline \<notin> set k" by blast
    then show ?thesis
      using p(2) strip_suffix_subset [of "[carriage_return]" k]
      by (cases "strip_suffix [carriage_return] k") (auto simp: line_text_snoc strip_cr_def)
  qed
qed

section \<open>Trimming removes the carriage return\<close>

lemma whitespace_cr:
  "w \<in> set whitespace_seqs \<Longrightarrow> carriage_return \<in> set w \<Longrightarrow> w = [carriage_return]"
  "[carriage_return] \<in> set whitespace_seqs"
  by (auto simp: whitespace_seqs_def carriage_return_def)

lemma prefix_snoc_cr:
  assumes "w \<in> set whitespace_seqs" "s \<noteq> []"
  shows "prefix w (s @ [carriage_return]) \<longleftrightarrow> prefix w s"
proof
  assume p: "prefix w (s @ [carriage_return])"
  show "prefix w s"
  proof (cases "carriage_return \<in> set w")
    case True
    then show ?thesis using whitespace_cr(1) [OF assms(1)] p assms(2) by (cases s) auto
  next
    case False
    then show ?thesis using p by (auto simp: prefix_snoc)
  qed
qed simp

lemma find_cong_set: "(\<And>x. x \<in> set xs \<Longrightarrow> P x = Q x) \<Longrightarrow> find P xs = find Q xs"
  by (induction xs) auto

lemma find_ws_cr: "find (\<lambda>w. prefix w (carriage_return # s)) (map rev whitespace_seqs) = Some [carriage_return]"
  by (simp add: whitespace_seqs_def carriage_return_def)

lemma drop_seqs_snoc_cr:
  "length s \<le> n \<Longrightarrow> drop_seqs whitespace_seqs (Suc n) (s @ [carriage_return]) =
     (let r = drop_seqs whitespace_seqs n s in if r = [] then [] else r @ [carriage_return])"
proof (induction n arbitrary: s)
  case 0
  then show ?case by (simp add: whitespace_seqs_def carriage_return_def)
next
  case (Suc n)
  show ?case
  proof (cases "s = []")
    case True
    then show ?thesis by (simp add: whitespace_seqs_def carriage_return_def)
  next
    case False
    have f: "find (\<lambda>w. prefix w (s @ [carriage_return])) whitespace_seqs = find (\<lambda>w. prefix w s) whitespace_seqs"
      by (rule find_cong_set) (rule prefix_snoc_cr [OF _ False])
    show ?thesis
    proof (cases "find (\<lambda>w. prefix w s) whitespace_seqs")
      case None
      then show ?thesis using f False by (simp add: Let_def)
    next
      case (Some w)
      then have w: "w \<in> set whitespace_seqs" "prefix w s" by (auto simp: find_Some_iff)
      then have "w \<noteq> []" "length w \<le> length s" using whitespace_seqs_ne prefix_length_le by auto
      then show ?thesis
        using Suc.IH [of "drop (length w) s"] Suc.prems f Some by (cases w) auto
    qed
  qed
qed

lemma trim_end_snoc_cr: "trim_end (s @ [carriage_return]) = trim_end s"
  by (simp add: trim_end_def find_ws_cr)

lemma trim_snoc_cr [simp]: "trim (s @ [carriage_return]) = trim s"
proof -
  have "trim_start (s @ [carriage_return]) =
      (if trim_start s = [] then [] else trim_start s @ [carriage_return])"
    using drop_seqs_snoc_cr [of s "length s"] by (simp add: trim_start_def Let_def)
  then show ?thesis using trim_end_snoc_cr by (simp add: trim_def)
qed

lemma trim_strip_cr [simp]: "trim (strip_cr l) = trim l"
proof (cases "suffix [carriage_return] l")
  case True
  then obtain r where "l = r @ [carriage_return]" by (auto simp: suffix_def)
  then show ?thesis by (simp add: strip_cr_def strip_suffix_snoc1)
next
  case False
  then show ?thesis by (simp add: strip_cr_def strip_suffix_def)
qed

end
