(* ===== verification/Operator_Limits.thy ===== *)
theory Operator_Limits
  imports Warden_Prelude
begin

text \<open>
  Budgets of the operator-rule compiler, \<open>filter/operator_rules/limits.rs\<close>:
  checked \<open>usize\<close> arithmetic, the node-local limits with their hard ceilings and
  the deterministic cost model.  A \<open>usize\<close> is a natural number with the 64-bit
  bound written out.
\<close>

definition USIZE_MAX :: nat where
  "USIZE_MAX = 2 ^ 64 - 1"

definition U32_MAX :: nat where
  "U32_MAX = 2 ^ 32 - 1"

record budget_exceeded =
  be_limit :: string
  be_actual :: "nat option"
  be_maximum :: nat

definition ensure :: "string \<Rightarrow> nat \<Rightarrow> nat \<Rightarrow> (budget_exceeded, unit) result" where
  "ensure limit actual maximum =
     (if maximum < actual
      then Inl \<lparr>be_limit = limit, be_actual = Some actual, be_maximum = maximum\<rparr>
      else Inr ())"

definition arithmetic_overflow :: budget_exceeded where
  "arithmetic_overflow = \<lparr>be_limit = ''arithmetic'', be_actual = None, be_maximum = USIZE_MAX\<rparr>"

definition usize_add :: "nat \<Rightarrow> nat \<Rightarrow> (budget_exceeded, nat) result" where
  "usize_add a b = (if a + b \<le> USIZE_MAX then Inr (a + b) else Inl arithmetic_overflow)"

definition usize_mul :: "nat \<Rightarrow> nat \<Rightarrow> (budget_exceeded, nat) result" where
  "usize_mul a b = (if a * b \<le> USIZE_MAX then Inr (a * b) else Inl arithmetic_overflow)"

record rule_compile_limits =
  max_lists :: nat
  max_file_bytes :: nat
  max_total_bytes :: nat
  max_rules_per_list :: nat
  max_indexed_rules_per_profile :: nat
  max_indexed_rules_total :: nat
  max_advanced_rules_per_profile :: nat
  max_advanced_rules_total :: nat
  max_regex_rules_per_profile :: nat
  max_regex_rules_total :: nat
  max_store_indexed_rules :: nat
  max_store_advanced_rules :: nat
  max_store_regex_rules :: nat
  max_rule_bytes :: nat
  max_regex_program_bytes :: nat
  max_store_compiled_bytes :: nat
  max_compiled_bytes_per_profile :: nat
  max_compiled_bytes_total :: nat

definition default_limits :: rule_compile_limits where
  "default_limits =
     \<lparr>max_lists = 256, max_file_bytes = 2 ^ 20, max_total_bytes = 32 * 2 ^ 20,
      max_rules_per_list = 25000,
      max_indexed_rules_per_profile = 100000, max_indexed_rules_total = 500000,
      max_advanced_rules_per_profile = 256, max_advanced_rules_total = 2048,
      max_regex_rules_per_profile = 32, max_regex_rules_total = 128,
      max_store_indexed_rules = 500000, max_store_advanced_rules = 2048,
      max_store_regex_rules = 128, max_rule_bytes = 4096,
      max_regex_program_bytes = 2 ^ 20, max_store_compiled_bytes = 32 * 2 ^ 20,
      max_compiled_bytes_per_profile = 8 * 2 ^ 20, max_compiled_bytes_total = 32 * 2 ^ 20\<rparr>"

definition HARD_CEILINGS :: rule_compile_limits where
  "HARD_CEILINGS =
     \<lparr>max_lists = 1024, max_file_bytes = 4 * 2 ^ 20, max_total_bytes = 64 * 2 ^ 20,
      max_rules_per_list = 100000,
      max_indexed_rules_per_profile = 250000, max_indexed_rules_total = 1000000,
      max_advanced_rules_per_profile = 512, max_advanced_rules_total = 4096,
      max_regex_rules_per_profile = 64, max_regex_rules_total = 256,
      max_store_indexed_rules = 1000000, max_store_advanced_rules = 4096,
      max_store_regex_rules = 256, max_rule_bytes = 16384,
      max_regex_program_bytes = 2 * 2 ^ 20, max_store_compiled_bytes = 64 * 2 ^ 20,
      max_compiled_bytes_per_profile = 16 * 2 ^ 20, max_compiled_bytes_total = 64 * 2 ^ 20\<rparr>"

text \<open>The fields in declaration order, as the macro expands them.\<close>

definition limit_fields :: "(string \<times> (rule_compile_limits \<Rightarrow> nat)) list" where
  "limit_fields =
     [(''max_lists'', max_lists), (''max_file_bytes'', max_file_bytes),
      (''max_total_bytes'', max_total_bytes), (''max_rules_per_list'', max_rules_per_list),
      (''max_indexed_rules_per_profile'', max_indexed_rules_per_profile),
      (''max_indexed_rules_total'', max_indexed_rules_total),
      (''max_advanced_rules_per_profile'', max_advanced_rules_per_profile),
      (''max_advanced_rules_total'', max_advanced_rules_total),
      (''max_regex_rules_per_profile'', max_regex_rules_per_profile),
      (''max_regex_rules_total'', max_regex_rules_total),
      (''max_store_indexed_rules'', max_store_indexed_rules),
      (''max_store_advanced_rules'', max_store_advanced_rules),
      (''max_store_regex_rules'', max_store_regex_rules),
      (''max_rule_bytes'', max_rule_bytes),
      (''max_regex_program_bytes'', max_regex_program_bytes),
      (''max_store_compiled_bytes'', max_store_compiled_bytes),
      (''max_compiled_bytes_per_profile'', max_compiled_bytes_per_profile),
      (''max_compiled_bytes_total'', max_compiled_bytes_total)]"

fun validate_fields ::
  "rule_compile_limits \<Rightarrow> (string \<times> (rule_compile_limits \<Rightarrow> nat)) list \<Rightarrow> (budget_exceeded, unit) result"
where
  "validate_fields l [] = Inr ()"
| "validate_fields l ((name, field) # rest) =
     (if field l = 0 \<or> field HARD_CEILINGS < field l
      then Inl \<lparr>be_limit = name, be_actual = Some (field l), be_maximum = field HARD_CEILINGS\<rparr>
      else validate_fields l rest)"

definition validate_limits :: "rule_compile_limits \<Rightarrow> (budget_exceeded, unit) result" where
  "validate_limits l = validate_fields l limit_fields"

record projection_counts =
  pc_indexed :: nat
  pc_advanced :: nat
  pc_regex :: nat

definition counts_default :: projection_counts where
  "counts_default = \<lparr>pc_indexed = 0, pc_advanced = 0, pc_regex = 0\<rparr>"

definition counts_checked_add ::
  "projection_counts \<Rightarrow> projection_counts \<Rightarrow> (budget_exceeded, projection_counts) result"
where
  "counts_checked_add a b =
     rbind (usize_add (pc_indexed a) (pc_indexed b)) (\<lambda>i.
     rbind (usize_add (pc_advanced a) (pc_advanced b)) (\<lambda>d.
     rbind (usize_add (pc_regex a) (pc_regex b)) (\<lambda>r.
       Inr \<lparr>pc_indexed = i, pc_advanced = d, pc_regex = r\<rparr>)))"

definition check_store_counts ::
  "rule_compile_limits \<Rightarrow> projection_counts \<Rightarrow> (budget_exceeded, unit) result"
where
  "check_store_counts l c =
     rbind (ensure ''max_store_indexed_rules'' (pc_indexed c) (max_store_indexed_rules l)) (\<lambda>_.
     rbind (ensure ''max_store_advanced_rules'' (pc_advanced c) (max_store_advanced_rules l)) (\<lambda>_.
       ensure ''max_store_regex_rules'' (pc_regex c) (max_store_regex_rules l)))"

definition check_profile_counts ::
  "rule_compile_limits \<Rightarrow> projection_counts \<Rightarrow> (budget_exceeded, unit) result"
where
  "check_profile_counts l c =
     rbind (ensure ''max_indexed_rules_per_profile'' (pc_indexed c) (max_indexed_rules_per_profile l)) (\<lambda>_.
     rbind (ensure ''max_advanced_rules_per_profile'' (pc_advanced c) (max_advanced_rules_per_profile l)) (\<lambda>_.
       ensure ''max_regex_rules_per_profile'' (pc_regex c) (max_regex_rules_per_profile l)))"

definition check_total_counts ::
  "rule_compile_limits \<Rightarrow> projection_counts \<Rightarrow> (budget_exceeded, unit) result"
where
  "check_total_counts l c =
     rbind (ensure ''max_indexed_rules_total'' (pc_indexed c) (max_indexed_rules_total l)) (\<lambda>_.
     rbind (ensure ''max_advanced_rules_total'' (pc_advanced c) (max_advanced_rules_total l)) (\<lambda>_.
       ensure ''max_regex_rules_total'' (pc_regex c) (max_regex_rules_total l)))"

record compiled_cost =
  cc_store_bytes :: nat
  cc_profile_bytes_total :: nat
  cc_profile_owned_bytes_total :: nat
  cc_snapshot_bytes :: nat
  cc_store_counts :: projection_counts
  cc_profile_counts_total :: projection_counts
  cc_regex_programs :: nat

definition STORE_BASE_BYTES :: nat where
  "STORE_BASE_BYTES = 256"

definition aligned_bytes :: "nat \<Rightarrow> (budget_exceeded, nat) result" where
  "aligned_bytes n = rbind (usize_add n 7) (\<lambda>m. usize_mul (m div 8) 8)"

definition text_bytes :: "nat \<Rightarrow> (budget_exceeded, nat) result" where
  "text_bytes n = rbind (usize_add n 1) (\<lambda>m. rbind (aligned_bytes m) (\<lambda>a. usize_add 32 a))"

definition origin_bytes :: "nat \<Rightarrow> nat \<Rightarrow> (budget_exceeded, nat) result" where
  "origin_bytes id_bytes rows =
     rbind (text_bytes id_bytes) (\<lambda>t. rbind (usize_add 96 t) (\<lambda>h.
     rbind (usize_mul 48 rows) (\<lambda>r. usize_add h r)))"

definition ast_bytes :: "nat \<Rightarrow> (budget_exceeded, nat) result" where
  "ast_bytes n = rbind (text_bytes n) (\<lambda>t. usize_add 32 t)"

definition indexed_bytes :: "nat \<Rightarrow> (budget_exceeded, nat) result" where
  "indexed_bytes n = rbind (text_bytes n) (\<lambda>t. usize_add 128 t)"

definition advanced_bytes :: "nat \<Rightarrow> (budget_exceeded, nat) result" where
  "advanced_bytes n = rbind (text_bytes n) (\<lambda>t. usize_add 96 t)"

definition regex_bytes :: "nat \<Rightarrow> (budget_exceeded, nat) result" where
  "regex_bytes program_limit = rbind (usize_mul 2 program_limit) (\<lambda>m. usize_add m 65536)"

definition sidecar_bytes :: "nat \<Rightarrow> (budget_exceeded, nat) result" where
  "sidecar_bytes rules = rbind (usize_mul 4 rules) (\<lambda>m. rbind (aligned_bytes m) (\<lambda>a. usize_add 32 a))"

definition pack_bytes :: "nat \<Rightarrow> (budget_exceeded, nat) result" where
  "pack_bytes n = rbind (text_bytes n) (\<lambda>t. usize_add 96 t)"

definition profile_bytes :: "nat \<Rightarrow> (budget_exceeded, nat) result" where
  "profile_bytes n = rbind (text_bytes n) (\<lambda>t. usize_add 128 t)"

section \<open>Facts\<close>

lemma ensure_Inr [warden_ok]: "ensure l a m = Inr u \<longleftrightarrow> a \<le> m"
  by (auto simp: ensure_def)

lemma usize_add_Inr [warden_ok]: "usize_add a b = Inr c \<longleftrightarrow> a + b \<le> USIZE_MAX \<and> c = a + b"
  by (auto simp: usize_add_def)

lemma usize_mul_Inr [warden_ok]: "usize_mul a b = Inr c \<longleftrightarrow> a * b \<le> USIZE_MAX \<and> c = a * b"
  by (auto simp: usize_mul_def)

lemma validate_fields_Inr:
  "validate_fields l fs = Inr u \<longleftrightarrow>
     (\<forall>(name, field) \<in> set fs. 0 < field l \<and> field l \<le> field HARD_CEILINGS)"
  by (induction fs) (auto split: if_splits)

lemma validate_limits_total:
  assumes "validate_limits l = Inr u"
  shows "max_compiled_bytes_total l \<le> 64 * 2 ^ 20"
    and "max_store_indexed_rules l + max_store_advanced_rules l < U32_MAX"
  using assms unfolding validate_limits_def validate_fields_Inr limit_fields_def
  by (simp_all add: HARD_CEILINGS_def U32_MAX_def)

lemma validate_default_limits: "validate_limits default_limits = Inr ()"
  by (simp add: validate_limits_def limit_fields_def default_limits_def HARD_CEILINGS_def)

text \<open>Rounding is exact: the least multiple of eight that holds the bytes.\<close>

lemma aligned_bytes_Inr [warden_ok]:
  "aligned_bytes n = Inr a \<Longrightarrow> n \<le> a \<and> a < n + 8 \<and> a mod 8 = 0"
  by (auto simp: aligned_bytes_def warden_ok)

end
