(* ===== verification/Operator_Ast.thy ===== *)
theory Operator_Ast
  imports Operator_Limits Admin_Rules
begin

text \<open>
  The syntax of operator rules, \<open>filter/operator_rules/ast.rs\<close>, and the tiers of
  \<open>filter/operator_rules/decision.rs\<close>.  SHA-256 (crate \<open>sha2\<close>) is the parameter
  \<open>sha256\<close>, a function on byte strings.
\<close>

section \<open>Tiers (decision.rs)\<close>

datatype rule_tier = OrdinaryDeny | OrdinaryAllow | ImportantDeny | ImportantAllow

fun tier_index :: "rule_tier \<Rightarrow> nat" where
  "tier_index OrdinaryDeny = 0"
| "tier_index OrdinaryAllow = 1"
| "tier_index ImportantDeny = 2"
| "tier_index ImportantAllow = 3"

lemma tier_index_inj [simp]: "tier_index a = tier_index b \<longleftrightarrow> a = b"
  by (cases a; cases b) simp_all

lemma tier_index_less_4 [simp]: "tier_index t < 4"
  by (cases t) simp_all

instantiation rule_tier :: linorder
begin

definition less_eq_rule_tier :: "rule_tier \<Rightarrow> rule_tier \<Rightarrow> bool" where
  "less_eq_rule_tier a b \<longleftrightarrow> tier_index a \<le> tier_index b"

definition less_rule_tier :: "rule_tier \<Rightarrow> rule_tier \<Rightarrow> bool" where
  "less_rule_tier a b \<longleftrightarrow> tier_index a < tier_index b"

instance
  by standard (auto simp: less_eq_rule_tier_def less_rule_tier_def)

end

fun tier_from_flags :: "bool \<Rightarrow> bool \<Rightarrow> rule_tier" where
  "tier_from_flags False False = OrdinaryDeny"
| "tier_from_flags True False = OrdinaryAllow"
| "tier_from_flags False True = ImportantDeny"
| "tier_from_flags True True = ImportantAllow"

fun tier_is_allow :: "rule_tier \<Rightarrow> bool" where
  "tier_is_allow t = (t = OrdinaryAllow \<or> t = ImportantAllow)"

fun tier_is_important :: "rule_tier \<Rightarrow> bool" where
  "tier_is_important t = (t = ImportantDeny \<or> t = ImportantAllow)"

section \<open>Rules (ast.rs)\<close>

datatype operator_pattern = OpExact string | OpWildcard string | OpRegex string bool

record operator_rule_ast =
  ast_pattern :: operator_pattern
  ast_tier :: rule_tier
  ast_noapex :: bool

datatype ast_error = MultipleRecords | Grammar rule_parse_error | Budget budget_exceeded

fun ast_text :: "operator_rule_ast \<Rightarrow> string" where
  "ast_text a = (case ast_pattern a of OpExact s \<Rightarrow> s | OpWildcard s \<Rightarrow> s | OpRegex s _ \<Rightarrow> s)"

definition indexed_domain :: "operator_rule_ast \<Rightarrow> string option" where
  "indexed_domain a =
     (case ast_pattern a of
        OpExact s \<Rightarrow> Some s
      | OpWildcard s \<Rightarrow> if \<not> ast_noapex a then Some s else None
      | OpRegex _ _ \<Rightarrow> None)"

text \<open>The digest input: the separator and six length-prefixed fields.\<close>

definition be64 :: "nat \<Rightarrow> string" where
  "be64 n = map (\<lambda>i. char_of (n div 256 ^ i mod 256)) [7, 6, 5, 4, 3, 2, 1, 0]"

definition flag_byte :: "bool \<Rightarrow> string" where
  "flag_byte b = [char_of ((if b then 1 else 0) :: nat)]"

definition class_byte :: "operator_pattern \<Rightarrow> string" where
  "class_byte p =
     [char_of ((case p of OpExact _ \<Rightarrow> 0 | OpWildcard _ \<Rightarrow> 1 | OpRegex _ _ \<Rightarrow> 2) :: nat)]"

definition case_flag :: "operator_pattern \<Rightarrow> bool" where
  "case_flag p = (case p of OpRegex _ ci \<Rightarrow> ci | _ \<Rightarrow> False)"

definition rule_key_fields :: "operator_rule_ast \<Rightarrow> string list" where
  "rule_key_fields a =
     [flag_byte (tier_is_allow (ast_tier a)), class_byte (ast_pattern a), ast_text a,
      flag_byte (case_flag (ast_pattern a)), flag_byte (tier_is_important (ast_tier a)),
      flag_byte (ast_noapex a)]"

definition encode_fields :: "string list \<Rightarrow> string" where
  "encode_fields fs = concat (map (\<lambda>f. be64 (length f) @ f) fs)"

definition rule_key_input :: "operator_rule_ast \<Rightarrow> string" where
  "rule_key_input a = ''warden/uor/rule-ast/v1'' @ [CHR 0x00] @ encode_fields (rule_key_fields a)"

definition rule_key :: "(string \<Rightarrow> string) \<Rightarrow> operator_rule_ast \<Rightarrow> string" where
  "rule_key sha256 a = sha256 (rule_key_input a)"

section \<open>Parsing (ast.rs)\<close>

text \<open>The UTF-8 encodings of the record separators and NUL.\<close>

definition record_separators :: "string list" where
  "record_separators =
     [[CHR 0x00], [CHR 0x0D], [CHR 0x0A], [CHR 0x0B], [CHR 0x0C], [CHR 0xC2, CHR 0x85],
      [CHR 0xE2, CHR 0x80, CHR 0xA8], [CHR 0xE2, CHR 0x80, CHR 0xA9],
      [CHR 0x1C], [CHR 0x1D], [CHR 0x1E]]"

fun contains_seq :: "string list \<Rightarrow> string \<Rightarrow> bool" where
  "contains_seq ws [] = False"
| "contains_seq ws (c # cs) = (list_ex (\<lambda>w. prefix w (c # cs)) ws \<or> contains_seq ws cs)"

definition check_record :: "string \<Rightarrow> (ast_error, unit) result" where
  "check_record line =
     (if contains_seq record_separators line then Inl MultipleRecords else Inr ())"

fun ast_modifiers :: "string list \<Rightarrow> bool \<times> bool \<Rightarrow> (rule_parse_error, bool \<times> bool) result" where
  "ast_modifiers [] acc = Inr acc"
| "ast_modifiers (m # ms) (imp, apx) =
     (if trim m = ''important'' then ast_modifiers ms (True, apx)
      else if trim m = ''noapex'' then ast_modifiers ms (imp, True)
      else Inl (UnknownModifier (trim m)))"

definition ast_regex :: "bool \<Rightarrow> string \<Rightarrow> (rule_parse_error, operator_rule_ast) result" where
  "ast_regex allow rest =
     (case find_char (CHR ''/'') rest of
        None \<Rightarrow> Inl UnterminatedRegex
      | Some n \<Rightarrow>
          (let source = take n rest; trailing = drop (n + 1) rest
           in if source = [] then Inl EmptyRegex
              else if trailing \<noteq> [] then Inl (TrailingAfterRegex trailing)
              else Inr \<lparr>ast_pattern = OpRegex source True,
                        ast_tier = tier_from_flags allow False, ast_noapex = False\<rparr>))"

definition ast_split_modifiers ::
  "string \<Rightarrow> (rule_parse_error, (bool \<times> bool) \<times> string) result"
where
  "ast_split_modifiers s =
     (case find_char (CHR ''$'') s of
        None \<Rightarrow> Inr ((False, False), s)
      | Some n \<Rightarrow> rbind (ast_modifiers (split_on (CHR '','') (drop (n + 1) s)) (False, False))
                    (\<lambda>flags. Inr (flags, take n s)))"

definition ast_domain_pattern ::
  "bool \<Rightarrow> bool \<Rightarrow> bool \<Rightarrow> string \<Rightarrow> (rule_parse_error, operator_rule_ast) result"
where
  "ast_domain_pattern allow imp apx s0 =
     (let s = unwrap_or s0 (strip_suffix ''^'' s0);
          wildcard = prefix ''*.'' s;
          d = (if wildcard then drop 2 s else s)
      in if s = [] then Inl EmptyPattern
         else if \<not> wildcard \<and> CHR ''*'' \<in> set d then Inl StrayWildcard
         else if \<not> is_valid_domain d then Inl (InvalidDomain d)
         else Inr \<lparr>ast_pattern = (if wildcard then OpWildcard (to_ascii_lowercase d)
                                 else OpExact (to_ascii_lowercase d)),
                   ast_tier = tier_from_flags allow imp, ast_noapex = (wildcard \<and> apx)\<rparr>)"

definition ast_domain :: "bool \<Rightarrow> string \<Rightarrow> (rule_parse_error, operator_rule_ast) result" where
  "ast_domain allow s =
     rbind (ast_split_modifiers (unwrap_or s (strip_prefix ''||'' s)))
       (\<lambda>((imp, apx), s'). ast_domain_pattern allow imp apx s')"

definition parse_rule_ast :: "string \<Rightarrow> (ast_error, operator_rule_ast) result" where
  "parse_rule_ast line =
     rbind (check_record line) (\<lambda>_.
     rbind (map_err Budget (ensure ''max_rule_bytes'' (length line) (max_rule_bytes HARD_CEILINGS))) (\<lambda>_.
       let s = trim line
       in if s = [] then Inl (Grammar Empty)
          else let allow = prefix ''@@'' s; s1 = (if allow then drop 2 s else s)
               in map_err Grammar
                    (case strip_prefix ''/'' s1 of
                       Some rest \<Rightarrow> ast_regex allow rest
                     | None \<Rightarrow> ast_domain allow s1)))"

section \<open>The two parsers accept the same rules\<close>

text \<open>The AST of an admin rule; the compiled program is not part of it.\<close>

definition ast_of_rule :: "'c dns_rule \<Rightarrow> operator_rule_ast" where
  "ast_of_rule r =
     \<lparr>ast_pattern = (case pattern r of Exact d \<Rightarrow> OpExact d | Wildcard d \<Rightarrow> OpWildcard d
                     | Regex source _ \<Rightarrow> OpRegex source True),
      ast_tier = tier_from_flags (action r = Allow) (important r), ast_noapex = noapex r\<rparr>"

lemma ast_modifiers_eq: "ast_modifiers ms acc = parse_modifiers ms acc"
  by (induction ms acc rule: parse_modifiers.induct) auto

lemma ast_regex_agrees:
  "parse_regex_body re_build (if allow then Allow else Block) rest = Inr r \<Longrightarrow>
     ast_regex allow rest = Inr (ast_of_rule r)"
  "parse_regex_body re_build act rest = Inl (InvalidRegex p d) \<Longrightarrow>
     ast_regex allow rest = Inr \<lparr>ast_pattern = OpRegex p True, ast_tier = tier_from_flags allow False, ast_noapex = False\<rparr>"
  "parse_regex_body re_build act rest = Inl e \<Longrightarrow> (\<forall>p d. e \<noteq> InvalidRegex p d) \<Longrightarrow>
     ast_regex allow rest = Inl e"
  by (auto simp: parse_regex_body_def ast_regex_def ast_of_rule_def Let_def warden_ok
      rbind_Inl_iff map_err_Inl_iff split: option.splits if_splits)

lemma unwrap_strip_prefix:
  "unwrap_or s (strip_prefix p s) = (if prefix p s then drop (length p) s else s)"
  by (simp add: strip_prefix_def)

lemma ast_split_modifiers_eq: "ast_split_modifiers s = split_modifiers s"
  by (simp add: ast_split_modifiers_def split_modifiers_def ast_modifiers_eq split: option.split)

lemma ast_domain_pattern_eq:
  "ast_domain_pattern (act = Allow) imp apx s =
     (case parse_domain_pattern act imp apx s of Inl e \<Rightarrow> Inl e | Inr r \<Rightarrow> Inr (ast_of_rule r))"
  using is_valid_domain_ne
  by (auto simp: parse_domain_pattern_def ast_domain_pattern_def strip_prefix_def ast_of_rule_def
      Let_def numeral_2_eq_2)

lemma ast_domain_eq:
  "ast_domain (act = Allow) s =
     (case parse_domain_body act s of Inl e \<Rightarrow> Inl e | Inr r \<Rightarrow> Inr (ast_of_rule r))"
proof -
  have len: "length ''||'' = 2" by simp
  show ?thesis
    unfolding ast_domain_def parse_domain_body_def ast_split_modifiers_eq unwrap_strip_prefix len
    by (cases "split_modifiers (if prefix ''||'' s then drop 2 s else s)")
      (simp_all add: case_prod_beta ast_domain_pattern_eq)
qed

lemma parse_modifiers_no_regex: "parse_modifiers ms acc \<noteq> Inl (InvalidRegex p d)"
  by (induction ms acc rule: parse_modifiers.induct) auto

lemma parse_domain_body_no_regex: "parse_domain_body act s \<noteq> Inl (InvalidRegex p d)"
  using parse_modifiers_no_regex
  by (auto simp: parse_domain_body_def parse_domain_pattern_def split_modifiers_def Let_def
      rbind_Inl_iff split: option.splits if_splits)

lemma grammars_agree:
  assumes "check_record line = Inr ()" "length line \<le> 16384"
  shows "case parse_rule_checked re_build line of
      Inr r \<Rightarrow> parse_rule_ast line = Inr (ast_of_rule r)
    | Inl (InvalidRegex p d) \<Rightarrow>
        parse_rule_ast line =
          Inr \<lparr>ast_pattern = OpRegex p True, ast_tier = tier_from_flags (prefix ''@@'' (trim line)) False, ast_noapex = False\<rparr>
    | Inl e \<Rightarrow> parse_rule_ast line = Inl (Grammar e)"
proof -
  let ?s = "trim line"
  let ?act = "if prefix ''@@'' ?s then Allow else Block"
  let ?s1 = "if prefix ''@@'' ?s then drop 2 ?s else ?s"
  have act: "(?act = Allow) = prefix ''@@'' ?s" by simp
  have ast: "parse_rule_ast line =
      (if ?s = [] then Inl (Grammar Empty)
       else map_err Grammar (case strip_prefix ''/'' ?s1 of
              Some rest \<Rightarrow> ast_regex (?act = Allow) rest | None \<Rightarrow> ast_domain (?act = Allow) ?s1))"
    unfolding act using assms by (simp add: parse_rule_ast_def ensure_def HARD_CEILINGS_def Let_def)
  show ?thesis
  proof (cases "?s = []")
    case True
    then show ?thesis by (simp add: ast parse_rule_checked_def)
  next
    case False
    show ?thesis
    proof (cases "strip_prefix ''/'' ?s1")
      case None
      have "parse_rule_checked re_build line = parse_domain_body ?act ?s1"
        using False None by (simp add: parse_rule_checked_def Let_def)
      moreover have "parse_domain_body ?act ?s1 \<noteq> (Inl (InvalidRegex p d) :: (_, 'a dns_rule) result)" for p d
        by (rule parse_domain_body_no_regex)
      moreover have "parse_rule_ast line = map_err Grammar
          (case (parse_domain_body ?act ?s1 :: (_, 'a dns_rule) result) of
             Inl e \<Rightarrow> Inl e | Inr r \<Rightarrow> Inr (ast_of_rule r))"
        unfolding ast ast_domain_eq [of ?act ?s1, symmetric] using False None by simp
      ultimately show ?thesis
        by (cases "parse_domain_body ?act ?s1 :: (_, 'a dns_rule) result")
          (simp_all split: rule_parse_error.splits)
    next
      case (Some rest)
      have "parse_rule_checked re_build line = parse_regex_body re_build ?act rest"
        using False Some by (simp add: parse_rule_checked_def Let_def)
      moreover have "parse_rule_ast line = map_err Grammar (ast_regex (?act = Allow) rest)"
        using False Some by (simp add: ast)
      ultimately show ?thesis
        using ast_regex_agrees(1) [of re_build "?act = Allow" rest]
          ast_regex_agrees(2,3) [of re_build ?act rest]
        by (cases "parse_regex_body re_build ?act rest")
          (auto simp: map_err_Inr_iff split: rule_parse_error.splits if_splits)
    qed
  qed
qed

text \<open>C19. The compiler's parser in terms of the engine's, for every line.  A line with a record
  separator is refused, and so is one above the row limit.  Any other line that the engine's
  parser accepts is accepted with the same meaning, and one it refuses is refused with the same
  error, with one exception: a regex that the regex library rejects is taken over, as a deny or
  allow rule without modifiers, and rejected when its program is compiled.\<close>

theorem parsers_agree:
  "parse_rule_ast line =
     (if contains_seq record_separators line then Inl MultipleRecords
      else if 16384 < length line
      then Inl (Budget \<lparr>be_limit = ''max_rule_bytes'', be_actual = Some (length line), be_maximum = 16384\<rparr>)
      else case parse_rule_checked re_build line of
        Inr r \<Rightarrow> Inr (ast_of_rule r)
      | Inl (InvalidRegex source _) \<Rightarrow>
          Inr \<lparr>ast_pattern = OpRegex source True, ast_tier = tier_from_flags (prefix ''@@'' (trim line)) False, ast_noapex = False\<rparr>
      | Inl e \<Rightarrow> Inl (Grammar e))"
proof (cases "contains_seq record_separators line \<or> 16384 < length line")
  case True
  then show ?thesis by (auto simp: parse_rule_ast_def check_record_def ensure_def HARD_CEILINGS_def)
next
  case False
  then show ?thesis
    using grammars_agree [of line re_build]
    by (auto simp: check_record_def split: sum.splits rule_parse_error.splits)
qed

section \<open>The digest input determines the rule\<close>

lemma length_be64 [simp]: "length (be64 n) = 8"
  by (simp add: be64_def)

lemma char_of_mod_eqD: "char_of (a mod 256) = char_of (b mod 256) \<Longrightarrow> a mod 256 = b mod (256 :: nat)"
  by (metis of_char_of mod_mod_trivial)

lemma be64_inj:
  assumes "be64 a = be64 b" "a < 2 ^ 64" "b < 2 ^ 64"
  shows "a = b"
proof -
  have digit: "a div 256 ^ i mod 256 = b div 256 ^ i mod 256" if "i < 8" for i
  proof -
    have "i \<in> set [7, 6, 5, 4, 3, 2, 1, 0]" using that by auto
    then show ?thesis
      using assms(1) [unfolded be64_def map_eq_conv] char_of_mod_eqD by blast
  qed
  have step: "x div 256 ^ Suc i = x div 256 ^ i div 256" for x i :: nat
    by (simp only: power_Suc2 div_mult2_eq)
  have "a div 256 ^ i = b div 256 ^ i" if "i \<le> 8" for i
    using that
  proof (induction "8 - i" arbitrary: i)
    case 0
    then have "i = 8" by simp
    then show ?case using assms(2,3) by simp
  next
    case (Suc k)
    then have i: "i < 8" by linarith
    then have "a div 256 ^ Suc i = b div 256 ^ Suc i"
      using Suc(1) [of "Suc i"] Suc(2) by simp
    then have "a div 256 ^ i div 256 = b div 256 ^ i div 256" by (simp only: step)
    then show ?case using digit [OF i] by (metis div_mult_mod_eq)
  qed
  from this [of 0] show ?thesis by simp
qed

lemma encode_fields_inj:
  "length fs = length gs \<Longrightarrow> encode_fields fs = encode_fields gs \<Longrightarrow>
   \<forall>f \<in> set fs. length f < 2 ^ 64 \<Longrightarrow> \<forall>g \<in> set gs. length g < 2 ^ 64 \<Longrightarrow> fs = gs"
proof (induction fs gs rule: list_induct2)
  case Nil
  show ?case by simp
next
  case (Cons f fs g gs)
  have e: "be64 (length f) @ f @ encode_fields fs = be64 (length g) @ g @ encode_fields gs"
    using Cons.prems(1) by (simp add: encode_fields_def)
  then have b: "be64 (length f) = be64 (length g)" and r: "f @ encode_fields fs = g @ encode_fields gs"
    by (simp_all add: append_eq_append_conv)
  have "length f = length g"
    by (rule be64_inj [OF b]) (use Cons.prems(2,3) in simp_all)
  then show ?case using r Cons.IH Cons.prems by (simp add: append_eq_append_conv)
qed

lemma flag_byte_inj [simp]: "flag_byte a = flag_byte b \<longleftrightarrow> a = b"
  by (auto simp: flag_byte_def)

lemma class_byte_inj:
  assumes "class_byte p = class_byte q" "case_flag p = case_flag q"
    and "(case p of OpExact s \<Rightarrow> s | OpWildcard s \<Rightarrow> s | OpRegex s _ \<Rightarrow> s) =
         (case q of OpExact s \<Rightarrow> s | OpWildcard s \<Rightarrow> s | OpRegex s _ \<Rightarrow> s)"
  shows "p = q"
  using assms by (cases p; cases q) (auto simp: class_byte_def case_flag_def)

lemma tier_flags_inj:
  "tier_is_allow a = tier_is_allow b \<Longrightarrow> tier_is_important a = tier_is_important b \<Longrightarrow> a = b"
  by (cases a; cases b) simp_all

lemma rule_key_input_inj:
  assumes "rule_key_input a = rule_key_input b" "length (ast_text a) < 2 ^ 64" "length (ast_text b) < 2 ^ 64"
  shows "a = b"
proof -
  have "rule_key_fields a = rule_key_fields b"
  proof (rule encode_fields_inj)
    show "length (rule_key_fields a) = length (rule_key_fields b)" by (simp add: rule_key_fields_def)
    show "encode_fields (rule_key_fields a) = encode_fields (rule_key_fields b)"
      using assms(1) by (simp add: rule_key_input_def)
  qed (use assms(2,3) in \<open>simp_all add: rule_key_fields_def flag_byte_def class_byte_def\<close>)
  then have f: "tier_is_allow (ast_tier a) = tier_is_allow (ast_tier b)"
      "class_byte (ast_pattern a) = class_byte (ast_pattern b)" "ast_text a = ast_text b"
      "case_flag (ast_pattern a) = case_flag (ast_pattern b)"
      "tier_is_important (ast_tier a) = tier_is_important (ast_tier b)" "ast_noapex a = ast_noapex b"
    unfolding rule_key_fields_def list.inject flag_byte_inj by blast+
  have "ast_pattern a = ast_pattern b"
    by (rule class_byte_inj [OF f(2,4) f(3) [unfolded ast_text.simps]])
  moreover have "ast_tier a = ast_tier b" by (rule tier_flags_inj [OF f(1,5)])
  ultimately show ?thesis using f(6) by simp
qed

end
