(* ===== verification/Operator_Decision.thy ===== *)
theory Operator_Decision
  imports Operator_Ast "HOL-Library.Product_Lexorder"
begin

text \<open>
  Reducing rule hits to a verdict, \<open>filter/operator_rules/decision.rs\<close>: ranked
  hits, allow grants carried from the queried name to the names in the answer,
  and the reduction that combines them with the downloaded lists.
\<close>

section \<open>Hits and grants\<close>

record ranked_hit =
  rh_tier :: rule_tier
  rh_token :: u32

datatype grant_tier = Ordinary | Important

datatype grant_origin = OriginRule | OriginRequest

record allow_grant =
  ag_tier :: grant_tier
  ag_token :: u32
  ag_origin :: grant_origin

fun grant_rule_tier :: "grant_tier \<Rightarrow> rule_tier" where
  "grant_rule_tier Ordinary = OrdinaryAllow"
| "grant_rule_tier Important = ImportantAllow"

datatype verdict = VForward | VBlock

datatype external_matches = ENone | EDisabled | EAllow | EDeny | EAllowAndDeny

record reduced_decision =
  rd_verdict :: verdict
  rd_winning_token :: "u32 option"
  rd_allow_grant :: "allow_grant option"

definition decision_BLOCK :: reduced_decision where
  "decision_BLOCK = \<lparr>rd_verdict = VBlock, rd_winning_token = None, rd_allow_grant = None\<rparr>"

section \<open>Reduction\<close>

fun best :: "ranked_hit option \<Rightarrow> ranked_hit option \<Rightarrow> ranked_hit option" where
  "best (Some a) (Some b) =
     Some (if rh_tier a < rh_tier b \<or> (rh_tier b = rh_tier a \<and> rh_token b < rh_token a)
           then b else a)"
| "best (Some a) None = Some a"
| "best None b = b"

datatype grant_winner = WinRule ranked_hit | WinInherited allow_grant

fun best_with_grant :: "ranked_hit option \<Rightarrow> allow_grant option \<Rightarrow> grant_winner option" where
  "best_with_grant (Some hit) (Some grant) =
     (case ag_origin grant of
        OriginRule \<Rightarrow>
          (let grant_hit = \<lparr>rh_tier = grant_rule_tier (ag_tier grant), rh_token = ag_token grant\<rparr>
           in if best (Some hit) (Some grant_hit) = Some hit then Some (WinRule hit)
              else Some (WinInherited grant))
      | OriginRequest \<Rightarrow>
          if grant_rule_tier (ag_tier grant) < rh_tier hit then Some (WinRule hit)
          else Some (WinInherited grant))"
| "best_with_grant (Some hit) None = Some (WinRule hit)"
| "best_with_grant None (Some grant) = Some (WinInherited grant)"
| "best_with_grant None None = None"

definition reduce ::
  "ranked_hit option \<Rightarrow> allow_grant option \<Rightarrow> bool \<Rightarrow> external_matches \<Rightarrow> reduced_decision"
where
  "reduce hit inherited block_all external =
     (case best_with_grant hit inherited of
        Some (WinRule h) \<Rightarrow>
          \<lparr>rd_verdict = (if tier_is_allow (rh_tier h) then VForward else VBlock),
           rd_winning_token = Some (rh_token h),
           rd_allow_grant =
             (if tier_is_allow (rh_tier h)
              then Some \<lparr>ag_tier = (if tier_is_important (rh_tier h) then Important else Ordinary),
                         ag_token = rh_token h, ag_origin = OriginRule\<rparr>
              else None)\<rparr>
      | Some (WinInherited g) \<Rightarrow>
          \<lparr>rd_verdict = VForward, rd_winning_token = None, rd_allow_grant = Some g\<rparr>
      | None \<Rightarrow>
          \<lparr>rd_verdict = (if block_all \<or> external = EDeny then VBlock else VForward),
           rd_winning_token = None, rd_allow_grant = None\<rparr>)"

section \<open>Choosing a hit is a ranked choice\<close>

definition hit_rank :: "ranked_hit \<Rightarrow> nat \<times> int" where
  "hit_rank h = (tier_index (rh_tier h), - uint (rh_token h))"

definition keep_best :: "ranked_hit option \<Rightarrow> ranked_hit \<Rightarrow> ranked_hit option" where
  "keep_best acc h = best acc (Some h)"

lemma hit_rank_less_iff:
  "hit_rank a < hit_rank b \<longleftrightarrow>
     rh_tier a < rh_tier b \<or> (rh_tier b = rh_tier a \<and> rh_token b < rh_token a)"
  by (auto simp: hit_rank_def less_rule_tier_def word_less_alt less_prod_def)

interpretation hits: ranked_choice hit_rank keep_best
  by unfold_locales (simp_all add: keep_best_def hit_rank_less_iff)

lemma hit_rank_inj: "hit_rank a = hit_rank b \<longleftrightarrow> a = b"
  by (auto simp: hit_rank_def word_uint_eq_iff)

lemma inj_hit_rank: "inj_on hit_rank A"
  by (simp add: inj_on_def hit_rank_inj)

text \<open>A set of hits has one winner, in whatever order the hits are met.\<close>

lemma strongest_hit_set: "set xs = set ys \<Longrightarrow> strongest keep_best xs = strongest keep_best ys"
  by (rule hits.strongest_cong_set) (simp_all add: inj_hit_rank)

lemma best_absorb_iff:
  "best w (Some h) = w \<longleftrightarrow> (\<exists>b. w = Some b \<and> hit_rank h \<le> hit_rank b)"
  by (cases w) (auto simp: hit_rank_less_iff [symmetric] not_less)

section \<open>Facts about the reduction\<close>

lemma reduce_hit_no_grant:
  "rd_verdict (reduce hit None block_all external) =
     (case hit of
        Some h \<Rightarrow> if tier_is_allow (rh_tier h) then VForward else VBlock
      | None \<Rightarrow> if block_all \<or> external = EDeny then VBlock else VForward)"
  by (cases hit) (simp_all add: reduce_def)

lemma reduce_block_cases:
  "rd_verdict (reduce hit g block_all external) = VBlock \<longleftrightarrow>
     (case best_with_grant hit g of
        Some (WinRule h) \<Rightarrow> \<not> tier_is_allow (rh_tier h)
      | Some (WinInherited _) \<Rightarrow> False
      | None \<Rightarrow> block_all \<or> external = EDeny)"
  by (auto simp: reduce_def split: option.splits grant_winner.splits)

text \<open>An allow grant carried from the queried name decides an answer name by
  tier alone: it overrides every weaker rule, every list and \<open>block_all\<close>; an
  important deny on the answer name still blocks under an ordinary grant and is
  overridden by an important one.\<close>

theorem request_grant_authority:
  assumes "ag_origin g = OriginRequest"
  shows "rd_verdict (reduce hit (Some g) block_all external) = VBlock \<longleftrightarrow>
    (\<exists>h. hit = Some h \<and> rh_tier h = ImportantDeny \<and> ag_tier g = Ordinary)"
  using assms
  by (cases hit; cases "ag_tier g"; cases "rh_tier (the hit)")
    (auto simp: reduce_block_cases less_rule_tier_def)

theorem request_grant_authority_witness:
  "rd_verdict (reduce (Some \<lparr>rh_tier = ImportantDeny, rh_token = 4\<rparr>)
      (Some \<lparr>ag_tier = Ordinary, ag_token = 9, ag_origin = OriginRequest\<rparr>) False ENone) = VBlock"
  using request_grant_authority [of "\<lparr>ag_tier = Ordinary, ag_token = 9, ag_origin = OriginRequest\<rparr>"
      "Some \<lparr>rh_tier = ImportantDeny, rh_token = 4\<rparr>" False ENone]
  by simp

end
