(* ===== verification/Operator_Profile.thy ===== *)
theory Operator_Profile
  imports Operator_Decision "HOL-Library.AList"
begin

text \<open>
  The compiled profile of \<open>filter/operator_rules/compiler.rs\<close>: the winner index
  over exact names with its propagation of ancestor winners, the advanced rules,
  the lookup that combines both, the full enumeration \<open>explain\<close>, and the
  decisions of \<open>decision.rs\<close> that need a profile.

  A regex program is an element of a type \<open>'p\<close> and \<open>re_is_match\<close> stands for
  \<open>RegexProgram::is_match\<close>.  The hash index is an association list without
  repeated keys.  Rust's pointer comparison between profiles compares the field
  \<open>cp_addr\<close>, the address a profile lives at.  A panic is an error value.
\<close>

section \<open>Stored rules\<close>

record source_row =
  row_line :: u32
  row_byte_offset :: u32
  row_byte_len :: u32
  row_digest :: string

record rule_origin =
  ro_list_id :: string
  ro_rule_key :: string
  ro_pack_revision :: string
  ro_source_rows :: "source_row list"

record 'p stored_rule =
  sr_ast :: operator_rule_ast
  sr_origin :: rule_origin
  sr_program :: "'p option"

record pack_summary =
  ps_revision :: string
  ps_source_bytes :: nat
  ps_source_rule_rows :: nat
  ps_tokens :: "u32 list"
  ps_counts :: projection_counts
  ps_projection_bytes :: nat

record 'p compiled_rule_store =
  rs_rules :: "'p stored_rule list"
  rs_packs :: "(string \<times> pack_summary) list"

section \<open>Profiles\<close>

datatype 'p advanced_pattern = AdvWildcard string | AdvRegex 'p

record 'p advanced_rule =
  adv_pattern :: "'p advanced_pattern"
  adv_hit :: ranked_hit

type_synonym exact_slots = "u32 list"
type_synonym exact_index = "(string \<times> exact_slots) list"
type_synonym address = "nat \<times> nat"

definition EMPTY_TOKEN :: u32 where
  "EMPTY_TOKEN = - 1"

record 'p compiled_profile =
  cp_addr :: address
  cp_store :: "'p compiled_rule_store"
  cp_index :: exact_index
  cp_advanced :: "'p advanced_rule list"
  cp_mounted :: "u32 list"
  cp_counts :: projection_counts
  cp_compiled_bytes :: nat
  cp_owned_bytes :: nat
  cp_block_all :: bool
  cp_min_indexed_len :: nat

definition indexed_winner :: "exact_slots \<Rightarrow> ranked_hit option" where
  "indexed_winner slots =
     (if slots ! 3 \<noteq> EMPTY_TOKEN then Some \<lparr>rh_tier = ImportantAllow, rh_token = slots ! 3\<rparr>
      else if slots ! 2 \<noteq> EMPTY_TOKEN then Some \<lparr>rh_tier = ImportantDeny, rh_token = slots ! 2\<rparr>
      else if slots ! 1 \<noteq> EMPTY_TOKEN then Some \<lparr>rh_tier = OrdinaryAllow, rh_token = slots ! 1\<rparr>
      else if slots ! 0 \<noteq> EMPTY_TOKEN then Some \<lparr>rh_tier = OrdinaryDeny, rh_token = slots ! 0\<rparr>
      else None)"

text \<open>The byte scan of \<open>lookup_hit\<close>: stop at the first indexed suffix, or as soon as
  the rest is shorter than every indexed name.\<close>

fun index_walk :: "exact_index \<Rightarrow> nat \<Rightarrow> string \<Rightarrow> exact_slots option" where
  "index_walk ix min_len [] = None"
| "index_walk ix min_len (b # rest) =
     (if b \<noteq> CHR ''.'' then index_walk ix min_len rest
      else if length rest < min_len then None
      else case map_of ix rest of
             Some slots \<Rightarrow> Some slots
           | None \<Rightarrow> index_walk ix min_len rest)"

definition adv_descendant :: "string \<Rightarrow> string \<Rightarrow> bool" where
  "adv_descendant domain sfx \<longleftrightarrow>
     length sfx < length domain \<and> suffix sfx domain
       \<and> domain ! (length domain - length sfx - 1) = CHR ''.''"

fun adv_matches :: "('p \<Rightarrow> string \<Rightarrow> bool) \<Rightarrow> 'p advanced_pattern \<Rightarrow> string \<Rightarrow> bool" where
  "adv_matches re_is_match (AdvWildcard sfx) domain = adv_descendant domain sfx"
| "adv_matches re_is_match (AdvRegex program) domain = re_is_match program domain"

fun advanced_loop ::
  "('p \<Rightarrow> string \<Rightarrow> bool) \<Rightarrow> string \<Rightarrow> ranked_hit option \<Rightarrow> 'p advanced_rule list \<Rightarrow> ranked_hit option"
where
  "advanced_loop re_is_match domain winner [] = winner"
| "advanced_loop re_is_match domain winner (r # rs) =
     (if best winner (Some (adv_hit r)) = winner then advanced_loop re_is_match domain winner rs
      else if adv_matches re_is_match (adv_pattern r) domain
      then advanced_loop re_is_match domain (best winner (Some (adv_hit r))) rs
      else advanced_loop re_is_match domain winner rs)"

definition lookup_hit ::
  "('p \<Rightarrow> string \<Rightarrow> bool) \<Rightarrow> 'p compiled_profile \<Rightarrow> string \<Rightarrow> ranked_hit option"
where
  "lookup_hit re_is_match p domain =
     (let winner =
        (if cp_index p \<noteq> []
         then case map_of (cp_index p) domain of
                Some slots \<Rightarrow> indexed_winner slots
              | None \<Rightarrow>
                  (case index_walk (cp_index p) (cp_min_indexed_len p) domain of
                     Some slots \<Rightarrow> indexed_winner slots
                   | None \<Rightarrow> None)
         else None)
      in advanced_loop re_is_match domain winner (cp_advanced p))"

definition evaluate_attributed ::
  "('p \<Rightarrow> string \<Rightarrow> bool) \<Rightarrow> 'p compiled_profile \<Rightarrow> string \<Rightarrow> external_matches \<Rightarrow> reduced_decision"
where
  "evaluate_attributed re_is_match p domain external =
     reduce (lookup_hit re_is_match p domain) None (cp_block_all p) external"

definition profile_evaluate ::
  "('p \<Rightarrow> string \<Rightarrow> bool) \<Rightarrow> 'p compiled_profile \<Rightarrow> string \<Rightarrow> external_matches \<Rightarrow> verdict"
where
  "profile_evaluate re_is_match p domain external =
     (case lookup_hit re_is_match p domain of
        Some hit \<Rightarrow> if tier_is_allow (rh_tier hit) then VForward else VBlock
      | None \<Rightarrow> if cp_block_all p \<or> external = EDeny then VBlock else VForward)"

definition reduce_target ::
  "('p \<Rightarrow> string \<Rightarrow> bool) \<Rightarrow> 'p compiled_profile \<Rightarrow> string \<Rightarrow> allow_grant option
     \<Rightarrow> external_matches \<Rightarrow> reduced_decision"
where
  "reduce_target re_is_match p domain grant external =
     reduce (lookup_hit re_is_match p domain) grant (cp_block_all p) external"

text \<open>A hit with its attribution; the rank is read back from the store.\<close>

definition attribution :: "'p compiled_profile \<Rightarrow> u32 option \<Rightarrow> (ranked_hit \<times> rule_origin) option" where
  "attribution p token =
     map_option (\<lambda>t. let r = rs_rules (cp_store p) ! unat t
                     in (\<lparr>rh_tier = ast_tier (sr_ast r), rh_token = t\<rparr>, sr_origin r)) token"

definition mounted_rules :: "'p compiled_profile \<Rightarrow> ranked_hit list" where
  "mounted_rules p =
     map (\<lambda>t. \<lparr>rh_tier = ast_tier (sr_ast (rs_rules (cp_store p) ! unat t)), rh_token = t\<rparr>)
       (cp_mounted p)"

datatype match_projection = ProjExact | ProjWildcardApex | ProjWildcardDescendant | ProjRegex

definition match_projection_of ::
  "('p \<Rightarrow> string \<Rightarrow> bool) \<Rightarrow> 'p stored_rule \<Rightarrow> string \<Rightarrow> match_projection option"
where
  "match_projection_of re_is_match r domain =
     (case ast_pattern (sr_ast r) of
        OpExact sfx \<Rightarrow>
          if domain = sfx \<or> adv_descendant domain sfx then Some ProjExact else None
      | OpWildcard sfx \<Rightarrow>
          if domain = sfx \<and> \<not> ast_noapex (sr_ast r) then Some ProjWildcardApex
          else if adv_descendant domain sfx then Some ProjWildcardDescendant
          else None
      | OpRegex _ _ \<Rightarrow>
          (case sr_program r of
             Some program \<Rightarrow> if re_is_match program domain then Some ProjRegex else None
           | None \<Rightarrow> None))"

definition explain ::
  "('p \<Rightarrow> string \<Rightarrow> bool) \<Rightarrow> 'p compiled_profile \<Rightarrow> string \<Rightarrow> (ranked_hit \<times> match_projection) list"
where
  "explain re_is_match p domain =
     List.map_filter
       (\<lambda>hit. map_option (\<lambda>proj. (hit, proj))
          (match_projection_of re_is_match (rs_rules (cp_store p) ! unat (rh_token hit)) domain))
       (mounted_rules p)"

section \<open>Building the index\<close>

text \<open>First pass: record each rule under its indexed name and collect the advanced rules.\<close>

fun index_step ::
  "'p stored_rule list \<Rightarrow> exact_index \<times> 'p advanced_rule list \<times> nat \<Rightarrow> u32
     \<Rightarrow> (string, exact_index \<times> 'p advanced_rule list \<times> nat) result"
where
  "index_step rules (ix, adv, min_len) token =
     (let r = rules ! unat token;
          hit = \<lparr>rh_tier = ast_tier (sr_ast r), rh_token = token\<rparr>;
          i = tier_index (rh_tier hit);
          (ix', min_len') =
            (case indexed_domain (sr_ast r) of
               Some d \<Rightarrow>
                 (let slots = unwrap_or (replicate 4 EMPTY_TOKEN) (map_of ix d)
                  in (AList.update d (slots[i := min (slots ! i) token]) ix,
                      min min_len (if length d \<le> 255 then length d else 255)))
             | None \<Rightarrow> (ix, min_len))
      in case ast_pattern (sr_ast r) of
           OpExact _ \<Rightarrow> Inr (ix', adv, min_len')
         | OpWildcard sfx \<Rightarrow>
             Inr (ix', adv @ [\<lparr>adv_pattern = AdvWildcard sfx, adv_hit = hit\<rparr>], min_len')
         | OpRegex _ _ \<Rightarrow>
             (case sr_program r of
                Some program \<Rightarrow>
                  Inr (ix', adv @ [\<lparr>adv_pattern = AdvRegex program, adv_hit = hit\<rparr>], min_len')
              | None \<Rightarrow> Inl ''preflight compiles every regex''))"

text \<open>The suffixes the \<open>while let Some(relative) = domain[offset..].find('.')\<close> loop reaches.\<close>

fun after_dots :: "string \<Rightarrow> string list" where
  "after_dots [] = []"
| "after_dots (b # rest) = (if b = CHR ''.'' then rest # after_dots rest else after_dots rest)"

definition ancestor_winners :: "exact_index \<Rightarrow> string \<Rightarrow> exact_slots" where
  "ancestor_winners ix domain =
     foldl (\<lambda>acc sfx. case map_of ix sfx of None \<Rightarrow> acc | Some slots \<Rightarrow> map2 min acc slots)
       (replicate 4 EMPTY_TOKEN) (after_dots domain)"

text \<open>Second pass: fold the winners of all indexed ancestors into each indexed name.\<close>

definition propagate_step ::
  "'p stored_rule list \<Rightarrow> exact_index \<Rightarrow> u32 \<Rightarrow> (string, exact_index) result"
where
  "propagate_step rules ix token =
     (case indexed_domain (sr_ast (rules ! unat token)) of
        None \<Rightarrow> Inr ix
      | Some d \<Rightarrow>
          (case map_of ix d of
             None \<Rightarrow> Inl ''indexed rule creates its domain entry''
           | Some slots \<Rightarrow> Inr (AList.update d (map2 min slots (ancestor_winners ix d)) ix)))"

definition build_index ::
  "'p stored_rule list \<Rightarrow> u32 list \<Rightarrow> (string, exact_index \<times> 'p advanced_rule list \<times> nat) result"
where
  "build_index rules tokens =
     rbind (try_fold (index_step rules) ([], [], 255) tokens) (\<lambda>(ix, adv, min_len).
     rbind (try_fold (propagate_step rules) ix tokens) (\<lambda>ix'.
       Inr (ix', adv, min_len)))"

section \<open>Grants across a request (decision.rs)\<close>

record request_grant =
  rg_issuer :: address
  rg_grant :: allow_grant

definition is_issued_by :: "request_grant \<Rightarrow> 'p compiled_profile \<Rightarrow> bool" where
  "is_issued_by g p \<longleftrightarrow> rg_issuer g = cp_addr p"

definition decision_grant :: "'p compiled_profile \<Rightarrow> reduced_decision \<Rightarrow> request_grant option" where
  "decision_grant p d =
     (case rd_allow_grant d of
        None \<Rightarrow> None
      | Some g \<Rightarrow>
          (case ag_origin g of
             OriginRule \<Rightarrow> Some \<lparr>rg_issuer = cp_addr p, rg_grant = g\<rparr>
           | OriginRequest \<Rightarrow> None))"

definition evaluate_target ::
  "('p \<Rightarrow> string \<Rightarrow> bool) \<Rightarrow> 'p compiled_profile \<Rightarrow> reduced_decision \<Rightarrow> string \<Rightarrow> external_matches
     \<Rightarrow> bool \<Rightarrow> reduced_decision"
where
  "evaluate_target re_is_match p d domain external structurally_valid =
     (if \<not> structurally_valid then decision_BLOCK
      else if rd_verdict d = VBlock then d
      else reduce_target re_is_match p domain (rd_allow_grant d) external)"

definition response_ip_verdict :: "reduced_decision \<Rightarrow> bool \<Rightarrow> bool \<Rightarrow> verdict" where
  "response_ip_verdict d external_deny structurally_valid =
     (if \<not> structurally_valid \<or> rd_verdict d = VBlock \<or> (external_deny \<and> rd_allow_grant d = None)
      then VBlock else VForward)"

definition evaluate_target_with_grant ::
  "('p \<Rightarrow> string \<Rightarrow> bool) \<Rightarrow> 'p compiled_profile \<Rightarrow> string \<Rightarrow> request_grant option \<Rightarrow> external_matches
     \<Rightarrow> bool \<Rightarrow> reduced_decision"
where
  "evaluate_target_with_grant re_is_match p domain grant external structurally_valid =
     (let inherited =
        (case grant of
           None \<Rightarrow> None
         | Some g \<Rightarrow>
             if is_issued_by g p
             then Some \<lparr>ag_tier = ag_tier (rg_grant g), ag_token = ag_token (rg_grant g),
                        ag_origin = OriginRequest\<rparr>
             else None)
      in if structurally_valid then reduce_target re_is_match p domain inherited external
         else decision_BLOCK)"

end
