(* ===== verification/Operator_Lookup.thy ===== *)
theory Operator_Lookup
  imports Operator_Profile
begin

text \<open>
  The compiled lookup is correct: for every name it returns the winner among all
  mounted rules that match the name, the ones \<open>explain\<close> enumerates.  The index
  keeps only winners, so the proof shows that the propagation pass makes every
  indexed name hold the winners of its whole chain of ancestors, and that the
  deepest indexed suffix of a query therefore answers for all of them.
\<close>

section \<open>Slots\<close>

definition slots_of :: "(rule_tier \<Rightarrow> u32) \<Rightarrow> exact_slots" where
  "slots_of f = [f OrdinaryDeny, f OrdinaryAllow, f ImportantDeny, f ImportantAllow]"

lemma slots_of_nth [simp]: "slots_of f ! tier_index t = f t"
  by (cases t) (simp_all add: slots_of_def numeral_eq_Suc)

lemma slots_of_update: "(slots_of f)[tier_index t := v] = slots_of (f(t := v))"
  by (cases t) (simp_all add: slots_of_def numeral_eq_Suc)

lemma slots_of_map2: "map2 min (slots_of f) (slots_of g) = slots_of (\<lambda>t. min (f t) (g t))"
  by (simp add: slots_of_def)

lemma slots_of_empty: "replicate 4 EMPTY_TOKEN = slots_of (\<lambda>_. EMPTY_TOKEN)"
  by (simp add: slots_of_def numeral_eq_Suc)

lemma slots_of_inj [simp]: "slots_of f = slots_of g \<longleftrightarrow> f = g"
proof
  assume e: "slots_of f = slots_of g"
  show "f = g"
  proof
    fix t show "f t = g t" using e slots_of_nth [of f t] slots_of_nth [of g t] by simp
  qed
qed simp

text \<open>The least token of a set, \<^const>\<open>EMPTY_TOKEN\<close> for none.\<close>

definition min_tok :: "u32 set \<Rightarrow> u32" where
  "min_tok S = Min (insert EMPTY_TOKEN S)"

lemma le_EMPTY_TOKEN [simp]: "u \<le> EMPTY_TOKEN"
  by (simp add: EMPTY_TOKEN_def)

lemma min_tok_empty [simp]: "min_tok {} = EMPTY_TOKEN"
  by (simp add: min_tok_def)

lemma min_tok_Un: "finite S \<Longrightarrow> finite T \<Longrightarrow> min_tok (S \<union> T) = min (min_tok S) (min_tok T)"
  unfolding min_tok_def by (subst Min_Un [symmetric]) (simp_all add: insert_commute)

lemma min_tok_insert: "finite S \<Longrightarrow> min_tok (insert u S) = min u (min_tok S)"
proof -
  have "min_tok {u} = u" by (simp add: min_tok_def min_absorb2)
  then show "finite S \<Longrightarrow> min_tok (insert u S) = min u (min_tok S)"
    using min_tok_Un [of "{u}" S] by simp
qed

lemma min_tok_mono: "finite T \<Longrightarrow> S \<subseteq> T \<Longrightarrow> min_tok T \<le> min_tok S"
  unfolding min_tok_def by (rule Min_antimono) auto

lemma min_tok_member:
  "finite S \<Longrightarrow> min_tok S \<noteq> EMPTY_TOKEN \<Longrightarrow> min_tok S \<in> S"
  using Min_in [of "insert EMPTY_TOKEN S"] by (auto simp: min_tok_def)

lemma min_tok_le: "finite S \<Longrightarrow> u \<in> S \<Longrightarrow> min_tok S \<le> u"
  by (simp add: min_tok_def)

section \<open>Tokens of a profile\<close>

definition tok_dom :: "'p stored_rule list \<Rightarrow> u32 \<Rightarrow> string option" where
  "tok_dom rules u = indexed_domain (sr_ast (rules ! unat u))"

definition tok_tier :: "'p stored_rule list \<Rightarrow> u32 \<Rightarrow> rule_tier" where
  "tok_tier rules u = ast_tier (sr_ast (rules ! unat u))"

definition tok_hit :: "'p stored_rule list \<Rightarrow> u32 \<Rightarrow> ranked_hit" where
  "tok_hit rules u = \<lparr>rh_tier = tok_tier rules u, rh_token = u\<rparr>"

definition own_toks :: "'p stored_rule list \<Rightarrow> u32 list \<Rightarrow> string \<Rightarrow> rule_tier \<Rightarrow> u32 set" where
  "own_toks rules toks k t = {u \<in> set toks. tok_dom rules u = Some k \<and> tok_tier rules u = t}"

definition zone_toks :: "'p stored_rule list \<Rightarrow> u32 list \<Rightarrow> string \<Rightarrow> rule_tier \<Rightarrow> u32 set" where
  "zone_toks rules toks k t =
     {u \<in> set toks. (\<exists>s. tok_dom rules u = Some s \<and> covers s k) \<and> tok_tier rules u = t}"

definition own_winner :: "'p stored_rule list \<Rightarrow> u32 list \<Rightarrow> string \<Rightarrow> rule_tier \<Rightarrow> u32" where
  "own_winner rules toks k t = min_tok (own_toks rules toks k t)"

definition zone_winner :: "'p stored_rule list \<Rightarrow> u32 list \<Rightarrow> string \<Rightarrow> rule_tier \<Rightarrow> u32" where
  "zone_winner rules toks k t = min_tok (zone_toks rules toks k t)"

definition indexed_names :: "'p stored_rule list \<Rightarrow> u32 list \<Rightarrow> string set" where
  "indexed_names rules toks = {k. \<exists>u \<in> set toks. tok_dom rules u = Some k}"

lemma finite_toks [simp]: "finite (own_toks rules toks k t)" "finite (zone_toks rules toks k t)"
  by (simp_all add: own_toks_def zone_toks_def)

lemma zone_winner_le_own_winner: "covers a k \<Longrightarrow> zone_winner rules toks k t \<le> own_winner rules toks a t"
  unfolding zone_winner_def own_winner_def by (rule min_tok_mono) (auto simp: own_toks_def zone_toks_def)

lemma zone_winner_antimono: "covers a k \<Longrightarrow> zone_winner rules toks k t \<le> zone_winner rules toks a t"
  unfolding zone_winner_def
  by (rule min_tok_mono) (auto simp: zone_toks_def dest: covers_trans)

lemma zone_winner_attained:
  assumes "zone_winner rules toks k t \<noteq> EMPTY_TOKEN"
  shows "\<exists>a. covers a k \<and> a \<in> indexed_names rules toks \<and> own_winner rules toks a t \<le> zone_winner rules toks k t"
proof -
  have "zone_winner rules toks k t \<in> zone_toks rules toks k t"
    using assms min_tok_member by (simp add: zone_winner_def)
  then obtain s where s: "tok_dom rules (zone_winner rules toks k t) = Some s" "covers s k"
      "zone_winner rules toks k t \<in> set toks" "tok_tier rules (zone_winner rules toks k t) = t"
    by (auto simp: zone_toks_def)
  then have "own_winner rules toks s t \<le> zone_winner rules toks k t"
    unfolding own_winner_def by (intro min_tok_le) (auto simp: own_toks_def)
  then show ?thesis using s by (auto simp: indexed_names_def)
qed

section \<open>The first pass\<close>

declare index_step.simps [simp del]

definition adv_of :: "'p stored_rule list \<Rightarrow> u32 \<Rightarrow> 'p advanced_rule list" where
  "adv_of rules u =
     (case ast_pattern (sr_ast (rules ! unat u)) of
        OpExact _ \<Rightarrow> []
      | OpWildcard s \<Rightarrow> [\<lparr>adv_pattern = AdvWildcard s, adv_hit = tok_hit rules u\<rparr>]
      | OpRegex _ _ \<Rightarrow>
          (case sr_program (rules ! unat u) of
             Some p \<Rightarrow> [\<lparr>adv_pattern = AdvRegex p, adv_hit = tok_hit rules u\<rparr>]
           | None \<Rightarrow> []))"

definition programs_ready :: "'p stored_rule list \<Rightarrow> u32 list \<Rightarrow> bool" where
  "programs_ready rules toks \<longleftrightarrow>
     (\<forall>u \<in> set toks. \<forall>s ci. ast_pattern (sr_ast (rules ! unat u)) = OpRegex s ci \<longrightarrow>
        sr_program (rules ! unat u) \<noteq> None)"

definition index_is :: "exact_index \<Rightarrow> string set \<Rightarrow> (string \<Rightarrow> rule_tier \<Rightarrow> u32) \<Rightarrow> bool" where
  "index_is ix names f \<longleftrightarrow>
     (\<forall>k. map_of ix k = (if k \<in> names then Some (slots_of (f k)) else None))"

definition min_len_ok :: "nat \<Rightarrow> string set \<Rightarrow> bool" where
  "min_len_ok m names \<longleftrightarrow> (\<forall>k \<in> names. m \<le> length k)"

lemma own_toks_snoc:
  "own_toks rules (toks @ [u]) k t =
     (if tok_dom rules u = Some k \<and> tok_tier rules u = t then insert u (own_toks rules toks k t)
      else own_toks rules toks k t)"
  by (auto simp: own_toks_def)

lemma own_winner_snoc:
  "own_winner rules (toks @ [u]) k t =
     (if tok_dom rules u = Some k \<and> tok_tier rules u = t then min (own_winner rules toks k t) u
      else own_winner rules toks k t)"
  by (simp add: own_winner_def own_toks_snoc min_tok_insert min.commute)

lemma own_winner_absent: "k \<notin> indexed_names rules toks \<Longrightarrow> own_winner rules toks k t = EMPTY_TOKEN"
proof -
  assume "k \<notin> indexed_names rules toks"
  then have "own_toks rules toks k t = {}" by (auto simp: own_toks_def indexed_names_def)
  then show ?thesis by (simp add: own_winner_def)
qed

lemma own_winner_snoc_fun:
  "own_winner rules (toks @ [u]) k =
     (if tok_dom rules u = Some k
      then (own_winner rules toks k)(tok_tier rules u := min (own_winner rules toks k (tok_tier rules u)) u)
      else own_winner rules toks k)"
  by (auto simp: fun_eq_iff own_winner_snoc)

lemma indexed_names_snoc:
  "indexed_names rules (toks @ [u]) =
     (case tok_dom rules u of None \<Rightarrow> indexed_names rules toks
      | Some d \<Rightarrow> insert d (indexed_names rules toks))"
  by (auto simp: indexed_names_def split: option.splits)

lemma index_slots_or_empty:
  assumes "index_is ix (indexed_names rules toks) (own_winner rules toks)"
  shows "unwrap_or (replicate 4 EMPTY_TOKEN) (map_of ix d) = slots_of (own_winner rules toks d)"
proof (cases "d \<in> indexed_names rules toks")
  case False
  then have "own_winner rules toks d = (\<lambda>_. EMPTY_TOKEN)" by (simp add: fun_eq_iff own_winner_absent)
  then show ?thesis using assms False by (simp add: index_is_def slots_of_empty)
qed (use assms in \<open>simp add: index_is_def\<close>)

lemma index_step_correct:
  assumes "index_is ix (indexed_names rules toks) (own_winner rules toks)"
    and "min_len_ok m (indexed_names rules toks)" "m \<le> 255"
    and "programs_ready rules [u]"
  shows "\<exists>ix' m'. index_step rules (ix, adv, m) u = Inr (ix', adv @ adv_of rules u, m')
    \<and> index_is ix' (indexed_names rules (toks @ [u])) (own_winner rules (toks @ [u]))
    \<and> min_len_ok m' (indexed_names rules (toks @ [u])) \<and> m' \<le> 255"
proof (cases "tok_dom rules u")
  case None
  have "index_step rules (ix, adv, m) u = Inr (ix, adv @ adv_of rules u, m)"
    using None assms(4)
    by (auto simp: index_step.simps tok_dom_def adv_of_def tok_hit_def tok_tier_def programs_ready_def Let_def
        split: operator_pattern.splits option.splits)
  moreover have "own_winner rules (toks @ [u]) = own_winner rules toks"
    using None by (simp add: fun_eq_iff own_winner_snoc)
  ultimately show ?thesis using None assms by (simp add: indexed_names_snoc)
next
  case (Some d)
  let ?ix = "AList.update d (slots_of (own_winner rules (toks @ [u]) d)) ix"
  let ?m = "min m (if length d \<le> 255 then length d else 255)"
  have "index_step rules (ix, adv, m) u = Inr (?ix, adv @ adv_of rules u, ?m)"
    using Some assms(4) index_slots_or_empty [OF assms(1), of d]
    by (auto simp: index_step.simps tok_dom_def adv_of_def tok_hit_def tok_tier_def programs_ready_def Let_def
        own_winner_snoc_fun slots_of_update split: operator_pattern.splits option.splits)
  moreover have "index_is ?ix (indexed_names rules (toks @ [u])) (own_winner rules (toks @ [u]))"
    using Some assms(1) by (auto simp: index_is_def update_conv indexed_names_snoc own_winner_snoc_fun)
  moreover have "min_len_ok ?m (indexed_names rules (toks @ [u]))" "?m \<le> 255"
    using Some assms(2,3) by (auto simp: min_len_ok_def indexed_names_snoc)
  ultimately show ?thesis by blast
qed

lemma programs_ready_simps [simp]:
  "programs_ready rules (xs @ ys) \<longleftrightarrow> programs_ready rules xs \<and> programs_ready rules ys"
  by (auto simp: programs_ready_def)

lemma first_pass:
  assumes "programs_ready rules toks"
  shows "\<exists>ix m. try_fold (index_step rules) ([], [], 255) toks = Inr (ix, concat (map (adv_of rules) toks), m)
    \<and> index_is ix (indexed_names rules toks) (own_winner rules toks)
    \<and> min_len_ok m (indexed_names rules toks) \<and> m \<le> 255"
  using assms
proof (induction toks rule: rev_induct)
  case Nil
  show ?case by (simp add: index_is_def indexed_names_def min_len_ok_def)
next
  case (snoc u toks)
  then obtain ix m where IH:
    "try_fold (index_step rules) ([], [], 255) toks = Inr (ix, concat (map (adv_of rules) toks), m)"
    "index_is ix (indexed_names rules toks) (own_winner rules toks)"
    "min_len_ok m (indexed_names rules toks)" "m \<le> 255"
    by auto
  show ?case
    using index_step_correct [OF IH(2-4), of u "concat (map (adv_of rules) toks)"] snoc.prems IH(1)
    by (auto simp: try_fold_append rbind_Inr_iff)
qed

section \<open>The second pass\<close>

lemma set_after_dots: "s \<in> set (after_dots d) \<longleftrightarrow> (\<exists>p. d = p @ CHR ''.'' # s)"
proof (induction d)
  case (Cons b rest)
  show ?case using Cons.IH by (auto simp: ex_append_Cons)
qed simp

lemma foldl_min_slots:
  assumes "\<And>s. s \<in> set ks \<Longrightarrow> map_of ix s = (if s \<in> names then Some (slots_of (f s)) else None)"
  shows "\<exists>g. foldl (\<lambda>acc sfx. case map_of ix sfx of None \<Rightarrow> acc | Some slots \<Rightarrow> map2 min acc slots)
      (slots_of a) ks = slots_of g
    \<and> (\<forall>t. g t \<le> a t \<and> (\<forall>s \<in> set ks \<inter> names. g t \<le> f s t)
         \<and> (g t = a t \<or> (\<exists>s \<in> set ks \<inter> names. g t = f s t)))"
  using assms
proof (induction ks arbitrary: a)
  case Nil
  show ?case by auto
next
  case (Cons k ks)
  show ?case
  proof (cases "k \<in> names")
    case False
    then show ?thesis using Cons.IH [of a] Cons.prems by auto
  next
    case True
    let ?a = "\<lambda>t. min (a t) (f k t)"
    obtain g where g: "foldl (\<lambda>acc sfx. case map_of ix sfx of None \<Rightarrow> acc | Some slots \<Rightarrow> map2 min acc slots)
        (slots_of ?a) ks = slots_of g"
      and gt: "\<forall>t. g t \<le> ?a t \<and> (\<forall>s \<in> set ks \<inter> names. g t \<le> f s t)
         \<and> (g t = ?a t \<or> (\<exists>s \<in> set ks \<inter> names. g t = f s t))"
      using Cons.IH [of ?a] Cons.prems by fastforce
    have "g t \<le> a t \<and> (\<forall>s \<in> set (k # ks) \<inter> names. g t \<le> f s t)
        \<and> (g t = a t \<or> (\<exists>s \<in> set (k # ks) \<inter> names. g t = f s t))" for t
      using gt [rule_format, of t] True by (auto simp: min_def split: if_splits)
    moreover have "foldl (\<lambda>acc sfx. case map_of ix sfx of None \<Rightarrow> acc | Some slots \<Rightarrow> map2 min acc slots)
        (slots_of a) (k # ks) = slots_of g"
      using g Cons.prems [of k] True by (simp add: slots_of_map2)
    ultimately show ?thesis by blast
  qed
qed

definition between :: "'p stored_rule list \<Rightarrow> u32 list \<Rightarrow> string set \<Rightarrow> (string \<Rightarrow> rule_tier \<Rightarrow> u32) \<Rightarrow> bool" where
  "between rules toks done f \<longleftrightarrow>
     (\<forall>k t. zone_winner rules toks k t \<le> f k t \<and> f k t \<le> own_winner rules toks k t
        \<and> (k \<in> done \<longrightarrow> f k t = zone_winner rules toks k t))"

lemma propagate_value:
  assumes ix: "index_is ix (indexed_names rules toks) f" and f: "between rules toks done f"
    and k: "k \<in> indexed_names rules toks" "[] \<notin> indexed_names rules toks"
  shows "map2 min (slots_of (f k)) (ancestor_winners ix k) = slots_of (zone_winner rules toks k)"
proof -
  let ?N = "indexed_names rules toks"
  obtain g where g: "ancestor_winners ix k = slots_of g"
    and gt: "\<And>t s. s \<in> set (after_dots k) \<inter> ?N \<Longrightarrow> g t \<le> f s t"
    and ga: "\<And>t. g t = EMPTY_TOKEN \<or> (\<exists>s \<in> set (after_dots k) \<inter> ?N. g t = f s t)"
    using foldl_min_slots [of "after_dots k" ix ?N f "\<lambda>_. EMPTY_TOKEN"] ix
    by (auto simp: ancestor_winners_def slots_of_empty index_is_def)
  have anc: "covers s k" if "s \<in> set (after_dots k) \<inter> ?N" for s
  proof -
    have "s \<noteq> []" using that k(2) by blast
    then show ?thesis using that by (auto simp: set_after_dots covers_def is_subdomain_of_iff)
  qed
  have "min (f k t) (g t) = zone_winner rules toks k t" for t
  proof (rule order.antisym)
    show "zone_winner rules toks k t \<le> min (f k t) (g t)"
    proof -
      have "zone_winner rules toks k t \<le> f s t" if "s \<in> set (after_dots k) \<inter> ?N" for s
        using anc [OF that] zone_winner_antimono f unfolding between_def by (meson order.trans)
      then have "zone_winner rules toks k t \<le> g t" using ga [of t] by auto
      then show ?thesis using f by (simp add: between_def)
    qed
    show "min (f k t) (g t) \<le> zone_winner rules toks k t"
    proof (cases "zone_winner rules toks k t = EMPTY_TOKEN")
      case False
      then obtain a where a: "covers a k" "a \<in> ?N" "own_winner rules toks a t \<le> zone_winner rules toks k t"
        using zone_winner_attained by blast
      then have fa: "f a t \<le> zone_winner rules toks k t"
        using f unfolding between_def by (meson order.trans)
      show ?thesis
      proof (cases "a = k")
        case False
        then have "a \<in> set (after_dots k) \<inter> ?N"
          using a by (auto simp: covers_def is_subdomain_of_iff set_after_dots)
        then show ?thesis using gt [of a t] fa by (meson min.coboundedI2 order.trans)
      qed (use fa in \<open>simp add: min.coboundedI1\<close>)
    qed simp
  qed
  then have "(\<lambda>t. min (f k t) (g t)) = zone_winner rules toks k" by (simp add: fun_eq_iff)
  then show ?thesis by (simp add: g slots_of_map2)
qed

lemma second_pass_prefix:
  assumes "index_is ix (indexed_names rules toks) (own_winner rules toks)" "[] \<notin> indexed_names rules toks"
    and "set ps \<subseteq> set toks"
  shows "\<exists>ix' f. try_fold (propagate_step rules) ix ps = Inr ix'
    \<and> index_is ix' (indexed_names rules toks) f \<and> between rules toks (indexed_names rules ps) f"
  using assms(3)
proof (induction ps rule: rev_induct)
  case Nil
  have "between rules toks (indexed_names rules []) (own_winner rules toks)"
    by (simp add: between_def indexed_names_def zone_winner_le_own_winner)
  then show ?case using assms(1) by auto
next
  case (snoc u ps)
  then obtain ix' f where IH: "try_fold (propagate_step rules) ix ps = Inr ix'"
      "index_is ix' (indexed_names rules toks) f" "between rules toks (indexed_names rules ps) f"
    by auto
  show ?case
  proof (cases "tok_dom rules u")
    case None
    then have "propagate_step rules ix' u = Inr ix'"
      by (simp add: propagate_step_def tok_dom_def)
    moreover have "indexed_names rules (ps @ [u]) = indexed_names rules ps"
      using None by (simp add: indexed_names_snoc)
    ultimately show ?thesis using IH by (auto simp: try_fold_append)
  next
    case (Some k)
    let ?f = "f(k := zone_winner rules toks k)"
    let ?ix = "AList.update k (slots_of (zone_winner rules toks k)) ix'"
    have k: "k \<in> indexed_names rules toks"
      using Some snoc.prems by (auto simp: indexed_names_def)
    then have "propagate_step rules ix' u = Inr ?ix"
      using Some IH(2) propagate_value [OF IH(2,3) k assms(2)]
      by (simp add: propagate_step_def tok_dom_def index_is_def)
    moreover have "index_is ?ix (indexed_names rules toks) ?f"
      using IH(2) k by (simp add: index_is_def update_conv)
    moreover have "between rules toks (indexed_names rules (ps @ [u])) ?f"
      using IH(3) Some zone_winner_le_own_winner [OF covers_refl, of rules toks k]
      by (auto simp: between_def indexed_names_snoc)
    ultimately show ?thesis using IH(1) by (auto simp: try_fold_append)
  qed
qed

lemma second_pass:
  assumes "index_is ix (indexed_names rules toks) (own_winner rules toks)" "[] \<notin> indexed_names rules toks"
  shows "\<exists>ix'. try_fold (propagate_step rules) ix toks = Inr ix'
    \<and> index_is ix' (indexed_names rules toks) (zone_winner rules toks)"
proof -
  obtain ix' f where f: "try_fold (propagate_step rules) ix toks = Inr ix'"
      "index_is ix' (indexed_names rules toks) f" "between rules toks (indexed_names rules toks) f"
    using second_pass_prefix [OF assms, of toks] by auto
  then have "index_is ix' (indexed_names rules toks) (zone_winner rules toks)"
    by (auto simp: index_is_def between_def fun_eq_iff)
  then show ?thesis using f by blast
qed

lemma build_index_correct:
  assumes "programs_ready rules toks" "[] \<notin> indexed_names rules toks"
  shows "\<exists>ix m. build_index rules toks = Inr (ix, concat (map (adv_of rules) toks), m)
    \<and> index_is ix (indexed_names rules toks) (zone_winner rules toks)
    \<and> min_len_ok m (indexed_names rules toks)"
proof -
  obtain ix m where p1:
    "try_fold (index_step rules) ([], [], 255) toks = Inr (ix, concat (map (adv_of rules) toks), m)"
    "index_is ix (indexed_names rules toks) (own_winner rules toks)" "min_len_ok m (indexed_names rules toks)"
    using first_pass [OF assms(1)] by blast
  then show ?thesis
    using second_pass [OF p1(2) assms(2)] by (auto simp: build_index_def)
qed

section \<open>The walk\<close>

lemma walk_keys_chain: "sorted_wrt (\<lambda>a b. covers b a) (walk_keys d)"
proof -
  have "sorted_wrt (\<lambda>a b. covers b a) (dot_suffixes d)"
  proof (induction d)
    case (Cons b rest)
    have "covers s rest" if "s \<in> set (dot_suffixes rest)" for s
      using that by (auto simp: set_dot_suffixes covers_def is_subdomain_of_iff)
    then show ?case using Cons by simp
  qed simp
  moreover have "covers s d" if "s \<in> set (dot_suffixes d)" for s
    using that by (auto simp: set_dot_suffixes covers_def is_subdomain_of_iff)
  ultimately show ?thesis by (simp add: walk_keys_def)
qed

lemma length_dot_suffixes: "s \<in> set (dot_suffixes d) \<Longrightarrow> length s < length d"
  by (auto simp: set_dot_suffixes)

lemma index_walk_find:
  assumes "\<And>k. map_of ix k \<noteq> None \<Longrightarrow> m \<le> length k \<and> k \<noteq> []"
  shows "index_walk ix m d =
    (case find (\<lambda>s. map_of ix s \<noteq> None) (dot_suffixes d) of None \<Rightarrow> None | Some s \<Rightarrow> map_of ix s)"
proof (induction d)
  case (Cons b rest)
  have none: "find (\<lambda>s. map_of ix s \<noteq> None) (dot_suffixes rest) = None" if "length rest < m"
    using assms length_dot_suffixes [of _ rest] that
    by (force simp: find_None_iff)
  have "map_of ix rest = None" if "length rest < m \<or> rest = []" using assms that by fastforce
  then show ?case using Cons none by (cases "map_of ix rest") (auto split: option.splits)
qed simp

lemma find_walk_keys:
  assumes "find P (walk_keys d) = Some k"
  shows "P k" and "covers k d" and "covers s d \<Longrightarrow> P s \<Longrightarrow> covers s k"
proof -
  obtain i where i: "i < length (walk_keys d)" "P (walk_keys d ! i)" "k = walk_keys d ! i"
    and before: "\<forall>j < i. \<not> P (walk_keys d ! j)"
    using assms by (auto simp: find_Some_iff)
  show "P k" using i by simp
  show "covers k d" using i set_walk_keys [of d] by (metis mem_Collect_eq nth_mem)
  show "covers s k" if "covers s d" "P s"
  proof -
    have "s \<in> set (walk_keys d)" using that(1) by (simp add: set_walk_keys)
    then obtain j where j: "j < length (walk_keys d)" "walk_keys d ! j = s"
      by (auto simp: in_set_conv_nth)
    then have "\<not> j < i" using before that(2) by blast
    then consider "i = j" | "i < j" by linarith
    then show ?thesis
    proof cases
      case 2
      then have "covers (walk_keys d ! j) (walk_keys d ! i)"
        using sorted_wrt_nth_less [OF walk_keys_chain [of d] 2 j(1)] by simp
      then show ?thesis using i j by simp
    qed (use i j in simp)
  qed
qed

lemma index_lookup:
  assumes ix: "index_is ix (indexed_names rules toks) (zone_winner rules toks)"
    and m: "min_len_ok m (indexed_names rules toks)" and ne: "[] \<notin> indexed_names rules toks"
  shows "(case map_of ix d of Some slots \<Rightarrow> Some slots | None \<Rightarrow> index_walk ix m d) =
    (if \<exists>s \<in> indexed_names rules toks. covers s d then Some (slots_of (zone_winner rules toks d)) else None)"
proof -
  let ?N = "indexed_names rules toks"
  have P: "(\<lambda>s. map_of ix s \<noteq> None) = (\<lambda>s. s \<in> ?N)"
    using ix by (simp add: index_is_def fun_eq_iff)
  have "index_walk ix m d =
      (case find (\<lambda>s. map_of ix s \<noteq> None) (dot_suffixes d) of None \<Rightarrow> None | Some s \<Rightarrow> map_of ix s)"
  proof (rule index_walk_find)
    fix k assume "map_of ix k \<noteq> None"
    then have "k \<in> ?N" using P by meson
    then show "m \<le> length k \<and> k \<noteq> []" using m ne by (auto simp: min_len_ok_def)
  qed
  then have "(case map_of ix d of Some slots \<Rightarrow> Some slots | None \<Rightarrow> index_walk ix m d) =
      (case find (\<lambda>s. map_of ix s \<noteq> None) (walk_keys d) of None \<Rightarrow> None | Some s \<Rightarrow> map_of ix s)"
    by (cases "map_of ix d") (simp_all add: walk_keys_def)
  then have walk: "(case map_of ix d of Some slots \<Rightarrow> Some slots | None \<Rightarrow> index_walk ix m d) =
      (case find (\<lambda>s. s \<in> ?N) (walk_keys d) of None \<Rightarrow> None | Some s \<Rightarrow> map_of ix s)"
    by (simp only: P)
  show ?thesis
  proof (cases "find (\<lambda>s. s \<in> ?N) (walk_keys d)")
    case None
    then have "\<not> (\<exists>s \<in> ?N. covers s d)" using set_walk_keys [of d] by (auto simp: find_None_iff)
    then show ?thesis unfolding walk None by simp
  next
    case (Some k)
    note k = find_walk_keys [OF Some]
    have "zone_toks rules toks d t = zone_toks rules toks k t" for t
      using k(2,3) by (auto simp: zone_toks_def indexed_names_def dest: covers_trans)
    then have "zone_winner rules toks d = zone_winner rules toks k"
      by (simp add: zone_winner_def fun_eq_iff)
    moreover have "map_of ix k = Some (slots_of (zone_winner rules toks k))"
      using k(1) ix by (simp add: index_is_def)
    moreover have "\<exists>s \<in> ?N. covers s d" using k(1,2) by blast
    ultimately show ?thesis unfolding walk Some by simp
  qed
qed

section \<open>Winners\<close>

definition zone_hits :: "'p stored_rule list \<Rightarrow> u32 list \<Rightarrow> string \<Rightarrow> ranked_hit list" where
  "zone_hits rules toks d =
     map (tok_hit rules) (filter (\<lambda>u. \<exists>s. tok_dom rules u = Some s \<and> covers s d) toks)"

lemma set_zone_hits:
  "h \<in> set (zone_hits rules toks d) \<longleftrightarrow> rh_token h \<in> zone_toks rules toks d (rh_tier h)"
  by (cases h) (auto simp: zone_hits_def zone_toks_def tok_hit_def)

lemma zone_winner_empty_iff:
  assumes "EMPTY_TOKEN \<notin> set toks"
  shows "zone_winner rules toks d t = EMPTY_TOKEN \<longleftrightarrow> zone_toks rules toks d t = {}"
proof -
  have False if "zone_winner rules toks d t = EMPTY_TOKEN" "u \<in> zone_toks rules toks d t" for u
  proof -
    have "EMPTY_TOKEN \<le> u" using that min_tok_le [of "zone_toks rules toks d t" u] by (simp add: zone_winner_def)
    then have "u = EMPTY_TOKEN" using le_EMPTY_TOKEN [of u] by (meson order.antisym)
    then show False using that assms by (simp add: zone_toks_def)
  qed
  then show ?thesis by (auto simp: zone_winner_def)
qed

lemma strongest_zone_hits:
  assumes toks: "EMPTY_TOKEN \<notin> set toks"
    and top: "zone_winner rules toks d t \<noteq> EMPTY_TOKEN" "\<And>t'. t < t' \<Longrightarrow> zone_winner rules toks d t' = EMPTY_TOKEN"
  shows "strongest keep_best (zone_hits rules toks d) = Some \<lparr>rh_tier = t, rh_token = zone_winner rules toks d t\<rparr>"
proof (rule hits.strongest_unique)
  have "zone_winner rules toks d t \<in> zone_toks rules toks d t"
    using top(1) min_tok_member by (simp add: zone_winner_def)
  then show "\<lparr>rh_tier = t, rh_token = zone_winner rules toks d t\<rparr> \<in> set (zone_hits rules toks d)"
    by (simp add: set_zone_hits)
  fix h assume h: "h \<in> set (zone_hits rules toks d)"
  then have z: "rh_token h \<in> zone_toks rules toks d (rh_tier h)" by (simp add: set_zone_hits)
  then have "\<not> t < rh_tier h" using top(2) zone_winner_empty_iff [OF toks] by blast
  moreover have "zone_winner rules toks d (rh_tier h) \<le> rh_token h"
    using z min_tok_le by (simp add: zone_winner_def)
  ultimately show "h = \<lparr>rh_tier = t, rh_token = zone_winner rules toks d t\<rparr>
      \<or> hit_rank h < hit_rank \<lparr>rh_tier = t, rh_token = zone_winner rules toks d t\<rparr>"
    by (cases h) (auto simp: hit_rank_less_iff)
qed

lemma stronger_tiers:
  "\<not> ImportantAllow < t" "ImportantDeny < t \<Longrightarrow> t = ImportantAllow"
  "OrdinaryAllow < t \<Longrightarrow> t = ImportantDeny \<or> t = ImportantAllow"
  "OrdinaryDeny < t \<Longrightarrow> t = OrdinaryAllow \<or> t = ImportantDeny \<or> t = ImportantAllow"
  by (cases t; simp add: less_rule_tier_def)+

lemma zone_hits_empty:
  assumes "EMPTY_TOKEN \<notin> set toks" "\<And>t. zone_winner rules toks d t = EMPTY_TOKEN"
  shows "zone_hits rules toks d = []"
  using assms zone_winner_empty_iff [OF assms(1)] set_zone_hits [of _ rules toks d]
  by (metis empty_iff list.set_sel(1))

lemma indexed_winner_zone:
  assumes toks: "EMPTY_TOKEN \<notin> set toks"
  shows "indexed_winner (slots_of (zone_winner rules toks d)) = strongest keep_best (zone_hits rules toks d)"
proof -
  let ?c = "zone_winner rules toks d"
  have top: "strongest keep_best (zone_hits rules toks d) = Some \<lparr>rh_tier = t, rh_token = ?c t\<rparr>"
    if "?c t \<noteq> EMPTY_TOKEN" "\<forall>t'. t < t' \<longrightarrow> ?c t' = EMPTY_TOKEN" for t
    using strongest_zone_hits [OF toks that(1)] that(2) by blast
  have high: "\<forall>t'. ImportantAllow < t' \<longrightarrow> ?c t' = EMPTY_TOKEN"
    "?c ImportantAllow = EMPTY_TOKEN \<Longrightarrow> \<forall>t'. ImportantDeny < t' \<longrightarrow> ?c t' = EMPTY_TOKEN"
    "?c ImportantAllow = EMPTY_TOKEN \<Longrightarrow> ?c ImportantDeny = EMPTY_TOKEN \<Longrightarrow>
       \<forall>t'. OrdinaryAllow < t' \<longrightarrow> ?c t' = EMPTY_TOKEN"
    "?c ImportantAllow = EMPTY_TOKEN \<Longrightarrow> ?c ImportantDeny = EMPTY_TOKEN \<Longrightarrow> ?c OrdinaryAllow = EMPTY_TOKEN \<Longrightarrow>
       \<forall>t'. OrdinaryDeny < t' \<longrightarrow> ?c t' = EMPTY_TOKEN"
    using stronger_tiers by metis+
  have none: "strongest keep_best (zone_hits rules toks d) = None"
    if "?c ImportantAllow = EMPTY_TOKEN" "?c ImportantDeny = EMPTY_TOKEN"
      "?c OrdinaryAllow = EMPTY_TOKEN" "?c OrdinaryDeny = EMPTY_TOKEN"
    using zone_hits_empty [OF toks, of rules d] that rule_tier.exhaust
    by (metis hits.strongest_None_iff)
  note w = top [OF _ high(1)] top [OF _ high(2)] top [OF _ high(3)] top [OF _ high(4)]
  show ?thesis
    by (cases "?c ImportantAllow = EMPTY_TOKEN"; cases "?c ImportantDeny = EMPTY_TOKEN";
        cases "?c OrdinaryAllow = EMPTY_TOKEN"; cases "?c OrdinaryDeny = EMPTY_TOKEN")
      (simp_all add: indexed_winner_def slots_of_def w none)
qed

lemma advanced_loop_fold:
  "advanced_loop re d w rs =
     foldl keep_best w (map adv_hit (filter (\<lambda>r. adv_matches re (adv_pattern r) d) rs))"
  by (induction rs arbitrary: w) (auto simp: keep_best_def)

section \<open>The lookup\<close>

definition profile_wf :: "'p compiled_profile \<Rightarrow> bool" where
  "profile_wf p \<longleftrightarrow>
     build_index (rs_rules (cp_store p)) (cp_mounted p) =
       Inr (cp_index p, cp_advanced p, cp_min_indexed_len p)
     \<and> programs_ready (rs_rules (cp_store p)) (cp_mounted p)
     \<and> [] \<notin> indexed_names (rs_rules (cp_store p)) (cp_mounted p)
     \<and> EMPTY_TOKEN \<notin> set (cp_mounted p)"

lemma lookup_hit_split:
  assumes "profile_wf p"
  shows "lookup_hit re p d = strongest keep_best
    (zone_hits (rs_rules (cp_store p)) (cp_mounted p) d @
     map adv_hit (filter (\<lambda>r. adv_matches re (adv_pattern r) d) (cp_advanced p)))"
proof -
  let ?rules = "rs_rules (cp_store p)" and ?toks = "cp_mounted p"
  have ix: "index_is (cp_index p) (indexed_names ?rules ?toks) (zone_winner ?rules ?toks)"
    and m: "min_len_ok (cp_min_indexed_len p) (indexed_names ?rules ?toks)"
    using assms build_index_correct [of ?rules ?toks] by (auto simp: profile_wf_def)
  have e: "EMPTY_TOKEN \<notin> set ?toks" and ne: "[] \<notin> indexed_names ?rules ?toks"
    using assms by (simp_all add: profile_wf_def)
  have none: "zone_hits ?rules ?toks d = []" if "\<not> (\<exists>s \<in> indexed_names ?rules ?toks. covers s d)"
    using that by (auto simp: zone_hits_def indexed_names_def filter_empty_conv)
  have "(if cp_index p \<noteq> []
         then case map_of (cp_index p) d of
                Some slots \<Rightarrow> indexed_winner slots
              | None \<Rightarrow> (case index_walk (cp_index p) (cp_min_indexed_len p) d of
                     Some slots \<Rightarrow> indexed_winner slots | None \<Rightarrow> None)
         else None) =
        (case (case map_of (cp_index p) d of Some slots \<Rightarrow> Some slots
               | None \<Rightarrow> index_walk (cp_index p) (cp_min_indexed_len p) d) of
           Some slots \<Rightarrow> indexed_winner slots | None \<Rightarrow> None)"
  proof (cases "cp_index p = []")
    case True
    have "index_walk [] n x = None" for n x
      by (induction x) auto
    then show ?thesis using True by simp
  qed (auto split: option.splits)
  also have "\<dots> = strongest keep_best (zone_hits ?rules ?toks d)"
    unfolding index_lookup [OF ix m ne] using none indexed_winner_zone [OF e, of ?rules d]
    by (auto simp: strongest_def)
  finally show ?thesis
    by (simp add: lookup_hit_def advanced_loop_fold hits.strongest_append)
qed

lemma adv_descendant_iff: "s \<noteq> [] \<Longrightarrow> adv_descendant d s = is_subdomain_of d s"
  by (simp add: adv_descendant_def is_subdomain_of_def)

lemma tok_matches_iff:
  assumes "programs_ready rules [u]" "tok_dom rules u \<noteq> Some []" "ast_pattern (sr_ast (rules ! unat u)) \<noteq> OpWildcard []"
  shows "match_projection_of re (rules ! unat u) d \<noteq> None \<longleftrightarrow>
    (\<exists>s. tok_dom rules u = Some s \<and> covers s d)
    \<or> (\<exists>r \<in> set (adv_of rules u). adv_matches re (adv_pattern r) d)"
proof (cases "ast_pattern (sr_ast (rules ! unat u))")
  case (OpRegex s ci)
  then show ?thesis
    using assms
    by (auto simp: match_projection_of_def adv_of_def tok_dom_def indexed_domain_def programs_ready_def
        split: option.splits)
qed (use assms in \<open>auto simp: match_projection_of_def adv_of_def tok_dom_def indexed_domain_def
      covers_def adv_descendant_iff\<close>)

lemma adv_of_hit: "r \<in> set (adv_of rules u) \<Longrightarrow> adv_hit r = tok_hit rules u"
  by (auto simp: adv_of_def split: operator_pattern.splits option.splits)

definition profile_rules_ok :: "'p compiled_profile \<Rightarrow> bool" where
  "profile_rules_ok p \<longleftrightarrow>
     (\<forall>u \<in> set (cp_mounted p).
        ast_pattern (sr_ast (rs_rules (cp_store p) ! unat u)) \<notin> {OpExact [], OpWildcard []})"

lemma set_explain:
  "set (map fst (explain re p d)) =
     tok_hit (rs_rules (cp_store p)) ` {u \<in> set (cp_mounted p).
       match_projection_of re (rs_rules (cp_store p) ! unat u) d \<noteq> None}"
  by (force simp: explain_def mounted_rules_def map_filter_def tok_hit_def tok_tier_def)

lemma lookup_hit_explain:
  assumes wf: "profile_wf p" and ok: "profile_rules_ok p"
  shows "lookup_hit re p d = strongest keep_best (map fst (explain re p d))"
proof -
  let ?rules = "rs_rules (cp_store p)" and ?toks = "cp_mounted p"
  have adv: "cp_advanced p = concat (map (adv_of ?rules) ?toks)"
    using wf build_index_correct [of ?rules ?toks] by (auto simp: profile_wf_def)
  have m: "match_projection_of re (?rules ! unat u) d \<noteq> None \<longleftrightarrow>
      (\<exists>s. tok_dom ?rules u = Some s \<and> covers s d)
      \<or> (\<exists>r \<in> set (adv_of ?rules u). adv_matches re (adv_pattern r) d)" if "u \<in> set ?toks" for u
  proof (rule tok_matches_iff)
    show "programs_ready ?rules [u]" using wf that by (auto simp: profile_wf_def programs_ready_def)
    show "tok_dom ?rules u \<noteq> Some []" using wf that by (auto simp: profile_wf_def indexed_names_def)
    show "ast_pattern (sr_ast (?rules ! unat u)) \<noteq> OpWildcard []"
      using ok that by (auto simp: profile_rules_ok_def)
  qed
  let ?A = "{u \<in> set ?toks. \<exists>s. tok_dom ?rules u = Some s \<and> covers s d}"
  let ?B = "{u \<in> set ?toks. \<exists>r \<in> set (adv_of ?rules u). adv_matches re (adv_pattern r) d}"
  have "set (map adv_hit (filter (\<lambda>r. adv_matches re (adv_pattern r) d) (cp_advanced p))) = tok_hit ?rules ` ?B"
    unfolding adv using adv_of_hit [of _ ?rules] by (auto simp: image_iff) force
  moreover have "set (zone_hits ?rules ?toks d) = tok_hit ?rules ` ?A"
    by (simp add: zone_hits_def)
  moreover have "{u \<in> set ?toks. match_projection_of re (?rules ! unat u) d \<noteq> None} = ?A \<union> ?B"
    using m by blast
  ultimately have "set (zone_hits ?rules ?toks d @
      map adv_hit (filter (\<lambda>r. adv_matches re (adv_pattern r) d) (cp_advanced p))) =
    set (map fst (explain re p d))"
    by (simp only: set_explain set_append image_Un)
  then show ?thesis
    unfolding lookup_hit_split [OF wf] by (rule strongest_hit_set)
qed

end
