(* ===== verification/Operator_Admission.thy ===== *)
theory Operator_Admission
  imports Operator_Limits
begin

text \<open>
  Admission control of the rule compiler, \<open>filter/operator_rules/admission.rs\<close>.
  Two atomic counters bound the concurrent builds and the bytes of all live
  snapshots.  Every builder runs \<open>begin\<close>, at most one \<open>charge\<close>, then either
  \<open>finish\<close> or an early drop; every snapshot lease is dropped once.  The counters
  are shared by all builders, so the operations are atomic steps that interleave
  freely; a compare-and-swap loop is one step at the value its exchange succeeds
  on.
\<close>

section \<open>Counters and operations\<close>

record admission =
  adm_max_bytes :: nat
  adm_max_builds :: nat
  adm_bytes :: nat
  adm_builds :: nat

definition admission_new :: "nat \<Rightarrow> nat \<Rightarrow> (budget_exceeded, admission) result" where
  "admission_new max_bytes max_builds =
     (if max_bytes = 0
      then Inl \<lparr>be_limit = ''admission_bytes'', be_actual = Some 0, be_maximum = USIZE_MAX\<rparr>
      else if max_builds = 0
      then Inl \<lparr>be_limit = ''concurrent_builds'', be_actual = Some 0, be_maximum = USIZE_MAX\<rparr>
      else Inr \<lparr>adm_max_bytes = max_bytes, adm_max_builds = max_builds, adm_bytes = 0, adm_builds = 0\<rparr>)"

definition reserve :: "nat \<Rightarrow> nat \<Rightarrow> nat \<Rightarrow> string \<Rightarrow> (budget_exceeded, nat) result" where
  "reserve old amount maximum limit =
     (let new = (if old + amount \<le> USIZE_MAX then Some (old + amount) else None)
      in case new of
           Some n \<Rightarrow> if n \<le> maximum then Inr n
                     else Inl \<lparr>be_limit = limit, be_actual = Some n, be_maximum = maximum\<rparr>
         | None \<Rightarrow> Inl \<lparr>be_limit = limit, be_actual = None, be_maximum = maximum\<rparr>)"

text \<open>\<open>AtomicUsize::fetch_sub\<close> wraps.\<close>

definition fetch_sub :: "nat \<Rightarrow> nat \<Rightarrow> nat" where
  "fetch_sub x y = (x + 2 ^ 64 - y) mod 2 ^ 64"

definition reserve_build :: "admission \<Rightarrow> (budget_exceeded, admission) result" where
  "reserve_build a =
     rbind (reserve (adm_builds a) 1 (adm_max_builds a) ''concurrent_builds'') (\<lambda>n.
       Inr (a\<lparr>adm_builds := n\<rparr>))"

definition reserve_bytes :: "admission \<Rightarrow> nat \<Rightarrow> (budget_exceeded, admission) result" where
  "reserve_bytes a ceiling =
     rbind (reserve (adm_bytes a) ceiling (adm_max_bytes a) ''admission_bytes'') (\<lambda>n.
       Inr (a\<lparr>adm_bytes := n\<rparr>))"

definition drop_build :: "admission \<Rightarrow> admission" where
  "drop_build a = a\<lparr>adm_builds := fetch_sub (adm_builds a) 1\<rparr>"

definition drop_lease :: "admission \<Rightarrow> nat \<Rightarrow> admission" where
  "drop_lease a bytes = a\<lparr>adm_bytes := fetch_sub (adm_bytes a) bytes\<rparr>"

text \<open>\<open>BuildLease::charge\<close>: \<^term>\<open>None\<close> is the assertion failure.\<close>

definition charge :: "admission \<Rightarrow> nat \<Rightarrow> nat \<Rightarrow> (admission \<times> nat) option" where
  "charge a lease bytes =
     (if bytes \<le> lease
      then Some (a\<lparr>adm_bytes := fetch_sub (adm_bytes a) (lease - bytes)\<rparr>, bytes)
      else None)"

text \<open>\<open>CompileAdmission::begin\<close> run without interleaving: the second reservation's
  failure drops the builder, which gives its slot back.\<close>

definition admission_begin :: "admission \<Rightarrow> nat \<Rightarrow> (budget_exceeded, nat) result \<times> admission" where
  "admission_begin a ceiling =
     (case reserve_build a of
        Inl e \<Rightarrow> (Inl e, a)
      | Inr a1 \<Rightarrow>
          (case reserve_bytes a1 ceiling of
             Inl e \<Rightarrow> (Inl e, drop_build a1)
           | Inr a2 \<Rightarrow> (Inr ceiling, a2)))"

section \<open>Interleaved builders\<close>

datatype build_phase = Reserving | Building nat

record admission_system =
  sys_adm :: admission
  sys_builders :: "build_phase list"
  sys_leases :: "nat list"

text \<open>Builders and leases are unordered; a step picks any of them.\<close>

inductive admission_step :: "admission_system \<Rightarrow> admission_system \<Rightarrow> bool" where
  begin_build:
    "reserve_build (sys_adm s) = Inr a \<Longrightarrow>
     admission_step s (s\<lparr>sys_adm := a, sys_builders := Reserving # sys_builders s\<rparr>)"
| begin_bytes:
    "sys_builders s = xs @ Reserving # ys \<Longrightarrow> reserve_bytes (sys_adm s) ceiling = Inr a \<Longrightarrow>
     admission_step s (s\<lparr>sys_adm := a, sys_builders := xs @ Building ceiling # ys\<rparr>)"
| begin_refused:
    "sys_builders s = xs @ Reserving # ys \<Longrightarrow> reserve_bytes (sys_adm s) ceiling = Inl e \<Longrightarrow>
     admission_step s (s\<lparr>sys_adm := drop_build (sys_adm s), sys_builders := xs @ ys\<rparr>)"
| charge_lease:
    "sys_builders s = xs @ Building b # ys \<Longrightarrow> charge (sys_adm s) b c = Some (a, b') \<Longrightarrow>
     admission_step s (s\<lparr>sys_adm := a, sys_builders := xs @ Building b' # ys\<rparr>)"
| leave_build:
    "sys_builders s = xs @ Building b # ys \<Longrightarrow>
     admission_step s (s\<lparr>sys_adm := drop_build (sys_adm s), sys_builders := xs @ ys,
                         sys_leases := b # sys_leases s\<rparr>)"
| release:
    "sys_leases s = xs @ b # ys \<Longrightarrow>
     admission_step s (s\<lparr>sys_adm := drop_lease (sys_adm s) b, sys_leases := xs @ ys\<rparr>)"

inductive admission_reach :: "admission \<Rightarrow> admission_system \<Rightarrow> bool" for a0 where
  start: "admission_reach a0 \<lparr>sys_adm = a0, sys_builders = [], sys_leases = []\<rparr>"
| step: "admission_reach a0 s \<Longrightarrow> admission_step s s' \<Longrightarrow> admission_reach a0 s'"

inductive_cases admission_stepE: "admission_step s s'"

section \<open>The counters are exact\<close>

fun held :: "build_phase \<Rightarrow> nat" where
  "held Reserving = 0"
| "held (Building b) = b"

definition held_bytes :: "admission_system \<Rightarrow> nat" where
  "held_bytes s = sum_list (map held (sys_builders s)) + sum_list (sys_leases s)"

definition admission_inv :: "admission_system \<Rightarrow> bool" where
  "admission_inv s \<longleftrightarrow>
     adm_bytes (sys_adm s) = held_bytes s \<and> adm_builds (sys_adm s) = length (sys_builders s)
     \<and> held_bytes s \<le> min (adm_max_bytes (sys_adm s)) USIZE_MAX
     \<and> length (sys_builders s) \<le> min (adm_max_builds (sys_adm s)) USIZE_MAX"

lemma fetch_sub_exact:
  assumes "y \<le> x" "x \<le> USIZE_MAX"
  shows "fetch_sub x y = x - y"
proof -
  have "x + 2 ^ 64 - y = (x - y) + 2 ^ 64" "x - y < 2 ^ 64"
    using assms by (auto simp: USIZE_MAX_def)
  then show ?thesis unfolding fetch_sub_def by (metis mod_add_self2 mod_less)
qed

lemma reserve_Inr: "reserve old n m l = Inr x \<longleftrightarrow> x = old + n \<and> old + n \<le> min m USIZE_MAX"
  by (auto simp: reserve_def Let_def)

lemma reserve_build_Inr:
  "reserve_build a = Inr a' \<longleftrightarrow>
     a' = a\<lparr>adm_builds := adm_builds a + 1\<rparr> \<and> adm_builds a + 1 \<le> min (adm_max_builds a) USIZE_MAX"
  by (auto simp: reserve_build_def rbind_Inr_iff reserve_Inr)

lemma reserve_bytes_Inr:
  "reserve_bytes a n = Inr a' \<longleftrightarrow>
     a' = a\<lparr>adm_bytes := adm_bytes a + n\<rparr> \<and> adm_bytes a + n \<le> min (adm_max_bytes a) USIZE_MAX"
  by (auto simp: reserve_bytes_def rbind_Inr_iff reserve_Inr)

lemma charge_Some:
  "charge a b c = Some (a', b') \<longleftrightarrow>
     b' = c \<and> c \<le> b \<and> a' = a\<lparr>adm_bytes := fetch_sub (adm_bytes a) (b - c)\<rparr>"
  by (auto simp: charge_def)

lemma admission_inv_step [warden_inv]:
  assumes step: "admission_step s s'" and inv: "admission_inv s"
  shows "admission_inv s'"
  using step
proof (cases rule: admission_step.cases)
  case (begin_build a)
  then show ?thesis using inv by (simp add: admission_inv_def held_bytes_def reserve_build_Inr)
next
  case (begin_bytes xs ys ceiling a)
  then show ?thesis using inv by (simp add: admission_inv_def held_bytes_def reserve_bytes_Inr)
next
  case (begin_refused xs ys ceiling e)
  then show ?thesis using inv by (simp add: admission_inv_def held_bytes_def drop_build_def fetch_sub_exact)
next
  case (charge_lease xs b ys c a b')
  then have "fetch_sub (adm_bytes (sys_adm s)) (b - c) = adm_bytes (sys_adm s) - (b - c)"
    using inv by (intro fetch_sub_exact) (simp_all add: admission_inv_def held_bytes_def)
  then show ?thesis
    using inv charge_lease by (simp add: admission_inv_def held_bytes_def charge_Some)
next
  case (leave_build xs b ys)
  then show ?thesis using inv by (simp add: admission_inv_def held_bytes_def drop_build_def fetch_sub_exact)
next
  case (release xs b ys)
  then show ?thesis using inv by (simp add: admission_inv_def held_bytes_def drop_lease_def fetch_sub_exact)
qed

lemma admission_max_step:
  "admission_step s s' \<Longrightarrow>
     adm_max_bytes (sys_adm s') = adm_max_bytes (sys_adm s)
     \<and> adm_max_builds (sys_adm s') = adm_max_builds (sys_adm s)"
  by (erule admission_stepE)
    (auto simp: reserve_build_def reserve_bytes_def rbind_Inr_iff drop_build_def drop_lease_def
      charge_def split: if_splits)

lemma admission_reach_inv:
  assumes "admission_reach a0 s" "admission_new mb mx = Inr a0"
  shows "admission_inv s \<and> adm_max_bytes (sys_adm s) = mb \<and> adm_max_builds (sys_adm s) = mx"
  using assms(1)
proof (induction rule: admission_reach.induct)
  case start
  show ?case
    using assms(2) by (auto simp: admission_new_def admission_inv_def held_bytes_def split: if_splits)
next
  case (step s s')
  then show ?case using admission_inv_step admission_max_step by auto
qed

text \<open>C11. However builders and dropped snapshots interleave, the byte counter is
  exactly the sum of the bytes held by running builders and live snapshots and
  never exceeds the configured quota, the build counter is exactly the number of
  running builders and never exceeds its bound, and no release can underflow.\<close>

theorem admission_never_overcommits:
  assumes "admission_new max_bytes max_builds = Inr a0" "admission_reach a0 s"
  shows "adm_bytes (sys_adm s) = held_bytes s \<and> held_bytes s \<le> max_bytes
    \<and> adm_builds (sys_adm s) = length (sys_builders s) \<and> length (sys_builders s) \<le> max_builds
    \<and> sum_list (sys_leases s) \<le> adm_bytes (sys_adm s)"
  using admission_reach_inv [OF assms(2,1)] by (auto simp: admission_inv_def held_bytes_def)

theorem admission_never_overcommits_witness:
  "\<exists>a0 s. admission_new 100 2 = Inr a0 \<and> admission_reach a0 s \<and> held_bytes s = 60
     \<and> adm_bytes (sys_adm s) = 60 \<and> adm_builds (sys_adm s) = 1"
proof -
  let ?a0 = "\<lparr>adm_max_bytes = 100, adm_max_builds = 2, adm_bytes = 0, adm_builds = 0\<rparr>"
  let ?s0 = "\<lparr>sys_adm = ?a0, sys_builders = [], sys_leases = []\<rparr>"
  let ?s1 = "\<lparr>sys_adm = ?a0\<lparr>adm_builds := 1\<rparr>, sys_builders = [Reserving], sys_leases = []\<rparr>"
  let ?s2 = "\<lparr>sys_adm = ?a0\<lparr>adm_builds := 1, adm_bytes := 60\<rparr>, sys_builders = [Building 60], sys_leases = []\<rparr>"
  have new: "admission_new 100 2 = Inr ?a0" by (simp add: admission_new_def)
  have "admission_step ?s0 ?s1"
    using begin_build [of ?s0 "?a0\<lparr>adm_builds := 1\<rparr>"] by (simp add: reserve_build_def reserve_def USIZE_MAX_def)
  moreover have "admission_step ?s1 ?s2"
    using begin_bytes [of ?s1 "[]" "[]" 60 "?a0\<lparr>adm_builds := 1, adm_bytes := 60\<rparr>"]
    by (simp add: reserve_bytes_def reserve_def USIZE_MAX_def)
  ultimately have r: "admission_reach ?a0 ?s2"
    by (meson admission_reach.start admission_reach.step)
  have "held_bytes ?s2 = 60" by (simp add: held_bytes_def)
  then show ?thesis
    using new r admission_never_overcommits [OF new r] by auto
qed

end
