(* ===== verification/Operator_Compiler.thy ===== *)
theory Operator_Compiler
  imports Std_Text Operator_Lookup Operator_Admission Sorted_Search
begin

text \<open>
  The compilation pipeline of \<open>filter/operator_rules/compiler.rs\<close>: preflight of
  the source packs, parsing into a rule store with dense tokens, planning of the
  profiles with their quotas, compilation of the regex programs, and the build of
  the profiles, all under an admission lease.  Ids are validated as in
  \<open>config/schema/id.rs\<close>.

  Parameters: \<open>sha256\<close> (crate \<open>sha2\<close>) and \<open>re_compile\<close>, which stands for
  \<open>RegexProgram::compile\<close> (parsing and determinisation by \<open>regex-syntax\<close> and
  \<open>regex-automata\<close>).  A \<open>BTreeMap\<close> is the ascending list of its entries and a
  \<open>BTreeSet\<close> of keys whose size matters a list without repetitions.
\<close>

section \<open>Identifiers (config/schema/id.rs)\<close>

datatype id_error = IdEmpty | IdTooLong nat | IdBadChar nat | IdDash

definition id_char :: "char \<Rightarrow> bool" where
  "id_char c \<longleftrightarrow> is_ascii_lowercase c \<or> is_ascii_digit c \<or> c = CHR ''-''"

fun first_bad_char :: "nat \<Rightarrow> string \<Rightarrow> nat option" where
  "first_bad_char i [] = None"
| "first_bad_char i (c # cs) = (if \<not> id_char c then Some i else first_bad_char (i + 1) cs)"

definition id_validate :: "string \<Rightarrow> (id_error, unit) result" where
  "id_validate s =
     (if s = [] then Inl IdEmpty
      else if 64 < length s then Inl (IdTooLong (length s))
      else case first_bad_char 0 s of
             Some i \<Rightarrow> Inl (IdBadChar i)
           | None \<Rightarrow> if prefix ''-'' s \<or> suffix ''-'' s then Inl IdDash else Inr ())"

definition id_new :: "string \<Rightarrow> (id_error, string) result" where
  "id_new s = rbind (id_validate s) (\<lambda>_. Inr s)"

section \<open>Errors\<close>

datatype compile_error =
    BudgetError budget_exceeded
  | InvalidIdError id_error
  | DuplicateList string
  | DuplicateProfile string
  | DuplicateMount string string
  | UnknownMount string string
  | InvalidRule string u32 ast_error
  | CompileInvalidRegex string u32 string
  | RegexConstruction string u32 string
  | RegexBudgetExceeded string u32 string budget_exceeded

text \<open>A panic is not an error value of the program; the model keeps it apart.\<close>

datatype compile_failure = Failed compile_error | Panicked string

datatype regex_error = RegexSyntax string | RegexBudget string | RegexBuild string

fun regex_error_context :: "regex_error \<Rightarrow> string \<Rightarrow> u32 \<Rightarrow> nat \<Rightarrow> compile_error" where
  "regex_error_context (RegexSyntax detail) list row limit = CompileInvalidRegex list row detail"
| "regex_error_context (RegexBudget stage) list row limit =
     RegexBudgetExceeded list row stage
       \<lparr>be_limit = ''max_regex_program_bytes'', be_actual = None, be_maximum = limit\<rparr>"
| "regex_error_context (RegexBuild detail) list row limit = RegexConstruction list row detail"

abbreviation budget :: "(budget_exceeded, 'a) result \<Rightarrow> (compile_error, 'a) result" where
  "budget \<equiv> map_err BudgetError"

definition compile_id :: "string \<Rightarrow> (compile_error, string) result" where
  "compile_id raw = map_err InvalidIdError (id_new raw)"

section \<open>Rows\<close>

record pack_source =
  src_list_id :: string
  src_content :: string

record profile_mounts =
  pm_profile_id :: string
  pm_custom_lists :: "string list"
  pm_block_all :: bool

definition row_number :: "nat \<Rightarrow> (budget_exceeded, u32) result" where
  "row_number n =
     (if n \<le> U32_MAX then Inr (of_nat n)
      else Inl \<lparr>be_limit = ''source_row'', be_actual = Some n, be_maximum = U32_MAX\<rparr>)"

definition row_text :: "string \<Rightarrow> string" where
  "row_text raw =
     (case strip_suffix [newline] raw of
        Some line \<Rightarrow> unwrap_or line (strip_suffix [CHR 0x0D] line)
      | None \<Rightarrow> raw)"

definition is_rule :: "string \<Rightarrow> bool" where
  "is_rule text = (let t = trim text in t \<noteq> [] \<and> \<not> prefix ''#'' t)"

section \<open>Preflight\<close>

fun preflight_pack ::
  "rule_compile_limits \<Rightarrow> nat \<times> (string \<times> string) list \<Rightarrow> pack_source
     \<Rightarrow> (compile_error, nat \<times> (string \<times> string) list) result"
where
  "preflight_pack l (bytes, sources) pack =
     rbind (budget (ensure ''max_file_bytes'' (length (src_content pack)) (max_file_bytes l))) (\<lambda>_.
     rbind (budget (usize_add bytes (length (src_content pack)))) (\<lambda>total'.
     rbind (budget (ensure ''max_total_bytes'' total' (max_total_bytes l))) (\<lambda>_.
     rbind (compile_id (src_list_id pack)) (\<lambda>list.
       if map_of sources list \<noteq> None then Inl (DuplicateList list)
       else Inr (total', bt_insert list (src_content pack) sources)))))"

definition preflight_row ::
  "rule_compile_limits \<Rightarrow> string \<Rightarrow> nat \<Rightarrow> nat \<times> string \<Rightarrow> (compile_error, nat) result"
where
  "preflight_row l list rows entry =
     (let (index, raw) = entry; text = row_text raw
      in rbind (budget (usize_add index 1)) (\<lambda>n.
         rbind (budget (row_number n)) (\<lambda>row.
         rbind (map_err (InvalidRule list row) (check_record text)) (\<lambda>_.
           if is_rule text
           then rbind (budget (usize_add rows 1)) (\<lambda>rows'.
                rbind (budget (ensure ''max_rules_per_list'' rows' (max_rules_per_list l))) (\<lambda>_.
                rbind (budget (ensure ''max_rule_bytes'' (length text) (max_rule_bytes l))) (\<lambda>_.
                  Inr rows')))
           else Inr rows))))"

definition preflight_sources ::
  "pack_source list \<Rightarrow> rule_compile_limits \<Rightarrow> (compile_error, (string \<times> string) list) result"
where
  "preflight_sources packs l =
     rbind (budget (ensure ''max_lists'' (length packs) (max_lists l))) (\<lambda>_.
     rbind (try_fold (preflight_pack l) (0, []) packs) (\<lambda>(_, sources).
     rbind (try_fold (\<lambda>_ (list, content).
              rbind (try_fold (preflight_row l list) 0 (List.enumerate 0 (split_inclusive content)))
                (\<lambda>_. Inr ())) () sources) (\<lambda>_.
       Inr sources)))"

section \<open>Parsing the store\<close>

definition projections :: "operator_rule_ast \<Rightarrow> projection_counts" where
  "projections a =
     \<lparr>pc_indexed = (if indexed_domain a \<noteq> None then 1 else 0),
      pc_advanced = (case ast_pattern a of OpExact _ \<Rightarrow> 0 | _ \<Rightarrow> 1),
      pc_regex = (case ast_pattern a of OpRegex _ _ \<Rightarrow> 1 | _ \<Rightarrow> 0)\<rparr>"

definition projection_bytes :: "operator_rule_ast \<Rightarrow> (budget_exceeded, nat) result" where
  "projection_bytes a =
     rbind (case indexed_domain a of Some d \<Rightarrow> indexed_bytes (length d) | None \<Rightarrow> Inr 0) (\<lambda>bytes.
       case ast_pattern a of
         OpExact _ \<Rightarrow> Inr bytes
       | _ \<Rightarrow> rbind (advanced_bytes (length (ast_text a))) (\<lambda>adv. usize_add bytes adv))"

type_synonym regex_key = "string \<times> bool \<times> nat \<times> nat"

definition REGEX_COMPILER_VERSION :: nat where
  "REGEX_COMPILER_VERSION = 2"

definition regex_key_of :: "operator_rule_ast \<Rightarrow> rule_compile_limits \<Rightarrow> regex_key option" where
  "regex_key_of a l =
     (case ast_pattern a of
        OpRegex source ci \<Rightarrow> Some (source, ci, REGEX_COMPILER_VERSION, max_regex_program_bytes l)
      | _ \<Rightarrow> None)"

type_synonym rule_entry = "operator_rule_ast \<times> source_row list"

text \<open>\<open>entries.entry(key).or_insert_with(|| (ast, Vec::new())).1.push(occurrence)\<close>\<close>

fun push_occurrence ::
  "string \<Rightarrow> operator_rule_ast \<Rightarrow> source_row \<Rightarrow> (string \<times> rule_entry) list \<Rightarrow> (string \<times> rule_entry) list"
where
  "push_occurrence key ast row m =
     (case map_of m key of
        None \<Rightarrow> bt_insert key (ast, [row]) m
      | Some (ast', rows) \<Rightarrow> bt_insert key (ast', rows @ [row]) m)"

definition parse_row ::
  "(string \<Rightarrow> string) \<Rightarrow> string \<Rightarrow> (string \<times> rule_entry) list \<times> nat \<times> nat \<Rightarrow> nat \<times> string
     \<Rightarrow> (compile_error, (string \<times> rule_entry) list \<times> nat \<times> nat) result"
where
  "parse_row sha256 list st entry =
     (let (entries, rule_rows, offset) = st; (index, raw) = entry; text = row_text raw
      in rbind
           (if is_rule text
            then rbind (budget (usize_add rule_rows 1)) (\<lambda>rule_rows'.
                 rbind (budget (usize_add index 1)) (\<lambda>n.
                 rbind (budget (row_number n)) (\<lambda>row.
                 rbind (map_err (InvalidRule list row) (parse_rule_ast text)) (\<lambda>ast.
                 rbind (budget (row_number offset)) (\<lambda>off.
                 rbind (budget (row_number (length raw))) (\<lambda>len.
                   Inr (push_occurrence (rule_key sha256 ast) ast
                          \<lparr>row_line = row, row_byte_offset = off, row_byte_len = len,
                           row_digest = sha256 raw\<rparr> entries, rule_rows')))))))
            else Inr (entries, rule_rows))
           (\<lambda>(entries', rule_rows').
              rbind (budget (usize_add offset (length raw))) (\<lambda>offset'.
                Inr (entries', rule_rows', offset'))))"

record 'p parse_state =
  st_rules :: "'p stored_rule list"
  st_tokens :: "u32 list"
  st_counts :: projection_counts
  st_projection_bytes :: nat
  st_cost :: compiled_cost

definition add_entry ::
  "rule_compile_limits \<Rightarrow> string \<Rightarrow> string \<Rightarrow> 'p parse_state \<Rightarrow> string \<times> rule_entry
     \<Rightarrow> (compile_error, 'p parse_state) result"
where
  "add_entry l list revision s entry =
     (let (key, ast, rows) = entry; cost = st_cost s; counts = projections ast
      in rbind (budget (row_number (length (st_rules s)))) (\<lambda>token.
         rbind (budget (counts_checked_add (st_counts s) counts)) (\<lambda>pack_counts.
         rbind (budget (counts_checked_add (cc_store_counts cost) counts)) (\<lambda>store_counts.
         rbind (budget (check_store_counts l store_counts)) (\<lambda>_.
         rbind (budget (projection_bytes ast)) (\<lambda>bytes.
         rbind (budget (usize_add (st_projection_bytes s) bytes)) (\<lambda>proj.
         rbind (budget (usize_add (cc_store_bytes cost) bytes)) (\<lambda>b1.
         rbind (budget (ast_bytes (length (ast_text ast)))) (\<lambda>ab.
         rbind (budget (usize_add b1 ab)) (\<lambda>b2.
         rbind (budget (origin_bytes (length list) (length rows))) (\<lambda>ob.
         rbind (budget (usize_add b2 ob)) (\<lambda>b3.
         rbind (budget (ensure ''max_store_compiled_bytes'' b3 (max_store_compiled_bytes l))) (\<lambda>_.
           Inr \<lparr>st_rules = st_rules s @
                  [\<lparr>sr_ast = ast,
                    sr_origin = \<lparr>ro_list_id = list, ro_rule_key = key, ro_pack_revision = revision,
                                 ro_source_rows = rows\<rparr>,
                    sr_program = None\<rparr>],
                st_tokens = st_tokens s @ [token], st_counts = pack_counts,
                st_projection_bytes = proj,
                st_cost = cost\<lparr>cc_store_counts := store_counts, cc_store_bytes := b3\<rparr>\<rparr>)))))))))))))"

type_synonym 'p store_state = "'p stored_rule list \<times> (string \<times> pack_summary) list \<times> compiled_cost"

definition parse_pack ::
  "(string \<Rightarrow> string) \<Rightarrow> rule_compile_limits \<Rightarrow> 'p store_state \<Rightarrow> string \<times> string
     \<Rightarrow> (compile_error, 'p store_state) result"
where
  "parse_pack sha256 l st source =
     (let (rules, packs, cost) = st; (list, content) = source; revision = sha256 content
      in rbind (try_fold (parse_row sha256 list) ([], 0, 0) (List.enumerate 0 (split_inclusive content)))
           (\<lambda>(entries, rule_rows, _).
         rbind (budget (pack_bytes (length list))) (\<lambda>pb.
         rbind (budget (usize_add (cc_store_bytes cost) pb)) (\<lambda>bytes.
         rbind (try_fold (add_entry l list revision)
                  \<lparr>st_rules = rules, st_tokens = [], st_counts = counts_default, st_projection_bytes = 0,
                   st_cost = cost\<lparr>cc_store_bytes := bytes\<rparr>\<rparr> entries) (\<lambda>s.
           Inr (st_rules s,
                bt_insert list
                  \<lparr>ps_revision = revision, ps_source_bytes = length content,
                   ps_source_rule_rows = rule_rows, ps_tokens = st_tokens s, ps_counts = st_counts s,
                   ps_projection_bytes = st_projection_bytes s\<rparr> packs,
                st_cost s))))))"

definition cost_default :: compiled_cost where
  "cost_default =
     \<lparr>cc_store_bytes = STORE_BASE_BYTES, cc_profile_bytes_total = 0, cc_profile_owned_bytes_total = 0,
      cc_snapshot_bytes = 0, cc_store_counts = counts_default, cc_profile_counts_total = counts_default,
      cc_regex_programs = 0\<rparr>"

definition charge_regexes :: "rule_compile_limits \<Rightarrow> nat \<Rightarrow> regex_key list \<Rightarrow> (compile_error, nat) result" where
  "charge_regexes l bytes keys =
     try_fold (\<lambda>b _. rbind (budget (regex_bytes (max_regex_program_bytes l))) (\<lambda>r.
       budget (usize_add b r))) bytes keys"

definition parse_store ::
  "(string \<Rightarrow> string) \<Rightarrow> (string \<times> string) list \<Rightarrow> rule_compile_limits
     \<Rightarrow> (compile_error, 'p compiled_rule_store \<times> compiled_cost) result"
where
  "parse_store sha256 sources l =
     rbind (try_fold (parse_pack sha256 l) ([], [], cost_default) sources) (\<lambda>(rules, packs, cost).
       let keys = remdups (List.map_filter (\<lambda>r. regex_key_of (sr_ast r) l) rules)
       in rbind (charge_regexes l (cc_store_bytes cost) keys) (\<lambda>bytes.
          rbind (budget (ensure ''max_store_compiled_bytes'' bytes (max_store_compiled_bytes l))) (\<lambda>_.
          rbind (budget (ensure ''max_compiled_bytes_total'' bytes (max_compiled_bytes_total l))) (\<lambda>_.
            Inr (\<lparr>rs_rules = rules, rs_packs = packs\<rparr>,
                 cost\<lparr>cc_store_bytes := bytes, cc_regex_programs := length keys,
                      cc_snapshot_bytes := bytes\<rparr>)))))"

section \<open>Planning the profiles\<close>

record profile_plan =
  pl_id :: string
  pl_tokens :: "u32 list"
  pl_counts :: projection_counts
  pl_compiled_bytes :: nat
  pl_owned_bytes :: nat
  pl_block_all :: bool

definition store_pack :: "'p compiled_rule_store \<Rightarrow> string \<Rightarrow> pack_summary option" where
  "store_pack store list = sorted_find (rs_packs store) list"

record mount_state =
  mt_mounts :: "string list"
  mt_tokens :: "u32 list"
  mt_counts :: projection_counts
  mt_owned :: nat
  mt_keys :: "regex_key list"

definition pack_regex_keys :: "'p compiled_rule_store \<Rightarrow> rule_compile_limits \<Rightarrow> u32 list \<Rightarrow> regex_key list" where
  "pack_regex_keys store l tokens =
     List.map_filter (\<lambda>u. regex_key_of (sr_ast (rs_rules store ! unat u)) l) tokens"

definition plan_mount ::
  "'p compiled_rule_store \<Rightarrow> rule_compile_limits \<Rightarrow> string \<Rightarrow> mount_state \<Rightarrow> string
     \<Rightarrow> (compile_error, mount_state) result"
where
  "plan_mount store l profile_id m raw_id =
     rbind (compile_id raw_id) (\<lambda>list.
       if list \<in> set (mt_mounts m) then Inl (DuplicateMount profile_id list)
       else case store_pack store list of
         None \<Rightarrow> Inl (UnknownMount profile_id list)
       | Some pack \<Rightarrow>
           rbind (budget (counts_checked_add (mt_counts m) (ps_counts pack))) (\<lambda>counts.
           rbind (budget (check_profile_counts l counts)) (\<lambda>_.
           rbind (budget (usize_add (mt_owned m) (ps_projection_bytes pack))) (\<lambda>owned.
           rbind (budget (ensure ''max_compiled_bytes_per_profile'' owned (max_compiled_bytes_per_profile l))) (\<lambda>_.
             Inr \<lparr>mt_mounts = list # mt_mounts m, mt_tokens = mt_tokens m @ ps_tokens pack,
                  mt_counts = counts, mt_owned = owned,
                  mt_keys = mt_keys m @ pack_regex_keys store l (ps_tokens pack)\<rparr>)))))"

type_synonym plan_state = "profile_plan list \<times> string list \<times> compiled_cost"

definition plan_profile ::
  "'p compiled_rule_store \<Rightarrow> rule_compile_limits \<Rightarrow> plan_state \<Rightarrow> profile_mounts
     \<Rightarrow> (compile_error, plan_state) result"
where
  "plan_profile store l st profile =
     (let (plans, seen, cost) = st
      in rbind (compile_id (pm_profile_id profile)) (\<lambda>profile_id.
         if profile_id \<in> set seen then Inl (DuplicateProfile profile_id)
         else
           rbind (budget (profile_bytes (length profile_id))) (\<lambda>base.
           rbind (try_fold (plan_mount store l profile_id)
                    \<lparr>mt_mounts = [], mt_tokens = [], mt_counts = counts_default, mt_owned = base, mt_keys = []\<rparr>
                    (pm_custom_lists profile)) (\<lambda>m.
           let tokens = sort (mt_tokens m)
           in rbind (budget (sidecar_bytes (length tokens))) (\<lambda>sidecar.
              rbind (budget (usize_add (mt_owned m) sidecar)) (\<lambda>owned.
              rbind (charge_regexes l owned (remdups (mt_keys m))) (\<lambda>compiled.
              rbind (budget (ensure ''max_compiled_bytes_per_profile'' compiled (max_compiled_bytes_per_profile l))) (\<lambda>_.
              rbind (budget (counts_checked_add (cc_profile_counts_total cost) (mt_counts m))) (\<lambda>counts_total.
              rbind (budget (check_total_counts l counts_total)) (\<lambda>_.
              rbind (budget (usize_add (cc_profile_bytes_total cost) compiled)) (\<lambda>bytes_total.
              rbind (budget (usize_add (cc_profile_owned_bytes_total cost) owned)) (\<lambda>owned_total.
              rbind (budget (usize_add (cc_store_bytes cost) owned_total)) (\<lambda>snapshot.
              rbind (budget (ensure ''max_compiled_bytes_total'' snapshot (max_compiled_bytes_total l))) (\<lambda>_.
                Inr (plans @ [\<lparr>pl_id = profile_id, pl_tokens = tokens, pl_counts = mt_counts m,
                               pl_compiled_bytes = compiled, pl_owned_bytes = owned,
                               pl_block_all = pm_block_all profile\<rparr>],
                     profile_id # seen,
                     cost\<lparr>cc_profile_counts_total := counts_total, cc_profile_bytes_total := bytes_total,
                          cc_profile_owned_bytes_total := owned_total, cc_snapshot_bytes := snapshot\<rparr>)))))))))))))))"

definition plan_profiles ::
  "'p compiled_rule_store \<Rightarrow> profile_mounts list \<Rightarrow> rule_compile_limits \<Rightarrow> compiled_cost
     \<Rightarrow> (compile_error, profile_plan list \<times> compiled_cost) result"
where
  "plan_profiles store profiles l cost =
     rbind (try_fold (plan_profile store l) ([], [], cost) profiles) (\<lambda>(plans, _, cost').
       Inr (plans, cost'))"

section \<open>Regex programs\<close>

definition compile_program ::
  "(string \<Rightarrow> bool \<Rightarrow> nat \<Rightarrow> (regex_error, 'p) result) \<Rightarrow> rule_compile_limits
     \<Rightarrow> (regex_key \<times> 'p) list \<times> 'p stored_rule list \<Rightarrow> 'p stored_rule
     \<Rightarrow> (compile_error, (regex_key \<times> 'p) list \<times> 'p stored_rule list) result"
where
  "compile_program re_compile l st r =
     (let (programs, finished) = st
      in case regex_key_of (sr_ast r) l of
           None \<Rightarrow> Inr (programs, finished @ [r])
         | Some key \<Rightarrow>
             (case map_of programs key of
                Some program \<Rightarrow> Inr (programs, finished @ [r\<lparr>sr_program := Some program\<rparr>])
              | None \<Rightarrow>
                  (let (source, ci, _, limit) = key
                   in rbind (map_err (\<lambda>e. regex_error_context e (ro_list_id (sr_origin r))
                                             (row_line (ro_source_rows (sr_origin r) ! 0)) limit)
                               (re_compile source ci limit)) (\<lambda>program.
                        Inr ((key, program) # programs, finished @ [r\<lparr>sr_program := Some program\<rparr>])))))"

definition compile_programs ::
  "(string \<Rightarrow> bool \<Rightarrow> nat \<Rightarrow> (regex_error, 'p) result) \<Rightarrow> 'p compiled_rule_store
     \<Rightarrow> rule_compile_limits \<Rightarrow> (compile_error, 'p compiled_rule_store) result"
where
  "compile_programs re_compile store l =
     rbind (try_fold (compile_program re_compile l) ([], []) (rs_rules store)) (\<lambda>(_, rules).
       Inr (store\<lparr>rs_rules := rules\<rparr>))"

section \<open>Compilation\<close>

record 'p compiled_operator_rules =
  co_store :: "'p compiled_rule_store"
  co_profiles :: "(string \<times> 'p compiled_profile) list"
  co_cost :: compiled_cost
  co_lease :: nat

definition build_profile ::
  "nat \<Rightarrow> 'p compiled_rule_store \<Rightarrow> nat \<times> profile_plan \<Rightarrow> (string, string \<times> 'p compiled_profile) result"
where
  "build_profile snapshot store entry =
     (let (position, plan) = entry
      in rbind (build_index (rs_rules store) (pl_tokens plan)) (\<lambda>(ix, adv, min_len).
           Inr (pl_id plan,
                \<lparr>cp_addr = (snapshot, position), cp_store = store, cp_index = ix, cp_advanced = adv,
                 cp_mounted = pl_tokens plan, cp_counts = pl_counts plan,
                 cp_compiled_bytes = pl_compiled_bytes plan, cp_owned_bytes = pl_owned_bytes plan,
                 cp_block_all = pl_block_all plan, cp_min_indexed_len = min_len\<rparr>)))"

definition build_profiles ::
  "nat \<Rightarrow> 'p compiled_rule_store \<Rightarrow> profile_plan list
     \<Rightarrow> (string, (string \<times> 'p compiled_profile) list) result"
where
  "build_profiles snapshot store plans =
     try_fold (\<lambda>acc entry. rbind (build_profile snapshot store entry) (\<lambda>p. Inr (acc @ [p])))
       [] (List.enumerate 0 plans)"

text \<open>Everything between admission and the charge, with the plan's cost.\<close>

definition plan_candidate ::
  "(string \<Rightarrow> string) \<Rightarrow> pack_source list \<Rightarrow> profile_mounts list \<Rightarrow> rule_compile_limits
     \<Rightarrow> (compile_error, 'p compiled_rule_store \<times> profile_plan list \<times> compiled_cost) result"
where
  "plan_candidate sha256 packs profiles l =
     rbind (preflight_sources packs l) (\<lambda>sources.
     rbind (parse_store sha256 sources l) (\<lambda>(store, cost).
     rbind (plan_profiles store profiles l cost) (\<lambda>(plans, cost').
       Inr (store, plans, cost'))))"

text \<open>A builder that leaves early gives back its build slot and its lease.\<close>

definition abandon :: "admission \<Rightarrow> nat \<Rightarrow> admission" where
  "abandon adm lease = drop_lease (drop_build adm) lease"

definition compile_operator_rules ::
  "(string \<Rightarrow> string) \<Rightarrow> (string \<Rightarrow> bool \<Rightarrow> nat \<Rightarrow> (regex_error, 'p) result) \<Rightarrow> nat
     \<Rightarrow> pack_source list \<Rightarrow> profile_mounts list \<Rightarrow> rule_compile_limits \<Rightarrow> admission
     \<Rightarrow> (compile_failure, 'p compiled_operator_rules) result \<times> admission"
where
  "compile_operator_rules sha256 re_compile snapshot packs profiles l adm =
     (case validate_limits l of
        Inl e \<Rightarrow> (Inl (Failed (BudgetError e)), adm)
      | Inr _ \<Rightarrow>
     (case admission_begin adm (max_compiled_bytes_total l) of
        (Inl e, adm1) \<Rightarrow> (Inl (Failed (BudgetError e)), adm1)
      | (Inr lease, adm1) \<Rightarrow>
     (case plan_candidate sha256 packs profiles l of
        Inl e \<Rightarrow> (Inl (Failed e), abandon adm1 lease)
      | Inr (store, plans, cost) \<Rightarrow>
     (case charge adm1 lease (cc_snapshot_bytes cost) of
        None \<Rightarrow> (Inl (Panicked ''preflight must enforce candidate ceiling''), abandon adm1 lease)
      | Some (adm2, lease2) \<Rightarrow>
     (case compile_programs re_compile store l of
        Inl e \<Rightarrow> (Inl (Failed e), abandon adm2 lease2)
      | Inr store2 \<Rightarrow>
     (case build_profiles snapshot store2 plans of
        Inl msg \<Rightarrow> (Inl (Panicked msg), abandon adm2 lease2)
      | Inr built \<Rightarrow>
          (Inr \<lparr>co_store = store2, co_profiles = sort_key fst built, co_cost = cost, co_lease = lease2\<rparr>,
           drop_build adm2)))))))"

definition profile_index :: "'p compiled_operator_rules \<Rightarrow> string \<Rightarrow> nat option" where
  "profile_index c i = result_ok (binary_search (co_profiles c) i)"

definition profile_of :: "'p compiled_operator_rules \<Rightarrow> string \<Rightarrow> 'p compiled_profile option" where
  "profile_of c i = sorted_find (co_profiles c) i"

end
