(* ===== verification/Operator_Pipeline.thy ===== *)
theory Operator_Pipeline
  imports Operator_Compiler
begin

text \<open>
  What a successful compilation guarantees.  Each pass has an invariant that names
  its result in terms of its input: preflight keeps exactly the packs, the parser
  stores exactly the rules of the rows and numbers them densely, planning mounts
  exactly the named packs, and program compilation changes nothing but the
  programs.  Together they reduce a query against a compiled profile to a
  question about the rows of the mounted files.
\<close>

section \<open>Folds\<close>

lemma try_fold_prefix:
  assumes "try_fold f s xs = Inr s'" and "I [] s"
    and "\<And>ys x zs t t'. xs = ys @ x # zs \<Longrightarrow> I ys t \<Longrightarrow> f t x = Inr t' \<Longrightarrow> I (ys @ [x]) t'"
  shows "I xs s'"
proof -
  have "I (ys @ zs) s'" if "xs = ys @ zs" "I ys t" "try_fold f t zs = Inr s'" for ys zs t
    using that
  proof (induction zs arbitrary: ys t)
    case (Cons z zs)
    then obtain t' where t': "f t z = Inr t'" "try_fold f t' zs = Inr s'" by (auto simp: rbind_Inr_iff)
    show ?case using Cons.IH [of "ys @ [z]" t'] Cons.prems t' assms(3) [of ys z zs t t'] by simp
  qed simp
  from this [of "[]" xs s] show ?thesis using assms by simp
qed

lemma set_enumerate_snd: "snd ` set (List.enumerate n xs) = set xs"
  by (metis list.set_map map_snd_enumerate)

section \<open>Preflight keeps the packs\<close>

lemma compile_id_Inr: "compile_id raw_id = Inr i \<longleftrightarrow> i = raw_id \<and> id_validate raw_id = Inr ()"
  by (auto simp: compile_id_def id_new_def map_err_Inr_iff rbind_Inr_iff)

definition pack_entries :: "pack_source list \<Rightarrow> (string \<times> string) list" where
  "pack_entries packs = map (\<lambda>p. (src_list_id p, src_content p)) packs"

lemma preflight_pack_fold:
  assumes "try_fold (preflight_pack l) (0, []) packs = Inr (bytes, sources)"
  shows "strictly_ascending sources \<and> distinct (map src_list_id packs)
    \<and> map_of sources = map_of (pack_entries packs)"
proof -
  let ?I = "\<lambda>ps (st :: nat \<times> (string \<times> string) list). strictly_ascending (snd st)
    \<and> distinct (map src_list_id ps) \<and> map_of (snd st) = map_of (pack_entries ps)"
  have "?I packs (bytes, sources)"
  proof (rule try_fold_prefix [where I = ?I, OF assms])
    show "?I [] (0, [])" by (simp add: pack_entries_def)
  next
    fix ys x zs t t'
    assume inv: "?I ys t" and f: "preflight_pack l t x = Inr t'"
    obtain b s where t: "t = (b, s)" by (cases t)
    have r: "map_of s (src_list_id x) = None" "snd t' = bt_insert (src_list_id x) (src_content x) s"
      using f by (auto simp: t warden_ok compile_id_Inr)
    have none: "map_of (pack_entries ys) (src_list_id x) = None" using inv r t by simp
    then have "src_list_id x \<notin> set (map src_list_id ys)"
      by (auto simp: pack_entries_def map_of_eq_None_iff image_iff)
    moreover have "map_of (pack_entries (ys @ [x])) = (map_of (pack_entries ys))(src_list_id x \<mapsto> src_content x)"
      using none by (auto simp: pack_entries_def map_add_def fun_eq_iff split: option.splits)
    ultimately show "?I (ys @ [x]) t'"
      using inv r t by (simp add: strictly_ascending_bt_insert map_of_bt_insert)
  qed
  then show ?thesis by simp
qed

lemma preflight_sources_Inr:
  assumes "preflight_sources packs l = Inr sources"
  shows "strictly_ascending sources" and "distinct (map src_list_id packs)"
    and "map_of sources = map_of (pack_entries packs)"
  using assms preflight_pack_fold by (auto simp: preflight_sources_def warden_ok)

lemma set_pack_entries:
  assumes "preflight_sources packs l = Inr sources"
  shows "set sources = set (pack_entries packs)"
proof -
  have "distinct (map fst sources)"
    using preflight_sources_Inr(1) [OF assms] by (rule strictly_ascending_distinct)
  moreover have "distinct (map fst (pack_entries packs))"
    using preflight_sources_Inr(2) [OF assms] by (simp add: pack_entries_def comp_def)
  ultimately show ?thesis
    using preflight_sources_Inr(3) [OF assms] map_of_inject_set by blast
qed

section \<open>The parser stores the rules of the rows\<close>

definition row_ast :: "string \<Rightarrow> operator_rule_ast option" where
  "row_ast line =
     (if is_rule (row_text line) then result_ok (parse_rule_ast (row_text line)) else None)"

definition row_asts :: "string \<Rightarrow> operator_rule_ast list" where
  "row_asts content = List.map_filter row_ast (split_inclusive content)"

definition ast_ok :: "operator_rule_ast \<Rightarrow> bool" where
  "ast_ok a \<longleftrightarrow> ast_pattern a \<notin> {OpExact [], OpWildcard []} \<and> length (ast_text a) \<le> 16384"

lemma length_drop_seqs: "length (drop_seqs ws n s) \<le> length s"
proof (induction n arbitrary: s)
  case (Suc n)
  have "length (drop_seqs ws n (drop (length w) s)) \<le> length s" for w
    using Suc.IH [of "drop (length w) s"] by simp
  then show ?case by (auto split: option.split)
qed simp

lemma length_trim: "length (trim s) \<le> length s"
  using length_drop_seqs [of whitespace_seqs "length s" s]
    length_drop_seqs [of "map rev whitespace_seqs" _ "rev (trim_start s)"]
  by (simp add: trim_def trim_start_def trim_end_def) (metis order_trans)

lemma ast_regex_ok: "ast_regex allow rest = Inr a \<Longrightarrow> length rest \<le> 16384 \<Longrightarrow> ast_ok a"
  by (auto simp: ast_regex_def ast_ok_def Let_def split: option.splits if_splits)

lemma ast_domain_pattern_ok:
  "ast_domain_pattern allow imp apx s = Inr a \<Longrightarrow> length s \<le> 16384 \<Longrightarrow> ast_ok a"
  using is_valid_domain_ne [of "[]"] is_valid_domain_ne [of s]
  by (auto simp: ast_domain_pattern_def ast_ok_def Let_def strip_suffix_def unwrap_or_def split: if_splits)

lemma ast_domain_ok:
  assumes "ast_domain allow s = Inr a" "length s \<le> 16384"
  shows "ast_ok a"
proof -
  obtain imp apx s' where m: "ast_split_modifiers (unwrap_or s (strip_prefix ''||'' s)) = Inr ((imp, apx), s')"
      "ast_domain_pattern allow imp apx s' = Inr a"
    using assms(1) by (auto simp: ast_domain_def warden_ok)
  have "length s' \<le> length (unwrap_or s (strip_prefix ''||'' s))"
    using m(1) by (auto simp: ast_split_modifiers_def warden_ok split: option.splits)
  also have "\<dots> \<le> length s" by (simp add: strip_prefix_def)
  finally show ?thesis using ast_domain_pattern_ok [OF m(2)] assms(2) by simp
qed

lemma parse_rule_ast_ok:
  assumes "parse_rule_ast line = Inr a"
  shows "ast_ok a"
proof -
  let ?s = "trim line" and ?s1 = "if prefix ''@@'' (trim line) then drop 2 (trim line) else trim line"
  have len: "length ?s1 \<le> 16384"
    using assms length_trim [of line]
    by (auto simp: parse_rule_ast_def warden_ok HARD_CEILINGS_def)
  have r: "(case strip_prefix ''/'' ?s1 of
      Some rest \<Rightarrow> ast_regex (prefix ''@@'' ?s) rest | None \<Rightarrow> ast_domain (prefix ''@@'' ?s) ?s1) = Inr a"
    using assms by (auto simp: parse_rule_ast_def warden_ok Let_def)
  show ?thesis
  proof (cases "strip_prefix ''/'' ?s1")
    case None
    then show ?thesis using r len ast_domain_ok by simp
  next
    case (Some rest)
    then have "length rest \<le> 16384" using len by (auto simp: strip_prefix_def split: if_splits)
    then show ?thesis using r Some ast_regex_ok by simp
  qed
qed

lemma row_asts_ok: "a \<in> set (row_asts content) \<Longrightarrow> ast_ok a"
  using parse_rule_ast_ok
  by (auto simp: row_asts_def map_filter_def row_ast_def warden_ok split: if_splits)

lemma rule_key_inj:
  assumes "inj_on sha256 (rule_key_input ` A)" "a \<in> A" "b \<in> A" "ast_ok a" "ast_ok b"
    and "rule_key sha256 a = rule_key sha256 b"
  shows "a = b"
  using assms rule_key_input_inj [of a b] by (auto simp: rule_key_def ast_ok_def dest: inj_onD)

text \<open>The flag \<open>c\<close> says that the digest does not collide on the rules at hand.  Without
  it two rules may share an entry; with it every rule has its own.\<close>

definition entries_are ::
  "bool \<Rightarrow> (string \<Rightarrow> string) \<Rightarrow> (string \<times> rule_entry) list \<Rightarrow> operator_rule_ast set \<Rightarrow> bool"
where
  "entries_are c sha256 m A \<longleftrightarrow>
     strictly_ascending m
     \<and> (\<forall>k a rows. map_of m k = Some (a, rows) \<longrightarrow> k = rule_key sha256 a \<and> rows \<noteq> [] \<and> a \<in> A)
     \<and> (c \<longrightarrow> (\<forall>a \<in> A. \<exists>rows. map_of m (rule_key sha256 a) = Some (a, rows)))"

lemma entries_are_push:
  assumes m: "entries_are c sha256 m A" and inj: "c \<Longrightarrow> inj_on sha256 (rule_key_input ` B)"
    and B: "insert a A \<subseteq> B" "\<forall>b \<in> insert a A. ast_ok b"
  shows "entries_are c sha256 (push_occurrence (rule_key sha256 a) a row m) (insert a A)"
proof -
  let ?k = "rule_key sha256 a"
  obtain b rows where push: "push_occurrence ?k a row m = bt_insert ?k (b, rows @ [row]) m"
      "map_of m ?k = None \<and> b = a \<or> (\<exists>rows. map_of m ?k = Some (b, rows))"
  proof (cases "map_of m ?k")
    case None
    then show ?thesis using that [of a "[]"] by simp
  next
    case (Some e)
    then show ?thesis using that [of "fst e" "snd e"] by (cases e) simp
  qed
  have asc: "strictly_ascending m" using m by (simp add: entries_are_def)
  have b: "b \<in> insert a A" "rule_key sha256 b = ?k" using m push(2) by (auto simp: entries_are_def)
  have ba: "b = a" if c using rule_key_inj [OF inj [OF that], of b a] b B by auto
  have xa: "x = a" if c "x \<in> A" "rule_key sha256 x = ?k" for x
    using rule_key_inj [OF inj [OF that(1)], of x a] that B by auto
  let ?m = "(map_of m)(?k \<mapsto> (b, rows @ [row]))"
  have "k = rule_key sha256 x \<and> r \<noteq> [] \<and> x \<in> insert a A" if "?m k = Some (x, r)" for k x r
  proof (cases "k = ?k")
    case True
    then show ?thesis using that b by auto
  next
    case False
    then have "map_of m k = Some (x, r)" using that by simp
    then show ?thesis using m unfolding entries_are_def by blast
  qed
  moreover have "\<exists>r. ?m (rule_key sha256 x) = Some (x, r)" if c "x \<in> insert a A" for x
  proof (cases "rule_key sha256 x = ?k")
    case True
    then show ?thesis using xa [OF that(1)] ba [OF that(1)] that(2) by auto
  next
    case False
    then have "x \<in> A" using that(2) by auto
    then have "\<exists>r. map_of m (rule_key sha256 x) = Some (x, r)"
      using m that(1) unfolding entries_are_def by blast
    then show ?thesis using False by simp
  qed
  ultimately show ?thesis
    unfolding push(1) entries_are_def map_of_bt_insert [OF asc]
    using strictly_ascending_bt_insert [OF asc] by blast
qed

lemma set_map_filter_snoc:
  "set (List.map_filter f (xs @ [x])) =
     (case f x of None \<Rightarrow> set (List.map_filter f xs) | Some a \<Rightarrow> insert a (set (List.map_filter f xs)))"
  by (simp add: map_filter_def split: option.split)

lemma parse_row_step:
  assumes "parse_row sha256 list (m, n, off) entry = Inr (m', n', off')"
  shows "m' = (case row_ast (snd entry) of None \<Rightarrow> m
    | Some a \<Rightarrow> push_occurrence (rule_key sha256 a) a
        \<lparr>row_line = of_nat (fst entry + 1), row_byte_offset = of_nat off,
         row_byte_len = of_nat (length (snd entry)), row_digest = sha256 (snd entry)\<rparr> m)"
  using assms
  by (cases entry)
    (auto simp: parse_row_def row_ast_def row_number_def Let_def warden_ok simp del: push_occurrence.simps
      split: if_splits)

lemma parse_rows_fold:
  assumes f: "try_fold (parse_row sha256 list) ([], 0, 0) (List.enumerate 0 (split_inclusive content)) =
      Inr (m, n, off)"
    and inj: "c \<Longrightarrow> inj_on sha256 (rule_key_input ` B)" and B: "set (row_asts content) \<subseteq> B"
  shows "entries_are c sha256 m (set (row_asts content))"
proof -
  let ?I = "\<lambda>ys (st :: (string \<times> rule_entry) list \<times> nat \<times> nat).
    entries_are c sha256 (fst st) (set (List.map_filter row_ast (map snd ys)))"
  let ?xs = "List.enumerate 0 (split_inclusive content)"
  have "?I ?xs (m, n, off)"
  proof (rule try_fold_prefix [where I = ?I, OF f])
    show "?I [] ([], 0, 0)" by (simp add: entries_are_def map_filter_def)
  next
    fix ys x zs t t'
    assume xs: "?xs = ys @ x # zs" and inv: "?I ys t" and step: "parse_row sha256 list t x = Inr t'"
    obtain m1 n1 o1 m2 n2 o2 where t: "t = (m1, n1, o1)" "t' = (m2, n2, o2)" by (cases t; cases t')
    let ?A = "set (List.map_filter row_ast (map snd ys))"
    have A: "entries_are c sha256 m1 ?A" using inv by (simp add: t)
    have snoc: "set (List.map_filter row_ast (map snd (ys @ [x]))) =
        (case row_ast (snd x) of None \<Rightarrow> ?A | Some a \<Rightarrow> insert a ?A)"
      by (simp add: set_map_filter_snoc)
    have "split_inclusive content = map snd (ys @ [x]) @ map snd zs"
      using arg_cong [OF xs, of "map snd"] by simp
    then have sub: "(case row_ast (snd x) of None \<Rightarrow> ?A | Some a \<Rightarrow> insert a ?A) \<subseteq> set (row_asts content)"
      unfolding snoc [symmetric] row_asts_def by (simp add: map_filter_def)
    show "?I (ys @ [x]) t'"
    proof (cases "row_ast (snd x)")
      case None
      then show ?thesis using A parse_row_step [OF step [unfolded t]] t unfolding snoc by simp
    next
      case (Some a)
      then have "insert a ?A \<subseteq> set (row_asts content)" using sub by simp
      then have "entries_are c sha256 (push_occurrence (rule_key sha256 a) a row m1) (insert a ?A)" for row
        using B row_asts_ok [of _ content] by (intro entries_are_push [OF A inj]) blast+
      then show ?thesis
        unfolding snoc using Some parse_row_step [OF step [unfolded t]] t
        by (simp del: push_occurrence.simps)
    qed
  qed
  then show ?thesis by (simp add: row_asts_def)
qed

subsection \<open>Dense tokens\<close>

text \<open>Every rule has a projection, so the store quotas bound the number of rules.\<close>

definition counted :: "rule_compile_limits \<Rightarrow> 'p stored_rule list \<Rightarrow> compiled_cost \<Rightarrow> bool" where
  "counted l rules cost \<longleftrightarrow>
     length rules \<le> pc_indexed (cc_store_counts cost) + pc_advanced (cc_store_counts cost)
     \<and> pc_indexed (cc_store_counts cost) \<le> max_store_indexed_rules l
     \<and> pc_advanced (cc_store_counts cost) \<le> max_store_advanced_rules l"

lemma counted_bound:
  assumes "counted l rules cost" "validate_limits l = Inr ()"
  shows "length rules < U32_MAX"
  using assms(1) validate_limits_total(2) [OF assms(2)] by (simp add: counted_def)

lemma add_entry_step:
  assumes "add_entry l list revision s (k, a, rows) = Inr s'"
  shows "(\<exists>r. st_rules s' = st_rules s @ [r] \<and> sr_ast r = a)
    \<and> st_tokens s' = st_tokens s @ [of_nat (length (st_rules s))]
    \<and> (counted l (st_rules s) (st_cost s) \<longrightarrow> counted l (st_rules s') (st_cost s'))"
proof -
  have pos: "1 \<le> pc_indexed (projections a) + pc_advanced (projections a)"
    by (auto simp: projections_def indexed_domain_def split: operator_pattern.splits)
  show ?thesis
    using assms pos
    by (auto simp: add_entry_def Let_def warden_ok counted_def counts_checked_add_def check_store_counts_def
        row_number_def)
qed

lemma add_entries_fold:
  assumes "try_fold (add_entry l list revision) s entries = Inr s'"
    and "counted l (st_rules s) (st_cost s)" "st_tokens s = []"
  shows "\<exists>new. st_rules s' = st_rules s @ new \<and> map sr_ast new = map (fst \<circ> snd) entries
    \<and> st_tokens s' = map of_nat [length (st_rules s) ..< length (st_rules s) + length entries]
    \<and> counted l (st_rules s') (st_cost s')"
proof (rule try_fold_prefix [OF assms(1), where I = "\<lambda>ys t. \<exists>new. st_rules t = st_rules s @ new
      \<and> map sr_ast new = map (fst \<circ> snd) ys
      \<and> st_tokens t = map of_nat [length (st_rules s) ..< length (st_rules s) + length ys]
      \<and> counted l (st_rules t) (st_cost t)"])
  fix ys zs :: "(string \<times> rule_entry) list" and x t t'
  assume inv: "\<exists>new. st_rules t = st_rules s @ new \<and> map sr_ast new = map (fst \<circ> snd) ys
      \<and> st_tokens t = map of_nat [length (st_rules s) ..< length (st_rules s) + length ys]
      \<and> counted l (st_rules t) (st_cost t)"
    and step: "add_entry l list revision t x = Inr t'"
  obtain k a rows where x: "x = (k, a, rows)" by (cases x)
  obtain new where new: "st_rules t = st_rules s @ new" "map sr_ast new = map (fst \<circ> snd) ys"
      "st_tokens t = map of_nat [length (st_rules s) ..< length (st_rules s) + length ys]"
      "counted l (st_rules t) (st_cost t)"
    using inv by blast
  obtain r where r: "st_rules t' = st_rules t @ [r]" "sr_ast r = a"
      "st_tokens t' = st_tokens t @ [of_nat (length (st_rules t))]" "counted l (st_rules t') (st_cost t')"
    using add_entry_step [OF step [unfolded x]] new(4) by blast
  have "length new = length ys" using new(2) by (metis length_map)
  then show "\<exists>new. st_rules t' = st_rules s @ new \<and> map sr_ast new = map (fst \<circ> snd) (ys @ [x])
      \<and> st_tokens t' = map of_nat [length (st_rules s) ..< length (st_rules s) + length (ys @ [x])]
      \<and> counted l (st_rules t') (st_cost t')"
    using new r x by (intro exI [of _ "new @ [r]"]) simp
qed (use assms in simp)

text \<open>The rules of a pack, read through its tokens.\<close>

definition pack_holds :: "bool \<Rightarrow> 'p stored_rule list \<Rightarrow> pack_summary \<Rightarrow> operator_rule_ast set \<Rightarrow> bool" where
  "pack_holds c rules ps A \<longleftrightarrow>
     (\<forall>u \<in> set (ps_tokens ps). unat u < length rules)
     \<and> (c \<longrightarrow> (\<lambda>u. sr_ast (rules ! unat u)) ` set (ps_tokens ps) = A)"

lemma pack_holds_extend: "pack_holds c rules ps A \<Longrightarrow> pack_holds c (rules @ new) ps A"
  by (auto simp: pack_holds_def nth_append image_iff)

lemma pack_holds_new:
  assumes "ps_tokens ps = map of_nat [length rules ..< length rules + length new]"
    and "length (rules @ new) < U32_MAX"
  shows "pack_holds c (rules @ new) ps (sr_ast ` set new)"
proof -
  have unat: "unat (of_nat i :: u32) = i" if "i < length rules + length new" for i
    using that assms(2) by (simp add: unat_of_nat take_bit_eq_mod U32_MAX_def)
  have "(\<lambda>u. sr_ast ((rules @ new) ! unat u)) ` set (ps_tokens ps) =
      (\<lambda>i. sr_ast ((rules @ new) ! i)) ` {length rules ..< length rules + length new}"
    using assms(1) unat by (force simp: image_image)
  also have "\<dots> = sr_ast ` ((!) (rules @ new) ` {length rules ..< length rules + length new})"
    by (simp add: image_image)
  also have "(!) (rules @ new) ` {length rules ..< length rules + length new} = set new"
  proof -
    have r: "{length rules ..< length rules + length new} = (+) (length rules) ` {0 ..< length new}"
      by (simp add: add.commute)
    show ?thesis unfolding r image_image by (simp add: nth_image)
  qed
  finally show ?thesis
    unfolding pack_holds_def using assms(1) unat by auto
qed

subsection \<open>The store\<close>

definition store_holds ::
  "bool \<Rightarrow> rule_compile_limits \<Rightarrow> 'p store_state \<Rightarrow> (string \<times> string) list \<Rightarrow> bool"
where
  "store_holds c l st sources \<longleftrightarrow>
     (case st of (rules, packs, cost) \<Rightarrow>
        counted l rules cost \<and> strictly_ascending packs
        \<and> (\<forall>r \<in> set rules. ast_ok (sr_ast r))
        \<and> (\<forall>i. map_of packs i \<noteq> None \<longleftrightarrow> map_of sources i \<noteq> None)
        \<and> (\<forall>i ps content. map_of packs i = Some ps \<longrightarrow> map_of sources i = Some content \<longrightarrow>
             pack_holds c rules ps (set (row_asts content))))"

lemma entries_asts:
  assumes "entries_are c sha256 m A"
  shows "set (map (fst \<circ> snd) m) \<subseteq> A" and "c \<Longrightarrow> set (map (fst \<circ> snd) m) = A"
proof -
  have d: "distinct (map fst m)" using assms strictly_ascending_distinct by (auto simp: entries_are_def)
  show sub: "set (map (fst \<circ> snd) m) \<subseteq> A"
  proof
    fix a assume "a \<in> set (map (fst \<circ> snd) m)"
    then obtain k rows where "(k, a, rows) \<in> set m" by auto
    then have "map_of m k = Some (a, rows)" using map_of_eq_Some_iff [OF d] by blast
    then show "a \<in> A" using assms unfolding entries_are_def by blast
  qed
  show "set (map (fst \<circ> snd) m) = A" if cf: c
  proof (rule equalityI [OF sub], rule subsetI)
    fix a assume "a \<in> A"
    then obtain rows where "map_of m (rule_key sha256 a) = Some (a, rows)"
      using assms cf unfolding entries_are_def by blast
    from map_of_SomeD [OF this] show "a \<in> set (map (fst \<circ> snd) m)" by force
  qed
qed

lemma parse_pack_step:
  assumes step: "parse_pack sha256 l (rules, packs, cost) (list, content) = Inr (rules', packs', cost')"
    and inj: "c \<Longrightarrow> inj_on sha256 (rule_key_input ` B)" "set (row_asts content) \<subseteq> B"
    and l: "validate_limits l = Inr ()" and counted: "counted l rules cost"
  shows "\<exists>new ps. rules' = rules @ new \<and> packs' = bt_insert list ps packs \<and> counted l rules' cost'
    \<and> sr_ast ` set new \<subseteq> set (row_asts content) \<and> pack_holds c rules' ps (set (row_asts content))"
proof -
  obtain entries n off bytes s where p:
      "try_fold (parse_row sha256 list) ([], 0, 0) (List.enumerate 0 (split_inclusive content)) =
        Inr (entries, n, off)"
      "try_fold (add_entry l list (sha256 content))
         \<lparr>st_rules = rules, st_tokens = [], st_counts = counts_default, st_projection_bytes = 0,
          st_cost = cost\<lparr>cc_store_bytes := bytes\<rparr>\<rparr> entries = Inr s"
      "rules' = st_rules s" "cost' = st_cost s"
      "packs' = bt_insert list
         \<lparr>ps_revision = sha256 content, ps_source_bytes = length content, ps_source_rule_rows = n,
          ps_tokens = st_tokens s, ps_counts = st_counts s, ps_projection_bytes = st_projection_bytes s\<rparr> packs"
    using step by (auto simp: parse_pack_def Let_def rbind_Inr_iff)
  have "counted l rules (cost\<lparr>cc_store_bytes := bytes\<rparr>)" using counted by (simp add: counted_def)
  then obtain new where new: "rules' = rules @ new" "map sr_ast new = map (fst \<circ> snd) entries"
      "st_tokens s = map of_nat [length rules ..< length rules + length entries]" "counted l rules' cost'"
    using add_entries_fold [OF p(2)] p(3,4) by auto
  have e: "entries_are c sha256 entries (set (row_asts content))" by (rule parse_rows_fold [OF p(1) inj])
  have asts: "sr_ast ` set new \<subseteq> set (row_asts content)" "c \<Longrightarrow> sr_ast ` set new = set (row_asts content)"
    using entries_asts [OF e] new(2) by (metis list.set_map)+
  have len: "length entries = length new" using new(2) by (metis length_map)
  have tokens: "ps_tokens ps = map of_nat [length rules ..< length rules + length new] \<Longrightarrow>
      pack_holds c rules' ps (set (row_asts content))" for ps
    using pack_holds_new [of ps rules new c] counted_bound [OF new(4) l] new(1) asts(2)
    by (auto simp: pack_holds_def)
  show ?thesis
    using tokens new(1,3,4) asts(1) p(5) len
    by (intro exI [of _ new] exI conjI) (rule refl | assumption | simp)+
qed

lemma store_holds_step:
  assumes h: "store_holds c l (rules, packs, cost) sources"
    and new: "rules' = rules @ new" "packs' = bt_insert list ps packs" "counted l rules' cost'"
      "sr_ast ` set new \<subseteq> set (row_asts content)" "pack_holds c rules' ps (set (row_asts content))"
    and fresh: "map_of sources list = None"
  shows "store_holds c l (rules', packs', cost') (sources @ [(list, content)])"
proof -
  have asc: "strictly_ascending packs" using h by (simp add: store_holds_def)
  have packs': "map_of packs' = (map_of packs)(list \<mapsto> ps)" using new(2) map_of_bt_insert [OF asc] by simp
  have sources': "map_of (sources @ [(list, content)]) = (map_of sources)(list \<mapsto> content)"
    using fresh by (auto simp: map_add_def fun_eq_iff split: option.splits)
  have ok: "\<forall>r \<in> set rules'. ast_ok (sr_ast r)"
    using h new(1,4) row_asts_ok by (auto simp: store_holds_def)
  have "pack_holds c rules' q (set (row_asts body))" if "map_of packs i = Some q" "map_of sources i = Some body" for i q body
    using h that new(1) pack_holds_extend by (fastforce simp: store_holds_def)
  moreover have "strictly_ascending packs'" using new(2) strictly_ascending_bt_insert [OF asc] by simp
  moreover have "map_of packs i \<noteq> None \<longleftrightarrow> map_of sources i \<noteq> None" for i
    using h by (simp add: store_holds_def)
  ultimately show ?thesis
    using new(3,5) ok unfolding store_holds_def prod.case packs' sources' by simp
qed

definition no_collision :: "(string \<Rightarrow> string) \<Rightarrow> pack_source list \<Rightarrow> bool" where
  "no_collision sha256 packs \<longleftrightarrow>
     inj_on sha256 (rule_key_input ` (\<Union>p \<in> set packs. set (row_asts (src_content p))))"

lemma parse_store_holds:
  assumes p: "parse_store sha256 sources l = Inr (store, cost)"
    and d: "distinct (map fst sources)"
    and inj: "c \<Longrightarrow> inj_on sha256 (rule_key_input ` (\<Union>(i, body) \<in> set sources. set (row_asts body)))"
    and l: "validate_limits l = Inr ()"
  shows "\<exists>cost0. store_holds c l (rs_rules store, rs_packs store, cost0) sources"
proof -
  let ?B = "\<Union>(i, body) \<in> set sources. set (row_asts body)"
  obtain rules packs cost0 where f: "try_fold (parse_pack sha256 l) ([], [], cost_default) sources =
        Inr (rules, packs, cost0)" and store: "store = \<lparr>rs_rules = rules, rs_packs = packs\<rparr>"
    using p by (auto simp: parse_store_def Let_def rbind_Inr_iff)
  have "store_holds c l (rules, packs, cost0) sources"
  proof (rule try_fold_prefix [where I = "\<lambda>ys t. store_holds c l t ys", OF f])
    show "store_holds c l ([], [], cost_default) []"
      by (simp add: store_holds_def counted_def cost_default_def counts_default_def)
  next
    fix ys x zs t t'
    assume xs: "sources = ys @ x # zs" and h: "store_holds c l t ys" and step: "parse_pack sha256 l t x = Inr t'"
    obtain i body where x: "x = (i, body)" by (cases x)
    obtain r1 p1 c1 r2 p2 c2 where t: "t = (r1, p1, c1)" "t' = (r2, p2, c2)" by (cases t; cases t')
    have sub: "set (row_asts body) \<subseteq> ?B" using xs x by auto
    have cnt: "counted l r1 c1" using h t by (simp add: store_holds_def)
    obtain new ps where n: "r2 = r1 @ new" "p2 = bt_insert i ps p1" "counted l r2 c2"
        "sr_ast ` set new \<subseteq> set (row_asts body)" "pack_holds c r2 ps (set (row_asts body))"
      using parse_pack_step [OF step [unfolded t x] inj sub l cnt] by blast
    have "map_of ys i = None" using d xs x by (simp add: map_of_eq_None_iff)
    then show "store_holds c l t' (ys @ [x])"
      using store_holds_step [OF h [unfolded t] n] by (simp add: t x)
  qed
  then show ?thesis by (auto simp: store)
qed

section \<open>Program compilation\<close>

definition program_added ::
  "(string \<Rightarrow> bool \<Rightarrow> nat \<Rightarrow> (regex_error, 'p) result) \<Rightarrow> rule_compile_limits
     \<Rightarrow> 'p stored_rule \<Rightarrow> 'p stored_rule \<Rightarrow> bool"
where
  "program_added re_compile l r r' \<longleftrightarrow>
     sr_ast r' = sr_ast r \<and> sr_origin r' = sr_origin r
     \<and> (\<forall>s ci. ast_pattern (sr_ast r) = OpRegex s ci \<longrightarrow>
          (\<exists>prog. sr_program r' = Some prog \<and> re_compile s ci (max_regex_program_bytes l) = Inr prog))"

lemma compile_programs_Inr:
  fixes store :: "'p compiled_rule_store"
  assumes "compile_programs re_compile store l = Inr store'"
  shows "rs_packs store' = rs_packs store
    \<and> list_all2 (program_added re_compile l) (rs_rules store) (rs_rules store')"
proof -
  let ?ok = "\<lambda>programs. \<forall>s ci v n prog. map_of programs (s, ci, v, n) = Some prog \<longrightarrow> re_compile s ci n = Inr prog"
  let ?R = "program_added re_compile l"
  obtain programs rules where f: "try_fold (compile_program re_compile l) ([], []) (rs_rules store) =
        Inr (programs, rules)" "store' = store\<lparr>rs_rules := rules\<rparr>"
    using assms by (auto simp: compile_programs_def rbind_Inr_iff)
  have "?ok (fst (programs, rules)) \<and> list_all2 ?R (rs_rules store) (snd (programs, rules))"
  proof (rule try_fold_prefix [where I = "\<lambda>ys t. ?ok (fst t) \<and> list_all2 ?R ys (snd t)", OF f(1)])
    fix ys zs :: "'p stored_rule list" and x t t'
    assume inv: "?ok (fst t) \<and> list_all2 ?R ys (snd t)" and step: "compile_program re_compile l t x = Inr t'"
    obtain m fin where t: "t = (m, fin)" by (cases t)
    have "?ok (fst t') \<and> (\<exists>r'. snd t' = fin @ [r'] \<and> ?R x r')"
      using inv step
      by (auto simp: t compile_program_def regex_key_of_def program_added_def Let_def warden_ok
          split: operator_pattern.splits option.splits if_splits)
    then show "?ok (fst t') \<and> list_all2 ?R (ys @ [x]) (snd t')"
      using inv t by (auto intro: list_all2_appendI)
  qed simp
  then show ?thesis using f(2) by simp
qed

lemma compile_programs_nth:
  assumes "compile_programs re_compile store l = Inr store'"
  shows "length (rs_rules store') = length (rs_rules store)"
    and "i < length (rs_rules store) \<Longrightarrow> program_added re_compile l (rs_rules store ! i) (rs_rules store' ! i)"
  using compile_programs_Inr [OF assms] by (auto simp: list_all2_conv_all_nth)

section \<open>Planning\<close>

definition mounted_tokens :: "'p compiled_rule_store \<Rightarrow> string list \<Rightarrow> u32 set" where
  "mounted_tokens store ids =
     {u. \<exists>i \<in> set ids. \<exists>ps. map_of (rs_packs store) i = Some ps \<and> u \<in> set (ps_tokens ps)}"

definition plan_of :: "'p compiled_rule_store \<Rightarrow> profile_mounts \<Rightarrow> profile_plan \<Rightarrow> bool" where
  "plan_of store m p \<longleftrightarrow>
     pl_id p = pm_profile_id m \<and> pl_block_all p = pm_block_all m
     \<and> set (pm_custom_lists m) \<subseteq> dom (map_of (rs_packs store))
     \<and> set (pl_tokens p) = mounted_tokens store (pm_custom_lists m)"

lemma plan_mounts_fold:
  assumes f: "try_fold (plan_mount store l pid) m0 ids = Inr m" and "mt_tokens m0 = []"
    and asc: "strictly_ascending (rs_packs store)"
  shows "set ids \<subseteq> dom (map_of (rs_packs store)) \<and> set (mt_tokens m) = mounted_tokens store ids"
proof (rule try_fold_prefix [where I = "\<lambda>ys t. set ys \<subseteq> dom (map_of (rs_packs store))
      \<and> set (mt_tokens t) = mounted_tokens store ys", OF f])
  fix ys x zs t t'
  assume inv: "set ys \<subseteq> dom (map_of (rs_packs store)) \<and> set (mt_tokens t) = mounted_tokens store ys"
    and step: "plan_mount store l pid t x = Inr t'"
  obtain ps where ps: "map_of (rs_packs store) x = Some ps" "mt_tokens t' = mt_tokens t @ ps_tokens ps"
    using step
    by (auto simp: plan_mount_def warden_ok compile_id_Inr store_pack_def sorted_find_map_of [OF asc]
        split: option.splits)
  have "mounted_tokens store (ys @ [x]) = mounted_tokens store ys \<union> set (ps_tokens ps)"
    using ps(1) by (auto simp: mounted_tokens_def)
  then show "set (ys @ [x]) \<subseteq> dom (map_of (rs_packs store))
      \<and> set (mt_tokens t') = mounted_tokens store (ys @ [x])"
    using inv ps by auto
qed (use assms in \<open>simp add: mounted_tokens_def\<close>)

lemma plan_profile_step:
  assumes step: "plan_profile store l (plans, seen, cost) m = Inr (plans', seen', cost')"
    and asc: "strictly_ascending (rs_packs store)"
  shows "\<exists>p. plans' = plans @ [p] \<and> plan_of store m p \<and> seen' = pl_id p # seen \<and> pl_id p \<notin> set seen
    \<and> cc_snapshot_bytes cost' = cc_store_bytes cost' + cc_profile_owned_bytes_total cost'
    \<and> cc_profile_owned_bytes_total cost' = cc_profile_owned_bytes_total cost + pl_owned_bytes p
    \<and> cc_store_bytes cost' = cc_store_bytes cost \<and> cc_snapshot_bytes cost' \<le> max_compiled_bytes_total l
    \<and> pl_compiled_bytes p \<le> max_compiled_bytes_per_profile l"
proof -
  obtain base ms where ms: "try_fold (plan_mount store l (pm_profile_id m))
        \<lparr>mt_mounts = [], mt_tokens = [], mt_counts = counts_default, mt_owned = base, mt_keys = []\<rparr>
        (pm_custom_lists m) = Inr ms"
      "\<exists>p. plans' = plans @ [p] \<and> pl_id p = pm_profile_id m \<and> pl_block_all p = pm_block_all m
         \<and> pl_tokens p = sort (mt_tokens ms) \<and> seen' = pl_id p # seen \<and> pl_id p \<notin> set seen
         \<and> cc_snapshot_bytes cost' = cc_store_bytes cost' + cc_profile_owned_bytes_total cost'
         \<and> cc_profile_owned_bytes_total cost' = cc_profile_owned_bytes_total cost + pl_owned_bytes p
         \<and> cc_store_bytes cost' = cc_store_bytes cost \<and> cc_snapshot_bytes cost' \<le> max_compiled_bytes_total l
         \<and> pl_compiled_bytes p \<le> max_compiled_bytes_per_profile l"
    using step by (auto simp: plan_profile_def Let_def warden_ok compile_id_Inr)
  show ?thesis
    using ms(2) plan_mounts_fold [OF ms(1) _ asc] by (auto simp: plan_of_def)
qed

definition plans_hold :: "'p compiled_rule_store \<Rightarrow> rule_compile_limits \<Rightarrow> profile_mounts list \<Rightarrow> plan_state \<Rightarrow> bool" where
  "plans_hold store l profiles st \<longleftrightarrow>
     (case st of (plans, seen, cost) \<Rightarrow>
        list_all2 (plan_of store) profiles plans \<and> distinct (map pl_id plans) \<and> set seen = pl_id ` set plans
        \<and> cc_profile_owned_bytes_total cost = sum_list (map pl_owned_bytes plans)
        \<and> cc_snapshot_bytes cost = cc_store_bytes cost + cc_profile_owned_bytes_total cost
        \<and> cc_snapshot_bytes cost \<le> max_compiled_bytes_total l
        \<and> (\<forall>p \<in> set plans. pl_compiled_bytes p \<le> max_compiled_bytes_per_profile l))"

lemma plan_profiles_Inr:
  assumes f: "plan_profiles store profiles l cost = Inr (plans, cost')"
    and asc: "strictly_ascending (rs_packs store)"
    and c: "cc_profile_owned_bytes_total cost = 0" "cc_snapshot_bytes cost = cc_store_bytes cost"
      "cc_snapshot_bytes cost \<le> max_compiled_bytes_total l"
  shows "\<exists>seen. plans_hold store l profiles (plans, seen, cost')"
proof -
  obtain seen where f: "try_fold (plan_profile store l) ([], [], cost) profiles = Inr (plans, seen, cost')"
    using f by (auto simp: plan_profiles_def rbind_Inr_iff)
  have "plans_hold store l profiles (plans, seen, cost')"
  proof (rule try_fold_prefix [where I = "plans_hold store l", OF f])
    show "plans_hold store l [] ([], [], cost)" using c by (simp add: plans_hold_def)
  next
    fix ys x zs t t'
    assume inv: "plans_hold store l ys t" and step: "plan_profile store l t x = Inr t'"
    obtain p1 s1 c1 p2 s2 c2 where t: "t = (p1, s1, c1)" "t' = (p2, s2, c2)" by (cases t; cases t')
    obtain p where "p2 = p1 @ [p]" "plan_of store x p" "s2 = pl_id p # s1" "pl_id p \<notin> set s1"
        "cc_snapshot_bytes c2 = cc_store_bytes c2 + cc_profile_owned_bytes_total c2"
        "cc_profile_owned_bytes_total c2 = cc_profile_owned_bytes_total c1 + pl_owned_bytes p"
        "cc_snapshot_bytes c2 \<le> max_compiled_bytes_total l"
        "pl_compiled_bytes p \<le> max_compiled_bytes_per_profile l"
      using plan_profile_step [OF step [unfolded t] asc] by blast
    then show "plans_hold store l (ys @ [x]) t'"
      using inv by (auto simp: t plans_hold_def intro: list_all2_appendI)
  qed
  then show ?thesis by blast
qed

end
