(* ===== verification/Operator_Snapshot.thy ===== *)
theory Operator_Snapshot
  imports Operator_Pipeline "HOL-Library.Code_Target_Nat"
begin

text \<open>
  The contract of \<open>CompiledOperatorRules::compile\<close>: it never panics, it accounts
  for its admission exactly on every path, and a snapshot it returns answers
  every query as the rows of the mounted files say.
\<close>

section \<open>A candidate\<close>

lemma parse_pack_cost:
  assumes "parse_pack sha256 l (rules, packs, cost) source = Inr (rules', packs', cost')"
    and "cc_profile_owned_bytes_total cost = 0"
  shows "cc_profile_owned_bytes_total cost' = 0"
proof -
  obtain list content where source: "source = (list, content)" by (cases source)
  obtain entries bytes s where s: "try_fold (add_entry l list (sha256 content))
         \<lparr>st_rules = rules, st_tokens = [], st_counts = counts_default, st_projection_bytes = 0,
          st_cost = cost\<lparr>cc_store_bytes := bytes\<rparr>\<rparr> entries = Inr s" "cost' = st_cost s"
    using assms(1) unfolding source by (auto simp: parse_pack_def Let_def rbind_Inr_iff)
  have "cc_profile_owned_bytes_total (st_cost s) = 0"
    by (rule try_fold_invariant [OF s(1), where I = "\<lambda>s. cc_profile_owned_bytes_total (st_cost s) = 0"])
      (use assms(2) in \<open>auto simp: add_entry_def Let_def warden_ok\<close>)
  then show ?thesis using s(2) by simp
qed

lemma parse_store_cost:
  fixes store :: "'p compiled_rule_store"
  assumes "parse_store sha256 sources l = Inr (store, cost)"
  shows "cc_profile_owned_bytes_total cost = 0 \<and> cc_snapshot_bytes cost = cc_store_bytes cost
    \<and> cc_snapshot_bytes cost \<le> max_compiled_bytes_total l"
proof -
  obtain rules :: "'p stored_rule list" and packs cost0
    where f: "try_fold (parse_pack sha256 l) ([], [], cost_default) sources = Inr (rules, packs, cost0)"
      and cost: "cc_profile_owned_bytes_total cost = cc_profile_owned_bytes_total cost0"
        "cc_snapshot_bytes cost = cc_store_bytes cost" "cc_snapshot_bytes cost \<le> max_compiled_bytes_total l"
    using assms by (auto simp: parse_store_def Let_def warden_ok)
  have "cc_profile_owned_bytes_total (snd (snd (rules, packs, cost0))) = 0"
    by (rule try_fold_invariant [OF f, where I = "\<lambda>t. cc_profile_owned_bytes_total (snd (snd t)) = 0"])
      (auto simp: cost_default_def dest: parse_pack_cost)
  then show ?thesis using cost by simp
qed

text \<open>What the passes before program compilation give.\<close>

definition candidate_holds ::
  "bool \<Rightarrow> rule_compile_limits \<Rightarrow> pack_source list \<Rightarrow> profile_mounts list
     \<Rightarrow> 'p compiled_rule_store \<times> profile_plan list \<times> compiled_cost \<Rightarrow> bool"
where
  "candidate_holds c l packs profiles cand \<longleftrightarrow>
     (case cand of (store, plans, cost) \<Rightarrow>
        \<exists>sources cost0 seen. set sources = set (pack_entries packs) \<and> distinct (map fst sources)
          \<and> map_of sources = map_of (pack_entries packs)
          \<and> store_holds c l (rs_rules store, rs_packs store, cost0) sources
          \<and> plans_hold store l profiles (plans, seen, cost))"

lemma plan_candidate_holds:
  assumes p: "plan_candidate sha256 packs profiles l = Inr cand" and l: "validate_limits l = Inr ()"
  shows "candidate_holds (no_collision sha256 packs) l packs profiles cand"
proof -
  obtain store plans cost where cand: "cand = (store, plans, cost)" by (cases cand)
  obtain sources cost1 where s: "preflight_sources packs l = Inr sources"
      "parse_store sha256 sources l = Inr (store, cost1)" "plan_profiles store profiles l cost1 = Inr (plans, cost)"
    using p cand by (auto simp: plan_candidate_def rbind_Inr_iff)
  have d: "distinct (map fst sources)"
    using preflight_sources_Inr(1) [OF s(1)] by (rule strictly_ascending_distinct)
  have set: "set sources = set (pack_entries packs)" by (rule set_pack_entries [OF s(1)])
  have "(\<Union>(i, body) \<in> set sources. set (row_asts body)) = (\<Union>p \<in> set packs. set (row_asts (src_content p)))"
    unfolding set by (auto simp: pack_entries_def)
  then obtain cost0 where h: "store_holds (no_collision sha256 packs) l (rs_rules store, rs_packs store, cost0) sources"
    using parse_store_holds [OF s(2) d _ l, of "no_collision sha256 packs"] by (auto simp: no_collision_def)
  then have "strictly_ascending (rs_packs store)" by (simp add: store_holds_def)
  then obtain seen where "plans_hold store l profiles (plans, seen, cost)"
    using plan_profiles_Inr [OF s(3)] parse_store_cost [OF s(2)] by auto
  then show ?thesis
    using h d set preflight_sources_Inr(3) [OF s(1)] unfolding candidate_holds_def cand by blast
qed

section \<open>Building the profiles\<close>

definition store_ready :: "'p compiled_rule_store \<Rightarrow> bool" where
  "store_ready store \<longleftrightarrow>
     length (rs_rules store) < U32_MAX
     \<and> (\<forall>r \<in> set (rs_rules store). ast_ok (sr_ast r)
          \<and> (\<forall>s ci. ast_pattern (sr_ast r) = OpRegex s ci \<longrightarrow> sr_program r \<noteq> None))"

lemma unat_EMPTY_TOKEN: "unat EMPTY_TOKEN = U32_MAX"
  by (simp add: EMPTY_TOKEN_def U32_MAX_def unat_minus_one_word)

lemma ast_ok_indexed: "ast_ok a \<Longrightarrow> indexed_domain a \<noteq> Some []"
  by (auto simp: ast_ok_def indexed_domain_def split: operator_pattern.splits if_splits)

definition built_from :: "'p compiled_rule_store \<Rightarrow> profile_plan \<Rightarrow> string \<times> 'p compiled_profile \<Rightarrow> bool" where
  "built_from store plan e \<longleftrightarrow>
     fst e = pl_id plan \<and> cp_store (snd e) = store \<and> cp_mounted (snd e) = pl_tokens plan
     \<and> cp_block_all (snd e) = pl_block_all plan \<and> profile_wf (snd e) \<and> profile_rules_ok (snd e)"

lemma build_profile_ok:
  assumes store: "store_ready store" and toks: "\<forall>u \<in> set (pl_tokens plan). unat u < length (rs_rules store)"
  shows "\<exists>e. build_profile snapshot store (position, plan) = Inr e \<and> built_from store plan e"
proof -
  let ?rules = "rs_rules store" and ?toks = "pl_tokens plan"
  have rule: "ast_ok (sr_ast (?rules ! unat u)) \<and>
      (\<forall>s ci. ast_pattern (sr_ast (?rules ! unat u)) = OpRegex s ci \<longrightarrow> sr_program (?rules ! unat u) \<noteq> None)"
    if "u \<in> set ?toks" for u
    using store toks that by (auto simp: store_ready_def)
  have ready: "programs_ready ?rules ?toks" using rule by (auto simp: programs_ready_def)
  have ne: "[] \<notin> indexed_names ?rules ?toks"
    using rule ast_ok_indexed by (auto simp: indexed_names_def tok_dom_def)
  have empty: "EMPTY_TOKEN \<notin> set ?toks"
    using toks store unat_EMPTY_TOKEN by (fastforce simp: store_ready_def)
  obtain ix m where ix: "build_index ?rules ?toks = Inr (ix, concat (map (adv_of ?rules) ?toks), m)"
    using build_index_correct [OF ready ne] by blast
  show ?thesis
    using ix ready ne empty rule
    by (auto simp: build_profile_def built_from_def profile_wf_def profile_rules_ok_def ast_ok_def)
qed

lemma build_profiles_ok:
  assumes store: "store_ready store"
    and toks: "\<forall>plan \<in> set plans. \<forall>u \<in> set (pl_tokens plan). unat u < length (rs_rules store)"
  shows "\<exists>built. build_profiles snapshot store plans = Inr built \<and> list_all2 (built_from store) plans built"
proof -
  let ?f = "\<lambda>acc entry. rbind (build_profile snapshot store entry) (\<lambda>p. Inr (acc @ [p]))"
  have "\<exists>built. try_fold ?f acc (List.enumerate n plans) = Inr (acc @ built)
      \<and> list_all2 (built_from store) plans built" for acc n
    using toks
  proof (induction plans arbitrary: acc n)
    case (Cons plan plans)
    obtain e where e: "build_profile snapshot store (n, plan) = Inr e" "built_from store plan e"
      using build_profile_ok [OF store, of plan snapshot n] Cons.prems by auto
    obtain built where "try_fold ?f (acc @ [e]) (List.enumerate (Suc n) plans) = Inr ((acc @ [e]) @ built)"
        "list_all2 (built_from store) plans built"
      using Cons.IH Cons.prems by (metis list.set_intros(2))
    then show ?case using e by (intro exI [of _ "e # built"]) simp
  qed simp
  from this [of "[]" 0] show ?thesis by (simp add: build_profiles_def)
qed

section \<open>The whole compilation\<close>

lemma programs_ready_store:
  assumes "candidate_holds c l packs profiles (store, plans, cost)" "validate_limits l = Inr ()"
    and "compile_programs re_compile store l = Inr store'"
  shows "store_ready store'"
proof -
  have s: "\<forall>r \<in> set (rs_rules store). ast_ok (sr_ast r)" "length (rs_rules store) < U32_MAX"
    using assms(1) counted_bound [OF _ assms(2)] by (auto simp: candidate_holds_def store_holds_def)
  note nth = compile_programs_nth [OF assms(3)]
  have "ast_ok (sr_ast r') \<and> (\<forall>s ci. ast_pattern (sr_ast r') = OpRegex s ci \<longrightarrow> sr_program r' \<noteq> None)"
    if r': "r' \<in> set (rs_rules store')" for r'
  proof -
    obtain i where i: "i < length (rs_rules store)" "r' = rs_rules store' ! i"
      using r' nth(1) by (metis in_set_conv_nth)
    have "program_added re_compile l (rs_rules store ! i) r'" unfolding i(2) by (rule nth(2) [OF i(1)])
    moreover have "ast_ok (sr_ast (rs_rules store ! i))" using s(1) nth_mem [OF i(1)] by blast
    ultimately show ?thesis unfolding program_added_def by force
  qed
  then show ?thesis using s(2) nth(1) by (simp add: store_ready_def)
qed

lemma plan_tokens_in_range:
  assumes "candidate_holds c l packs profiles (store, plans, cost)"
    and "length (rs_rules store') = length (rs_rules store)"
  shows "\<forall>plan \<in> set plans. \<forall>u \<in> set (pl_tokens plan). unat u < length (rs_rules store')"
proof (intro ballI)
  fix plan u assume plan: "plan \<in> set plans" and u: "u \<in> set (pl_tokens plan)"
  obtain sources cost0 seen where h: "store_holds c l (rs_rules store, rs_packs store, cost0) sources"
      "plans_hold store l profiles (plans, seen, cost)"
    using assms(1) by (auto simp: candidate_holds_def)
  obtain m where "plan_of store m plan"
    using h(2) plan by (auto simp: plans_hold_def list_all2_conv_all_nth in_set_conv_nth)
  then obtain i ps where ps: "map_of (rs_packs store) i = Some ps" "u \<in> set (ps_tokens ps)"
    using u by (auto simp: plan_of_def mounted_tokens_def)
  then have "map_of sources i \<noteq> None" using h(1) by (auto simp: store_holds_def)
  then obtain content where "map_of sources i = Some content" by blast
  then have "pack_holds c (rs_rules store) ps (set (row_asts content))"
    using h(1) ps(1) unfolding store_holds_def by simp
  then show "unat u < length (rs_rules store')" using ps(2) assms(2) by (simp add: pack_holds_def)
qed

definition is_panic :: "(compile_failure, 'a) result \<Rightarrow> bool" where
  "is_panic r = (case r of Inl (Panicked _) \<Rightarrow> True | _ \<Rightarrow> False)"

lemma compile_cases:
  assumes "validate_limits l = Inr ()" "admission_begin adm (max_compiled_bytes_total l) = (Inr lease, adm1)"
    and cand: "plan_candidate sha256 packs profiles l = Inr (store, plans, cost)"
  obtains adm2 where "charge adm1 lease (cc_snapshot_bytes cost) = Some (adm2, cc_snapshot_bytes cost)"
    and "\<And>e. compile_programs re_compile store l = Inl e \<Longrightarrow>
      compile_operator_rules sha256 re_compile snapshot packs profiles l adm =
        (Inl (Failed e), abandon adm2 (cc_snapshot_bytes cost))"
    and "\<And>store'. compile_programs re_compile store l = Inr store' \<Longrightarrow>
      \<exists>built. list_all2 (built_from store') plans built \<and>
        compile_operator_rules sha256 re_compile snapshot packs profiles l adm =
          (Inr \<lparr>co_store = store', co_profiles = sort_key fst built, co_cost = cost,
                co_lease = cc_snapshot_bytes cost\<rparr>, drop_build adm2)"
proof -
  have h: "candidate_holds (no_collision sha256 packs) l packs profiles (store, plans, cost)"
    by (rule plan_candidate_holds [OF cand assms(1)])
  have "lease = max_compiled_bytes_total l"
    using assms(2) by (auto simp: admission_begin_def split: sum.splits)
  then have "cc_snapshot_bytes cost \<le> lease" using h by (auto simp: candidate_holds_def plans_hold_def)
  then obtain adm2 where adm2: "charge adm1 lease (cc_snapshot_bytes cost) = Some (adm2, cc_snapshot_bytes cost)"
    by (simp add: charge_def)
  show ?thesis
  proof (rule that [OF adm2])
    fix store' assume p: "compile_programs re_compile store l = Inr store'"
    have len: "length (rs_rules store') = length (rs_rules store)"
      by (rule compile_programs_nth [OF p])
    obtain built where "build_profiles snapshot store' plans = Inr built" "list_all2 (built_from store') plans built"
      using build_profiles_ok [OF programs_ready_store [OF h assms(1) p] plan_tokens_in_range [OF h len]] by blast
    then show "\<exists>built. list_all2 (built_from store') plans built \<and>
        compile_operator_rules sha256 re_compile snapshot packs profiles l adm =
          (Inr \<lparr>co_store = store', co_profiles = sort_key fst built, co_cost = cost,
                co_lease = cc_snapshot_bytes cost\<rparr>, drop_build adm2)"
      using assms adm2 p by (intro exI [of _ built]) (simp add: compile_operator_rules_def)
  qed (use assms adm2 in \<open>simp add: compile_operator_rules_def\<close>)
qed

text \<open>C9. Compilation never panics, whatever the packs, the mounts, the limits and the
  digest: the planned charge always fits the lease (\<open>preflight must enforce candidate
  ceiling\<close>), every mounted regex has a program (\<open>preflight compiles every regex\<close>) and
  every indexed rule finds its entry (\<open>indexed rule creates its domain entry\<close>).\<close>

theorem compile_never_panics:
  fixes re_compile :: "string \<Rightarrow> bool \<Rightarrow> nat \<Rightarrow> (regex_error, 'p) result"
  shows "\<not> is_panic (fst (compile_operator_rules sha256 re_compile snapshot packs profiles l adm))"
proof (cases "validate_limits l")
  case (Inr u)
  then have v: "validate_limits l = Inr ()" by simp
  obtain r adm1 where b: "admission_begin adm (max_compiled_bytes_total l) = (r, adm1)" by fastforce
  show ?thesis
  proof (cases r)
    case (Inr lease)
    show ?thesis
    proof (cases "plan_candidate sha256 packs profiles l :: (_, 'p compiled_rule_store \<times> _) result")
      case (Inr cand)
      obtain store plans cost where cand: "cand = (store, plans, cost)" by (cases cand)
      show ?thesis
        by (rule compile_cases [OF v b [unfolded \<open>r = Inr lease\<close>] Inr [unfolded cand],
              where re_compile = re_compile and snapshot = snapshot])
          (cases "compile_programs re_compile store l", auto simp: is_panic_def)
    qed (use v b Inr in \<open>simp add: compile_operator_rules_def is_panic_def\<close>)
  qed (use v b in \<open>simp add: compile_operator_rules_def is_panic_def\<close>)
qed (simp add: compile_operator_rules_def is_panic_def)

lemma compile_Inr:
  fixes c :: "'p compiled_operator_rules"
  assumes "compile_operator_rules sha256 re_compile snapshot packs profiles l adm = (Inr c, adm')"
  obtains lease adm1 adm2 store plans built
  where "validate_limits l = Inr ()" "admission_begin adm (max_compiled_bytes_total l) = (Inr lease, adm1)"
    "plan_candidate sha256 packs profiles l = Inr (store, plans, co_cost c)"
    "charge adm1 lease (cc_snapshot_bytes (co_cost c)) = Some (adm2, co_lease c)" "adm' = drop_build adm2"
    "compile_programs re_compile store l = Inr (co_store c)"
    "list_all2 (built_from (co_store c)) plans built" "co_profiles c = sort_key fst built"
proof -
  have v: "validate_limits l = Inr ()"
    using assms by (auto simp: compile_operator_rules_def split: sum.splits)
  obtain lease adm1 where b: "admission_begin adm (max_compiled_bytes_total l) = (Inr lease, adm1)"
    using assms v by (auto simp: compile_operator_rules_def split: sum.splits prod.splits)
  obtain store :: "'p compiled_rule_store" and plans cost
    where cand: "plan_candidate sha256 packs profiles l = Inr (store, plans, cost)"
    using assms v b by (auto simp: compile_operator_rules_def split: sum.splits)
  show thesis
  proof (rule compile_cases [OF v b cand, where re_compile = re_compile and snapshot = snapshot])
    fix adm2
    assume ch: "charge adm1 lease (cc_snapshot_bytes cost) = Some (adm2, cc_snapshot_bytes cost)"
      and err: "\<And>e. compile_programs re_compile store l = Inl e \<Longrightarrow>
        compile_operator_rules sha256 re_compile snapshot packs profiles l adm =
          (Inl (Failed e), abandon adm2 (cc_snapshot_bytes cost))"
      and ok: "\<And>store'. compile_programs re_compile store l = Inr store' \<Longrightarrow>
        \<exists>built. list_all2 (built_from store') plans built \<and>
          compile_operator_rules sha256 re_compile snapshot packs profiles l adm =
            (Inr \<lparr>co_store = store', co_profiles = sort_key fst built, co_cost = cost,
                  co_lease = cc_snapshot_bytes cost\<rparr>, drop_build adm2)"
    obtain store' where p: "compile_programs re_compile store l = Inr store'"
      using err assms by (cases "compile_programs re_compile store l") auto
    obtain built where "list_all2 (built_from store') plans built"
        "c = \<lparr>co_store = store', co_profiles = sort_key fst built, co_cost = cost,
              co_lease = cc_snapshot_bytes cost\<rparr>" "adm' = drop_build adm2"
      using ok [OF p] assms by auto
    then show thesis using that v b cand ch p by simp
  qed
qed

section \<open>Admission\<close>

lemma admission_begin_Inr:
  assumes "admission_begin adm n = (Inr lease, adm1)"
  shows "lease = n" and "adm1 = adm\<lparr>adm_builds := adm_builds adm + 1, adm_bytes := adm_bytes adm + n\<rparr>"
    and "adm_bytes adm + n \<le> min (adm_max_bytes adm) USIZE_MAX" and "adm_builds adm + 1 \<le> USIZE_MAX"
  using assms
  by (auto simp: admission_begin_def reserve_build_Inr reserve_bytes_Inr split: sum.splits)

lemma admission_begin_Inl:
  assumes "admission_begin adm n = (Inl e, adm1)" "adm_builds adm \<le> USIZE_MAX"
  shows "adm1 = adm"
  using assms
  by (auto simp: admission_begin_def reserve_build_Inr reserve_bytes_Inr drop_build_def fetch_sub_exact
      split: sum.splits)

lemma abandon_begin:
  assumes "admission_begin adm n = (Inr lease, adm1)"
  shows "abandon adm1 lease = adm"
    and "charge adm1 lease b = Some (adm2, b') \<Longrightarrow> abandon adm2 b' = adm"
    and "charge adm1 lease b = Some (adm2, b') \<Longrightarrow> drop_build adm2 = adm\<lparr>adm_bytes := adm_bytes adm + b\<rparr>"
proof -
  note b = admission_begin_Inr [OF assms]
  show "abandon adm1 lease = adm"
    using b by (simp add: abandon_def drop_build_def drop_lease_def fetch_sub_exact)
  assume "charge adm1 lease b = Some (adm2, b')"
  then have c: "b' = b" "b \<le> n" "adm2 = adm1\<lparr>adm_bytes := adm_bytes adm + b\<rparr>"
    using b by (auto simp: charge_Some fetch_sub_exact)
  show "abandon adm2 b' = adm" "drop_build adm2 = adm\<lparr>adm_bytes := adm_bytes adm + b\<rparr>"
    using b c by (simp_all add: abandon_def drop_build_def drop_lease_def fetch_sub_exact)
qed

text \<open>C10. Compilation accounts for its admission exactly.  On success the byte counter
  has grown by the snapshot's own cost, which stays below the configured total and
  below the admission limit, and the build slot is free again; on every error, early
  or late, both counters are what they were.\<close>

theorem compile_accounts:
  fixes re_compile :: "string \<Rightarrow> bool \<Rightarrow> nat \<Rightarrow> (regex_error, 'p) result"
  assumes builds: "adm_builds adm \<le> USIZE_MAX"
  shows "case compile_operator_rules sha256 re_compile snapshot packs profiles l adm of
      (Inl e, adm') \<Rightarrow> adm' = adm
    | (Inr c, adm') \<Rightarrow> adm' = adm\<lparr>adm_bytes := adm_bytes adm + co_lease c\<rparr>
        \<and> co_lease c = cc_snapshot_bytes (co_cost c) \<and> co_lease c \<le> max_compiled_bytes_total l
        \<and> adm_bytes adm' \<le> adm_max_bytes adm"
proof (cases "compile_operator_rules sha256 re_compile snapshot packs profiles l adm")
  case (Pair r adm')
  show ?thesis
  proof (cases r)
    case (Inr c)
    obtain lease adm1 adm2 where c: "admission_begin adm (max_compiled_bytes_total l) = (Inr lease, adm1)"
        "charge adm1 lease (cc_snapshot_bytes (co_cost c)) = Some (adm2, co_lease c)" "adm' = drop_build adm2"
      using compile_Inr [OF Pair [unfolded Inr]] by metis
    have "co_lease c = cc_snapshot_bytes (co_cost c)" "co_lease c \<le> max_compiled_bytes_total l"
      using c(2) admission_begin_Inr(1) [OF c(1)] by (auto simp: charge_Some)
    then show ?thesis
      using Pair Inr c(3) abandon_begin(3) [OF c(1,2)] admission_begin_Inr(3) [OF c(1)] by simp
  next
    case (Inl e)
    have "adm' = adm"
    proof (cases "validate_limits l")
      case (Inr u)
      then have v: "validate_limits l = Inr ()" by simp
      obtain b adm1 where b: "admission_begin adm (max_compiled_bytes_total l) = (b, adm1)" by fastforce
      show ?thesis
      proof (cases b)
        case (Inr lease)
        note bl = b [unfolded Inr]
        show ?thesis
        proof (cases "plan_candidate sha256 packs profiles l :: (_, 'p compiled_rule_store \<times> _) result")
          case (Inr cand)
          obtain store plans cost where cand: "cand = (store, plans, cost)" by (cases cand)
          show ?thesis
            by (rule compile_cases [OF v bl Inr [unfolded cand], where re_compile = re_compile and snapshot = snapshot],
                cases "compile_programs re_compile store l")
              (use Pair Inl abandon_begin(2) [OF bl] in fastforce)+
        qed (use v bl Pair Inl abandon_begin(1) [OF bl] in \<open>simp add: compile_operator_rules_def\<close>)
      next
        case (Inl e')
        then show ?thesis
          using v b Pair admission_begin_Inl [OF _ builds] by (auto simp: compile_operator_rules_def)
      qed
    qed (use Pair in \<open>simp add: compile_operator_rules_def\<close>)
    then show ?thesis using Pair Inl by simp
  qed
qed

section \<open>Answers of a compiled snapshot\<close>

lemma strictly_ascending_sort_key:
  "distinct (map fst xs) \<Longrightarrow> strictly_ascending (sort_key fst xs)"
  by (simp add: strictly_ascending_def strict_sorted_iff distinct_map)

lemma compiled_profiles:
  assumes "compile_operator_rules sha256 re_compile snapshot packs profiles l adm = (Inr c, adm')"
  obtains store plans built
  where "candidate_holds (no_collision sha256 packs) l packs profiles (store, plans, co_cost c)"
    "compile_programs re_compile store l = Inr (co_store c)"
    "list_all2 (built_from (co_store c)) plans built"
    "\<And>i p. profile_of c i = Some p \<longleftrightarrow> (i, p) \<in> set built"
proof (rule compile_Inr [OF assms])
  fix lease adm1 adm2 store plans built
  assume v: "validate_limits l = Inr ()" and cand: "plan_candidate sha256 packs profiles l = Inr (store, plans, co_cost c)"
    and prog: "compile_programs re_compile store l = Inr (co_store c)"
    and built: "list_all2 (built_from (co_store c)) plans built" and sorted: "co_profiles c = sort_key fst built"
  have h: "candidate_holds (no_collision sha256 packs) l packs profiles (store, plans, co_cost c)"
    by (rule plan_candidate_holds [OF cand v])
  have "map fst built = map pl_id plans"
    using built by (auto simp: list_all2_conv_all_nth built_from_def intro: nth_equalityI)
  then have d: "distinct (map fst built)" using h by (auto simp: candidate_holds_def plans_hold_def)
  then have "distinct (map fst (co_profiles c))"
    unfolding sorted by (simp add: distinct_map)
  then have "profile_of c i = Some p \<longleftrightarrow> (i, p) \<in> set built" for i p
    unfolding profile_of_def sorted_find_map_of [OF strictly_ascending_sort_key [OF d, folded sorted]]
    using sorted by (simp add: map_of_eq_Some_iff)
  then show thesis using that h prog built by blast
qed

text \<open>C8. The compiled index is equivalent to the exhaustive scan: for every profile of a
  compiled snapshot and every name, \<open>lookup_hit\<close> returns the hit of the highest tier,
  and of the least token within it, among all mounted rules that \<open>explain\<close> reports.\<close>

theorem compiled_lookup_is_exhaustive:
  assumes "compile_operator_rules sha256 re_compile snapshot packs profiles l adm = (Inr c, adm')"
    and "profile_of c i = Some p"
  shows "lookup_hit re_is_match p d = strongest keep_best (map fst (explain re_is_match p d))"
proof -
  obtain store plans built where "list_all2 (built_from (co_store c)) plans built" "(i, p) \<in> set built"
    using compiled_profiles [OF assms(1)] assms(2) by metis
  then have "profile_wf p" "profile_rules_ok p"
    by (force simp: list_all2_conv_all_nth in_set_conv_nth built_from_def)+
  then show ?thesis by (rule lookup_hit_explain)
qed

section \<open>The rows decide\<close>

text \<open>When a row matches a name: a domain row covers its own name and every name below
  it, a wildcard row the names below and, unless \<open>noapex\<close>, its own, a regex row what
  its program accepts.\<close>

definition row_matches ::
  "(string \<Rightarrow> bool \<Rightarrow> nat \<Rightarrow> (regex_error, 'p) result) \<Rightarrow> ('p \<Rightarrow> string \<Rightarrow> bool) \<Rightarrow> rule_compile_limits
     \<Rightarrow> operator_rule_ast \<Rightarrow> string \<Rightarrow> bool"
where
  "row_matches re_compile re_is_match l a d =
     (case ast_pattern a of
        OpExact s \<Rightarrow> d = s \<or> is_subdomain_of d s
      | OpWildcard s \<Rightarrow> (d = s \<and> \<not> ast_noapex a) \<or> is_subdomain_of d s
      | OpRegex s ci \<Rightarrow>
          (case re_compile s ci (max_regex_program_bytes l) of
             Inr program \<Rightarrow> re_is_match program d
           | Inl _ \<Rightarrow> False))"

definition matching_tiers ::
  "(string \<Rightarrow> bool \<Rightarrow> nat \<Rightarrow> (regex_error, 'p) result) \<Rightarrow> ('p \<Rightarrow> string \<Rightarrow> bool) \<Rightarrow> rule_compile_limits
     \<Rightarrow> pack_source list \<Rightarrow> string list \<Rightarrow> string \<Rightarrow> rule_tier set"
where
  "matching_tiers re_compile re_is_match l packs mounts d =
     ast_tier ` {a. \<exists>pack \<in> set packs. src_list_id pack \<in> set mounts
       \<and> a \<in> set (row_asts (src_content pack)) \<and> row_matches re_compile re_is_match l a d}"

definition verdict_by_tier :: "rule_tier set \<Rightarrow> bool \<Rightarrow> external_matches \<Rightarrow> verdict" where
  "verdict_by_tier T block_all external =
     (if T = {} then if block_all \<or> external = EDeny then VBlock else VForward
      else if tier_is_allow (Max T) then VForward else VBlock)"

lemma strongest_tier:
  "map_option rh_tier (strongest keep_best hs) =
     (if hs = [] then None else Some (Max (rh_tier ` set hs)))"
proof (cases "strongest keep_best hs")
  case None
  then show ?thesis using hits.strongest_None_iff [of hs] by simp
next
  case (Some h)
  have "rh_tier x \<le> rh_tier h" if "x \<in> set hs" for x
    using hits.strongest_member(2) [OF Some that] by (auto simp: hit_rank_def less_eq_rule_tier_def less_eq_prod_def)
  then have "Max (rh_tier ` set hs) = rh_tier h"
    using hits.strongest_member(1) [OF Some] by (intro Max_eqI) auto
  then show ?thesis using Some hits.strongest_member(1) [OF Some] by auto
qed

text \<open>The strongest of a set of tiers, if there is one.\<close>

definition top_tier :: "rule_tier set \<Rightarrow> rule_tier option" where
  "top_tier T = (if T = {} then None else Some (Max T))"

lemma profile_evaluate_tiers:
  assumes "map_option rh_tier (lookup_hit re_is_match p d) = top_tier T"
  shows "profile_evaluate re_is_match p d external = verdict_by_tier T (cp_block_all p) external"
  using assms by (cases "lookup_hit re_is_match p d")
    (auto simp: profile_evaluate_def verdict_by_tier_def top_tier_def split: if_splits)

lemma match_projection_row:
  assumes "program_added re_compile l r r'" "ast_ok (sr_ast r)"
  shows "match_projection_of re_is_match r' d \<noteq> None \<longleftrightarrow> row_matches re_compile re_is_match l (sr_ast r) d"
  using assms adv_descendant_iff
  by (cases "ast_pattern (sr_ast r)")
    (auto simp: match_projection_of_def row_matches_def program_added_def ast_ok_def split: if_splits)

lemma mounted_asts:
  assumes h: "candidate_holds True l packs profiles (store, plans, cost)" and plan: "plan_of store m plan"
  shows "(\<lambda>u. sr_ast (rs_rules store ! unat u)) ` set (pl_tokens plan) =
    {a. \<exists>pack \<in> set packs. src_list_id pack \<in> set (pm_custom_lists m) \<and> a \<in> set (row_asts (src_content pack))}"
proof -
  obtain sources cost0 where s: "set sources = set (pack_entries packs)" "distinct (map fst sources)"
      "store_holds True l (rs_rules store, rs_packs store, cost0) sources"
    using h by (auto simp: candidate_holds_def)
  have holds: "(\<lambda>u. sr_ast (rs_rules store ! unat u)) ` set (ps_tokens ps) = set (row_asts content)"
    if "map_of (rs_packs store) i = Some ps" "map_of sources i = Some content" for i ps content
    using s(3) that by (simp add: store_holds_def pack_holds_def)
  have dom: "map_of (rs_packs store) i \<noteq> None \<longleftrightarrow> map_of sources i \<noteq> None" for i
    using s(3) by (simp add: store_holds_def)
  have src: "map_of sources i = Some content \<longleftrightarrow>
      (\<exists>pack \<in> set packs. src_list_id pack = i \<and> src_content pack = content)" for i content
    using map_of_eq_Some_iff [OF s(2)] s(1) by (auto simp: pack_entries_def)
  have toks: "set (pl_tokens plan) = mounted_tokens store (pm_custom_lists m)"
    using plan by (simp add: plan_of_def)
  show ?thesis
  proof (intro equalityI subsetI)
    fix a assume "a \<in> (\<lambda>u. sr_ast (rs_rules store ! unat u)) ` set (pl_tokens plan)"
    then obtain i ps u where i: "i \<in> set (pm_custom_lists m)" "map_of (rs_packs store) i = Some ps"
        "u \<in> set (ps_tokens ps)" "a = sr_ast (rs_rules store ! unat u)"
      by (auto simp: toks mounted_tokens_def)
    obtain content where c: "map_of sources i = Some content" using dom [of i] i(2) by auto
    then obtain pack where "pack \<in> set packs" "src_list_id pack = i" "src_content pack = content"
      using src by blast
    moreover have "a \<in> set (row_asts content)" unfolding holds [OF i(2) c, symmetric] i(4) using i(3) by blast
    ultimately show "a \<in> {a. \<exists>pack \<in> set packs. src_list_id pack \<in> set (pm_custom_lists m) \<and> a \<in> set (row_asts (src_content pack))}"
      using i(1) by blast
  next
    fix a assume "a \<in> {a. \<exists>pack \<in> set packs. src_list_id pack \<in> set (pm_custom_lists m) \<and> a \<in> set (row_asts (src_content pack))}"
    then obtain pack where pack: "pack \<in> set packs" "src_list_id pack \<in> set (pm_custom_lists m)"
        "a \<in> set (row_asts (src_content pack))" by blast
    have c: "map_of sources (src_list_id pack) = Some (src_content pack)" using src pack(1) by blast
    obtain ps where ps: "map_of (rs_packs store) (src_list_id pack) = Some ps" using dom c by fastforce
    have "set (ps_tokens ps) \<subseteq> set (pl_tokens plan)"
      unfolding toks mounted_tokens_def using pack(2) ps by blast
    then show "a \<in> (\<lambda>u. sr_ast (rs_rules store ! unat u)) ` set (pl_tokens plan)"
      using holds [OF ps c] pack(3) by blast
  qed
qed

lemma explain_tiers:
  assumes h: "candidate_holds True l packs profiles (store, plans, cost)"
    and plan: "plan \<in> set plans" "plan_of store m plan"
    and prog: "compile_programs re_compile store l = Inr store'"
    and p: "cp_store p = store'" "cp_mounted p = pl_tokens plan"
  shows "rh_tier ` set (map fst (explain re_is_match p d)) =
    matching_tiers re_compile re_is_match l packs (pm_custom_lists m) d"
proof -
  have ok: "\<forall>r \<in> set (rs_rules store). ast_ok (sr_ast r)"
    using h by (auto simp: candidate_holds_def store_holds_def)
  have len: "\<forall>u \<in> set (pl_tokens plan). unat u < length (rs_rules store)"
    using plan_tokens_in_range [OF h refl] plan(1) by blast
  let ?rule = "\<lambda>u. rs_rules store' ! unat u" and ?old = "\<lambda>u. sr_ast (rs_rules store ! unat u)"
  have match: "match_projection_of re_is_match (?rule u) d \<noteq> None \<longleftrightarrow> row_matches re_compile re_is_match l (?old u) d"
    "ast_tier (sr_ast (?rule u)) = ast_tier (?old u)" if "u \<in> set (pl_tokens plan)" for u
    using match_projection_row [OF compile_programs_nth(2) [OF prog]] compile_programs_nth(2) [OF prog] ok len that
    by (simp_all add: program_added_def)
  let ?hit = "\<lambda>u. u \<in> set (pl_tokens plan) \<and> row_matches re_compile re_is_match l (?old u) d"
  have "rh_tier ` set (map fst (explain re_is_match p d)) = (\<lambda>u. ast_tier (sr_ast (?rule u))) ` {u. ?hit u}"
    unfolding set_explain p image_image using match(1) by (auto simp: tok_hit_def tok_tier_def)
  also have "\<dots> = ast_tier ` {a \<in> ?old ` set (pl_tokens plan). row_matches re_compile re_is_match l a d}"
    using match(2) by (auto simp: image_iff)
  also have "{a \<in> ?old ` set (pl_tokens plan). row_matches re_compile re_is_match l a d} =
      {a. \<exists>pack \<in> set packs. src_list_id pack \<in> set (pm_custom_lists m)
        \<and> a \<in> set (row_asts (src_content pack)) \<and> row_matches re_compile re_is_match l a d}"
    unfolding mounted_asts [OF h plan(2)] by blast
  finally show ?thesis unfolding matching_tiers_def .
qed

lemma list_all2_image: "list_all2 P xs ys \<Longrightarrow> x \<in> set xs \<Longrightarrow> \<exists>y \<in> set ys. P x y"
  by (induction rule: list_all2_induct) auto

lemma compiled_lookup_tier:
  assumes comp: "compile_operator_rules sha256 re_compile snapshot packs profiles l adm = (Inr c, adm')"
    and inj: "no_collision sha256 packs" and m: "m \<in> set profiles"
  shows "\<exists>p. profile_of c (pm_profile_id m) = Some p
    \<and> cp_block_all p = pm_block_all m
    \<and> (\<forall>d. map_option rh_tier (lookup_hit re_is_match p d) =
         top_tier (matching_tiers re_compile re_is_match l packs (pm_custom_lists m) d))"
proof -
  obtain store plans built where h: "candidate_holds True l packs profiles (store, plans, co_cost c)"
      and prog: "compile_programs re_compile store l = Inr (co_store c)"
      and built: "list_all2 (built_from (co_store c)) plans built"
      and prof: "\<And>i p. profile_of c i = Some p \<longleftrightarrow> (i, p) \<in> set built"
    using compiled_profiles [OF comp] inj by metis
  have "list_all2 (plan_of store) profiles plans"
    using h by (auto simp: candidate_holds_def plans_hold_def)
  then obtain plan where plan: "plan \<in> set plans" "plan_of store m plan"
    using list_all2_image m by metis
  obtain p where p: "(pm_profile_id m, p) \<in> set built" "cp_store p = co_store c"
      "cp_mounted p = pl_tokens plan" "cp_block_all p = pm_block_all m" "profile_wf p" "profile_rules_ok p"
    using list_all2_image [OF built plan(1)] plan(2) by (force simp: built_from_def plan_of_def)
  have "map_option rh_tier (lookup_hit re_is_match p d) =
      top_tier (matching_tiers re_compile re_is_match l packs (pm_custom_lists m) d)" for d
    unfolding explain_tiers [OF h plan prog p(2,3), symmetric] lookup_hit_explain [OF p(5,6)] strongest_tier top_tier_def
    by simp
  then show ?thesis using prof p(1,4) by blast
qed

text \<open>End to end: when the digest does not collide on the rows at hand, a compiled
  profile decides every name by the rows of its mounted files alone.  The strongest tier
  among the matching rows decides, whatever the files, the order of the rows and the
  mounts; with no matching row \<open>block_all\<close> and the external lists decide.\<close>

lemma compiled_rows_decide:
  assumes "compile_operator_rules sha256 re_compile snapshot packs profiles l adm = (Inr c, adm')"
    and "no_collision sha256 packs" and "m \<in> set profiles"
  shows "\<exists>p. profile_of c (pm_profile_id m) = Some p
    \<and> (\<forall>d external. profile_evaluate re_is_match p d external =
         verdict_by_tier (matching_tiers re_compile re_is_match l packs (pm_custom_lists m) d)
           (pm_block_all m) external)"
proof -
  obtain p where p: "profile_of c (pm_profile_id m) = Some p" "cp_block_all p = pm_block_all m"
      "\<And>d. map_option rh_tier (lookup_hit re_is_match p d) =
         top_tier (matching_tiers re_compile re_is_match l packs (pm_custom_lists m) d)"
    using compiled_lookup_tier [OF assms, of re_is_match] by blast
  then show ?thesis using profile_evaluate_tiers [OF p(3)] by auto
qed

section \<open>A compilation\<close>

definition sample_packs :: "pack_source list" where
  "sample_packs =
     [\<lparr>src_list_id = ''ads'', src_content = ''a.b'' @ [newline] @ ''@@c.a.b'' @ [newline]\<rparr>]"

definition sample_profiles :: "profile_mounts list" where
  "sample_profiles = [\<lparr>pm_profile_id = ''kids'', pm_custom_lists = [''ads''], pm_block_all = False\<rparr>]"

definition sample_admission :: admission where
  "sample_admission = \<lparr>adm_max_bytes = 2 ^ 26, adm_max_builds = 1, adm_bytes = 0, adm_builds = 0\<rparr>"

abbreviation sample_compile ::
  "(compile_failure, unit compiled_operator_rules) result \<times> admission" where
  "sample_compile \<equiv> compile_operator_rules (\<lambda>s. s) (\<lambda>_ _ _. Inr ()) 0 sample_packs sample_profiles
     default_limits sample_admission"

text \<open>What the sample compiles to, written out so that it is compiled only once.\<close>

definition sample_rule :: "string \<Rightarrow> rule_tier \<Rightarrow> source_row \<Rightarrow> unit stored_rule" where
  "sample_rule d t row =
     (let zeros = (\<lambda>n. replicate n (CHR 0x00));
          one = zeros 7 @ [CHR 0x01, CHR 0x00];
          key = ''warden/uor/rule-ast/v1'' @ zeros 8 @ [CHR 0x01, if t = OrdinaryAllow then CHR 0x01 else CHR 0x00] @ one
                  @ zeros 7 @ [char_of (length d)] @ d @ one @ one @ one
      in \<lparr>sr_ast = \<lparr>ast_pattern = OpExact d, ast_tier = t, ast_noapex = False\<rparr>,
          sr_origin = \<lparr>ro_list_id = ''ads'', ro_rule_key = key, ro_pack_revision = src_content (hd sample_packs),
                       ro_source_rows = [row]\<rparr>,
          sr_program = None\<rparr>)"

definition sample_store :: "unit compiled_rule_store" where
  "sample_store =
     \<lparr>rs_rules =
        [sample_rule ''a.b'' OrdinaryDeny
           \<lparr>row_line = 1, row_byte_offset = 0, row_byte_len = 4, row_digest = ''a.b'' @ [newline]\<rparr>,
         sample_rule ''c.a.b'' OrdinaryAllow
           \<lparr>row_line = 2, row_byte_offset = 4, row_byte_len = 8, row_digest = ''@@c.a.b'' @ [newline]\<rparr>],
      rs_packs =
        [(''ads'', \<lparr>ps_revision = src_content (hd sample_packs), ps_source_bytes = 12, ps_source_rule_rows = 2,
                  ps_tokens = [0, 1], ps_counts = \<lparr>pc_indexed = 2, pc_advanced = 0, pc_regex = 0\<rparr>,
                  ps_projection_bytes = 336\<rparr>)]\<rparr>"

definition sample_snapshot :: "unit compiled_operator_rules" where
  "sample_snapshot =
     (let counts = \<lparr>pc_indexed = 2, pc_advanced = 0, pc_regex = 0\<rparr>
      in \<lparr>co_store = sample_store,
          co_profiles =
            [(''kids'', \<lparr>cp_addr = (0, 0), cp_store = sample_store,
                       cp_index = [(''a.b'', [0, EMPTY_TOKEN, EMPTY_TOKEN, EMPTY_TOKEN]), (''c.a.b'', [0, 1, EMPTY_TOKEN, EMPTY_TOKEN])],
                       cp_advanced = [], cp_mounted = [0, 1], cp_counts = counts, cp_compiled_bytes = 544,
                       cp_owned_bytes = 544, cp_block_all = False, cp_min_indexed_len = 3\<rparr>)],
          co_cost = \<lparr>cc_store_bytes = 1240, cc_profile_bytes_total = 544, cc_profile_owned_bytes_total = 544,
                     cc_snapshot_bytes = 1784, cc_store_counts = counts, cc_profile_counts_total = counts,
                     cc_regex_programs = 0\<rparr>,
          co_lease = 1784\<rparr>)"

lemma sample_compiles: "sample_compile = (Inr sample_snapshot, sample_admission\<lparr>adm_bytes := 1784\<rparr>)"
  by code_simp

lemma sample_compile_Inr: obtains c adm' where "sample_compile = (Inr c, adm')"
  using sample_compiles by blast

lemma sample_compileD: "sample_compile = (Inr c, adm') \<Longrightarrow> c = sample_snapshot"
  using sample_compiles by simp

lemma sample_no_collision: "no_collision (\<lambda>s. s) sample_packs"
  by (simp add: no_collision_def)

theorem compile_accounts_witness:
  "\<exists>c adm'. sample_compile = (Inr c, adm') \<and> adm_builds sample_admission \<le> USIZE_MAX
     \<and> adm_bytes adm' = co_lease c \<and> adm_builds adm' = 0 \<and> co_lease c \<le> 32 * 2 ^ 20"
proof (rule sample_compile_Inr)
  fix c adm' assume c: "sample_compile = (Inr c, adm')"
  have b: "adm_builds sample_admission \<le> USIZE_MAX" by (simp add: sample_admission_def)
  have adm: "adm_builds sample_admission = 0" "adm_bytes sample_admission = 0"
    "max_compiled_bytes_total default_limits = 32 * 2 ^ 20"
    by (simp_all add: sample_admission_def default_limits_def)
  show ?thesis
    using compile_accounts [OF b, where ?sha256.0 = "\<lambda>s. s" and re_compile = "\<lambda>_ _ _. Inr ()" and snapshot = 0
        and packs = sample_packs and profiles = sample_profiles and l = default_limits] b
    unfolding c by (simp add: adm)
qed

theorem compiled_lookup_is_exhaustive_witness:
  "\<exists>c adm' p. sample_compile = (Inr c, adm') \<and> profile_of c ''kids'' = Some p
     \<and> lookup_hit (\<lambda>_ _. False) p ''x.c.a.b'' = strongest keep_best (map fst (explain (\<lambda>_ _. False) p ''x.c.a.b''))"
proof (rule sample_compile_Inr)
  fix c adm' assume c: "sample_compile = (Inr c, adm')"
  have "profile_of sample_snapshot ''kids'' \<noteq> None" by code_simp
  then obtain p where "profile_of c ''kids'' = Some p" by (auto simp: sample_compileD [OF c])
  then show ?thesis using c compiled_lookup_is_exhaustive [OF c] by blast
qed

end
