(* ===== verification/Rewrite_Rules.thy ===== *)
theory Rewrite_Rules
  imports Domain_Names Std_Net
begin

text \<open>
  Per-profile name rewriting, \<open>dns/rewrite.rs\<close>, with \<open>canonicalize_domain\<close> of
  \<open>config/validator.rs\<close> and the safe-search hook of \<open>profiles/safesearch.rs\<close>.
\<close>

record rewrite_rule =
  rw_from :: string
  rw_to :: string
  rw_match_subdomains :: bool

definition trim_end_dots :: "string \<Rightarrow> string" where
  "trim_end_dots s = rev (dropWhile (\<lambda>c. c = CHR ''.'') (rev s))"

definition canonicalize_domain :: "string \<Rightarrow> string" where
  "canonicalize_domain s = to_ascii_lowercase (trim_end_dots (trim s))"

record profile_rewrite_rules =
  forward :: "string \<rightharpoonup> string"
  suffix_rules :: "(string \<times> string) list"
  has_subdomain_rules :: bool

definition label_count :: "string \<Rightarrow> nat" where
  "label_count d = (if d = [] then 0 else length (filter (\<lambda>b. b = CHR ''.'') d) + 1)"

definition or_insert :: "(string \<rightharpoonup> string) \<Rightarrow> string \<Rightarrow> string \<Rightarrow> (string \<rightharpoonup> string)" where
  "or_insert m k v = (if m k = None then m(k \<mapsto> v) else m)"

definition canonical_rules :: "rewrite_rule list \<Rightarrow> (string \<times> string \<times> bool) list" where
  "canonical_rules rules =
     List.map_filter
       (\<lambda>r. let from = canonicalize_domain (rw_from r); to = canonicalize_domain (rw_to r)
            in if from = [] \<or> to = [] then None else Some (from, to, rw_match_subdomains r))
       rules"

definition rewrite_build :: "rewrite_rule list \<Rightarrow> profile_rewrite_rules" where
  "rewrite_build rules =
     (let canonical = canonical_rules rules;
          forward1 = foldl (\<lambda>m (from, to, sub). if \<not> sub then or_insert m from to else m) Map.empty canonical;
          (forward2, sfx) =
            foldl (\<lambda>(m, sfx) (from, to, sub).
                if sub then (or_insert m from to, sfx @ [(from, to)]) else (m, sfx)) (forward1, []) canonical;
          sorted = sort_key (\<lambda>(from, _). - int (label_count from)) sfx
      in \<lparr>forward = forward2, suffix_rules = sorted, has_subdomain_rules = (sorted \<noteq> [])\<rparr>)"

definition suffix_lookup :: "(string \<times> string) list \<Rightarrow> string \<Rightarrow> string option" where
  "suffix_lookup rules sfx = map_option snd (find (\<lambda>(key, _). key = sfx) rules)"

lemma split_once_shorter: "split_once c s = Some (a, b) \<Longrightarrow> length b < length s"
  by (simp add: split_once_Some_iff)

text \<open>The \<open>while let Some((_, rest)) = current.split_once('.')\<close> loop.\<close>

function apply_walk :: "(string \<times> string) list \<Rightarrow> string \<Rightarrow> string \<Rightarrow> string option" where
  "apply_walk rules domain current =
     (case split_once (CHR ''.'') current of
        None \<Rightarrow> None
      | Some (_, rest) \<Rightarrow>
          if rest = [] then None
          else case suffix_lookup rules rest of
              Some target \<Rightarrow> Some (take (length domain - length rest) domain @ target)
            | None \<Rightarrow>
                if CHR ''.'' \<notin> set rest then None
                else apply_walk rules domain rest)"
  by pat_completeness auto
termination
  by (relation "measure (\<lambda>(_, _, current). length current)") (auto simp: split_once_shorter)

declare apply_walk.simps [simp del]

definition rewrite_apply :: "profile_rewrite_rules \<Rightarrow> string \<Rightarrow> string option" where
  "rewrite_apply t domain =
     (case forward t domain of
        Some target \<Rightarrow> Some target
      | None \<Rightarrow> if \<not> has_subdomain_rules t then None else apply_walk (suffix_rules t) domain domain)"

definition rewrite_is_empty :: "profile_rewrite_rules \<Rightarrow> bool" where
  "rewrite_is_empty t \<longleftrightarrow> dom (forward t) = {}"

text \<open>\<open>safesearch::populate\<close> adds nothing: no engine maps are built in.\<close>

definition safesearch_populate :: "rewrite_rule list \<Rightarrow> rewrite_rule list" where
  "safesearch_populate rules = rules"

section \<open>The table\<close>

lemma forward_exact:
  "foldl (\<lambda>m (from, to, sub). if \<not> sub then or_insert m from to else m) m0 C k =
     (case m0 k of Some v \<Rightarrow> Some v
      | None \<Rightarrow> map_option (\<lambda>(_, t, _). t) (find (\<lambda>(f, _, sub). \<not> sub \<and> f = k) C))"
proof (induction C arbitrary: m0)
  case (Cons c C)
  obtain f t sub where c: "c = (f, t, sub)" by (cases c)
  show ?case by (cases sub) (auto simp: c Cons or_insert_def split: option.splits)
qed (simp split: option.splits)

lemma forward_subdomain:
  "foldl (\<lambda>(m, sfx) (from, to, sub). if sub then (or_insert m from to, sfx @ [(from, to)]) else (m, sfx)) (m0, s0) C =
     (\<lambda>k. case m0 k of Some v \<Rightarrow> Some v
          | None \<Rightarrow> map_option (\<lambda>(_, t, _). t) (find (\<lambda>(f, _, sub). sub \<and> f = k) C),
      s0 @ map (\<lambda>(f, t, _). (f, t)) (filter (\<lambda>(_, _, sub). sub) C))"
proof (induction C arbitrary: m0 s0)
  case (Cons c C)
  obtain f t sub where c: "c = (f, t, sub)" by (cases c)
  show ?case
    by (cases sub) (auto simp: c Cons or_insert_def fun_eq_iff split: option.splits)
qed (simp add: fun_eq_iff split: option.splits)

lemma suffix_lookup_map_of: "suffix_lookup rules s = map_of rules s"
  by (induction rules) (auto simp: suffix_lookup_def)

lemma apply_walk_eq:
  "apply_walk rules domain current =
     map_option (\<lambda>s. take (length domain - length s) domain @ the (map_of rules s))
       (find (\<lambda>s. map_of rules s \<noteq> None) (dot_suffixes current))"
proof (induction rules domain current rule: apply_walk.induct)
  case (1 rules domain current)
  show ?case
  proof (cases "split_once (CHR ''.'') current")
    case None
    then have "CHR ''.'' \<notin> set current" by (simp add: split_once_def find_char_None_iff)
    then have "dot_suffixes current = []" by (induction current) auto
    then show ?thesis using None by (simp add: apply_walk.simps)
  next
    case (Some p)
    obtain a rest where p: "p = (a, rest)" by (cases p)
    have c: "current = a @ CHR ''.'' # rest" "CHR ''.'' \<notin> set a"
      using Some p by (simp_all add: split_once_Some_iff)
    have d: "dot_suffixes current = (if rest = [] then [] else rest # dot_suffixes rest)"
      unfolding c(1) using c(2) by (induction a) auto
    have "CHR ''.'' \<notin> set rest \<Longrightarrow> dot_suffixes rest = []" by (induction rest) auto
    then show ?thesis
      using 1 Some p d by (auto simp: apply_walk.simps [of rules domain current] suffix_lookup_map_of split: option.splits)
  qed
qed

lemma dot_suffixes_shorter: "s \<in> set (dot_suffixes d) \<Longrightarrow> length s < length d"
  by (auto simp: set_dot_suffixes)

lemma dot_suffixes_descending: "sorted_wrt (\<lambda>a b. length b < length a) (dot_suffixes d)"
  by (induction d) (auto simp: dot_suffixes_shorter)

lemma find_first_longest:
  assumes "find P xs = Some s" "sorted_wrt (\<lambda>a b. length b < length a) xs" "s' \<in> set xs" "P s'"
  shows "length s' \<le> length s"
  using assms by (induction xs) (auto split: if_splits)

lemma rewrite_build_fields:
  fixes rules
  defines "C \<equiv> canonical_rules rules"
  shows "forward (rewrite_build rules) k =
      (case find (\<lambda>(f, _, sub). \<not> sub \<and> f = k) C of
         Some (_, t, _) \<Rightarrow> Some t
       | None \<Rightarrow> map_option (\<lambda>(_, t, _). t) (find (\<lambda>(f, _, sub). sub \<and> f = k) C))"
    and "set (suffix_rules (rewrite_build rules)) = {(f, t). (f, t, True) \<in> set C}"
    and "has_subdomain_rules (rewrite_build rules) \<longleftrightarrow> suffix_rules (rewrite_build rules) \<noteq> []"
proof -
  let ?sub = "map (\<lambda>(f, t, _). (f, t)) (filter (\<lambda>(_, _, sub). sub) C)"
  show "forward (rewrite_build rules) k =
      (case find (\<lambda>(f, _, sub). \<not> sub \<and> f = k) C of
         Some (_, t, _) \<Rightarrow> Some t
       | None \<Rightarrow> map_option (\<lambda>(_, t, _). t) (find (\<lambda>(f, _, sub). sub \<and> f = k) C))"
    by (simp add: rewrite_build_def C_def [symmetric] forward_exact forward_subdomain Let_def split: option.splits)
  have "set ?sub = {(f, t). (f, t, True) \<in> set C}" by (induction C) auto
  then show "set (suffix_rules (rewrite_build rules)) = {(f, t). (f, t, True) \<in> set C}"
    by (simp add: rewrite_build_def C_def [symmetric] forward_subdomain Let_def del: set_map set_filter)
  show "has_subdomain_rules (rewrite_build rules) \<longleftrightarrow> suffix_rules (rewrite_build rules) \<noteq> []"
    by (simp add: rewrite_build_def Let_def split: prod.splits)
qed

lemma find_SomeD: "find P xs = Some x \<Longrightarrow> x \<in> set xs \<and> P x"
  by (induction xs) (auto split: if_splits)

lemma forward_rule:
  assumes "forward (rewrite_build rules) d = Some t"
  shows "\<exists>sub. (d, t, sub) \<in> set (canonical_rules rules)
    \<and> (sub \<longrightarrow> (\<forall>t'. (d, t', False) \<notin> set (canonical_rules rules)))"
proof (cases "find (\<lambda>(f, _, sub). \<not> sub \<and> f = d) (canonical_rules rules)")
  case None
  then obtain r where r: "find (\<lambda>(f, _, sub). sub \<and> f = d) (canonical_rules rules) = Some r" "fst (snd r) = t"
    using assms by (auto simp: rewrite_build_fields(1))
  have "\<forall>t'. (d, t', False) \<notin> set (canonical_rules rules)" using None by (auto simp: find_None_iff)
  then show ?thesis using find_SomeD [OF r(1)] r(2) by (cases r) auto
next
  case (Some r)
  then show ?thesis using assms find_SomeD [OF Some] by (cases r) (auto simp: rewrite_build_fields(1))
qed

text \<open>C30. Rewriting a name picks the rule with the longest source that applies: a rule for the
  name itself, or a subdomain rule whose source the name lies below.  At the name itself an
  exact rule wins over a subdomain rule, wherever they stand.  The labels before the source
  are kept and the target is appended once; nothing applies exactly when there is no such
  rule.\<close>

theorem rewrite_apply_longest:
  fixes rules d
  defines "C \<equiv> canonical_rules rules"
  shows "case rewrite_apply (rewrite_build rules) d of
      None \<Rightarrow> \<forall>(f, t, sub) \<in> set C. f \<noteq> d \<and> (sub \<longrightarrow> \<not> covers f d)
    | Some out \<Rightarrow>
        (\<exists>f t sub. (f, t, sub) \<in> set C \<and> covers f d \<and> (f \<noteq> d \<longrightarrow> sub)
           \<and> out = take (length d - length f) d @ t
           \<and> (\<forall>(f', t', sub') \<in> set C. covers f' d \<and> (f' \<noteq> d \<longrightarrow> sub') \<longrightarrow> length f' \<le> length f)
           \<and> (f = d \<and> sub \<longrightarrow> (\<forall>t'. (d, t', False) \<notin> set C)))"
proof -
  let ?T = "rewrite_build rules"
  have len: "covers f d \<Longrightarrow> length f \<le> length d" for f
    using covers_suffix suffix_length_le by blast
  have keys: "map_of (suffix_rules ?T) s \<noteq> None \<longleftrightarrow> (\<exists>t. (s, t, True) \<in> set C)" for s
    using rewrite_build_fields(2) [of rules] by (auto simp: map_of_eq_None_iff C_def image_iff)
  show ?thesis
  proof (cases "forward ?T d")
    case (Some t)
    then obtain sub where sub: "(d, t, sub) \<in> set C" "sub \<longrightarrow> (\<forall>t'. (d, t', False) \<notin> set C)"
      using forward_rule [of rules d t] unfolding C_def by blast
    have "length f' \<le> length d" if "(f', t', sub') \<in> set C" "covers f' d" for f' t' sub'
      using len that by blast
    then show ?thesis
      using Some sub by (simp add: rewrite_apply_def, intro exI [of _ d] exI [of _ t] exI [of _ sub]) auto
  next
    case None
    then have none: "f \<noteq> d" if "(f, t, sub) \<in> set C" for f t sub
      using that by (cases sub) (auto simp: rewrite_build_fields(1) C_def find_None_iff split: option.splits)
    let ?hit = "find (\<lambda>s. map_of (suffix_rules ?T) s \<noteq> None) (dot_suffixes d)"
    have app: "rewrite_apply ?T d = map_option (\<lambda>s. take (length d - length s) d @ the (map_of (suffix_rules ?T) s)) ?hit"
    proof (cases "suffix_rules ?T = []")
      case True
      have "find (\<lambda>s. False) xs = None" for xs :: "string list" by (induction xs) auto
      then show ?thesis using None True by (simp add: rewrite_apply_def rewrite_build_fields(3))
    qed (simp add: None rewrite_apply_def rewrite_build_fields(3) apply_walk_eq)
    have below: "f \<in> set (dot_suffixes d)" if "covers f d" "f \<noteq> d" for f
      using that by (auto simp: covers_def is_subdomain_of_iff set_dot_suffixes)
    show ?thesis
    proof (cases ?hit)
      case None
      then have miss: "\<not> covers f d" if "(f, t, True) \<in> set C" for f t
        using that none [OF that] keys [of f] below [of f] unfolding find_None_iff by blast
      have "\<forall>(f, t, sub) \<in> set C. f \<noteq> d \<and> (sub \<longrightarrow> \<not> covers f d)"
        using none miss by fastforce
      then show ?thesis using app None by simp
    next
      case (Some s)
      then have s: "s \<in> set (dot_suffixes d)" "map_of (suffix_rules ?T) s \<noteq> None"
        by (auto simp: find_Some_iff)
      then obtain t where t: "map_of (suffix_rules ?T) s = Some t" "(s, t, True) \<in> set C"
        using rewrite_build_fields(2) [of rules] map_of_SomeD unfolding C_def by fastforce
      have "length f' \<le> length s" if "(f', t', sub') \<in> set C" "covers f' d" "f' \<noteq> d \<longrightarrow> sub'" for f' t' sub'
      proof -
        have "f' \<noteq> d" using none [OF that(1)] .
        then have "f' \<in> set (dot_suffixes d)" "map_of (suffix_rules ?T) f' \<noteq> None"
          using below [OF that(2)] keys [of f'] that(1,3) by auto
        then show ?thesis using find_first_longest [OF Some dot_suffixes_descending] by blast
      qed
      moreover have "covers s d" "s \<noteq> d"
        using s(1) by (auto simp: covers_def is_subdomain_of_iff set_dot_suffixes)
      ultimately show ?thesis using Some app t by (simp, intro exI [of _ s] exI [of _ t] exI [of _ True]) auto
    qed
  qed
qed

definition sample_rewrites :: "rewrite_rule list" where
  "sample_rewrites =
     [\<lparr>rw_from = ''Old.com.'', rw_to = ''new.com'', rw_match_subdomains = True\<rparr>,
      \<lparr>rw_from = ''old.com'', rw_to = ''exact.net'', rw_match_subdomains = False\<rparr>]"

theorem rewrite_apply_longest_witness:
  "\<exists>f t. (f, t, True) \<in> set (canonical_rules sample_rewrites)
     \<and> rewrite_apply (rewrite_build sample_rewrites) ''api.x.old.com'' = Some (take 6 ''api.x.old.com'' @ t)"
proof -
  have c: "canonical_rules sample_rewrites = [(''old.com'', ''new.com'', True), (''old.com'', ''exact.net'', False)]"
    by code_simp
  have cov: "covers ''old.com'' ''api.x.old.com''" by code_simp
  show ?thesis
    using rewrite_apply_longest [of sample_rewrites "''api.x.old.com''"] cov
    by (auto simp: c split: option.splits)
qed

end
