(* ===== verification/Filter_Engine.thy ===== *)
theory Filter_Engine
  imports Admin_Rules Domain_Shards Operator_Snapshot Rewrite_Rules Client_Subnet
begin

text \<open>
  Evaluation of a name against a resolved profile, \<open>FilterEngine::evaluate\<close> and its
  attributed and operator-policy forms in \<open>filter/engine.rs\<close>, with the profile record of
  \<open>profiles/profile.rs\<close> and the block sources of \<open>filter/cname.rs\<close>.  The record
  has every field of the source but \<open>local_records\<close>, which evaluation does not consult.

  Parameters: \<open>hash\<close> (the shard hash), \<open>re_is_match\<close> for the regexes of admin rules and
  \<open>op_is_match\<close> for the programs of compiled operator rules.
\<close>

section \<open>Block sources\<close>

datatype block_source =
    SrcList u8
  | SrcCustomList string
  | SrcRule string
  | SrcAdminBlock
  | SrcCnameLoop
  | SrcCnameDepthExceeded
  | SrcCnameMalformed

fun source_label :: "block_source \<Rightarrow> string" where
  "source_label (SrcList _) = ''list''"
| "source_label (SrcCustomList _) = ''custom_list''"
| "source_label (SrcRule _) = ''rule''"
| "source_label SrcAdminBlock = ''admin_block''"
| "source_label SrcCnameLoop = ''cname_loop''"
| "source_label SrcCnameDepthExceeded = ''cname_depth_exceeded''"
| "source_label SrcCnameMalformed = ''cname_malformed''"

definition rule_pattern_label :: "'c rule_pattern \<Rightarrow> string" where
  "rule_pattern_label p =
     (case p of
        Exact d \<Rightarrow> d
      | Wildcard s \<Rightarrow> ''*.'' @ s
      | Regex source _ \<Rightarrow> ''/'' @ source @ ''/'')"

section \<open>Profiles\<close>

record 'p profile_binding =
  pb_rules :: "'p compiled_operator_rules"
  pb_profile_index :: nat

definition profile_binding_new :: "'p compiled_operator_rules \<Rightarrow> string \<Rightarrow> 'p profile_binding option" where
  "profile_binding_new c i =
     map_option (\<lambda>n. \<lparr>pb_rules = c, pb_profile_index = n\<rparr>) (profile_index c i)"

definition profile_at :: "'p compiled_operator_rules \<Rightarrow> nat \<Rightarrow> 'p compiled_profile option" where
  "profile_at c n = (if n < length (co_profiles c) then Some (snd (co_profiles c ! n)) else None)"

text \<open>\<open>CompiledProfileBinding::profile\<close>; \<^term>\<open>None\<close> is its panic.\<close>

definition binding_profile :: "'p profile_binding \<Rightarrow> 'p compiled_profile option" where
  "binding_profile b = profile_at (pb_rules b) (pb_profile_index b)"

datatype block_response_v1 = RespZero | RespNxdomain | RespRefused | RespSoaNodata

record ('c, 'p) resolved_profile =
  rp_name :: string
  rp_unfiltered :: bool
  rp_allow_domains :: "string set"
  rp_deny_domains :: "string set"
  rp_block_all :: bool
  rp_rules :: "'c dns_rule list"
  rp_block_response :: block_response_v1
  rp_blocked_ttl_secs :: u32
  rp_rewrite_rules :: profile_rewrite_rules
  rp_ecs_policy :: ecs_policy
  rp_operator_rules :: "'p profile_binding option"

section \<open>Evaluation\<close>

text \<open>The byte walk of \<open>evaluate_inner\<close>.  \<^term>\<open>None\<close> is the early return on an allowed
  suffix; otherwise the deny flag and the masks gathered on the way.\<close>

fun eval_walk ::
  "bool \<times> string set \<Rightarrow> bool \<times> string set \<Rightarrow> bool \<times> (string \<Rightarrow> domain_masks option)
     \<Rightarrow> bool \<Rightarrow> domain_masks \<Rightarrow> string \<Rightarrow> (bool \<times> domain_masks) option"
where
  "eval_walk allow deny bits deny_hit masks [] = Some (deny_hit, masks)"
| "eval_walk allow deny bits deny_hit masks (b # rest) =
     (if b \<noteq> CHR ''.'' \<or> rest = [] then eval_walk allow deny bits deny_hit masks rest
      else if fst allow \<and> rest \<in> snd allow then None
      else eval_walk allow deny bits
             (deny_hit \<or> (fst deny \<and> \<not> deny_hit \<and> rest \<in> snd deny))
             (if fst bits then or_masks masks (snd bits rest) else masks) rest)"

definition evaluate_inner ::
  "bool \<Rightarrow> (string \<Rightarrow> u64) \<Rightarrow> ('c \<Rightarrow> string \<Rightarrow> bool) \<Rightarrow> filter_engine \<Rightarrow> string
     \<Rightarrow> ('c, 'p) resolved_profile \<Rightarrow> filter_result \<times> block_source option"
where
  "evaluate_inner ATTR hash re_is_match eng domain profile =
     (let attr = (\<lambda>s. if ATTR then Some s else None);
          scan = priority_scan re_is_match (rp_rules profile) domain
      in if rp_block_all profile then
           (if domain_matches_set domain (rp_allow_domains profile) then (Forward, None)
            else case scan of
              Some (_, r) \<Rightarrow> if action r = Allow then (Forward, None) else (BlockQuery, attr SrcAdminBlock)
            | None \<Rightarrow> (BlockQuery, attr SrcAdminBlock))
         else
           (let best_priority = (case scan of Some (p, _) \<Rightarrow> p | None \<Rightarrow> - 1);
                best_result = map_option (\<lambda>(_, r). action_result (action r)) scan;
                rule_source = SrcRule (case scan of Some (_, r) \<Rightarrow> rule_pattern_label (pattern r) | None \<Rightarrow> [])
            in if best_priority = 3 then (Forward, None)
               else
                 (let want_allow = (best_priority < 1 \<and> rp_allow_domains profile \<noteq> {});
                      want_deny = (best_result = None \<and> rp_deny_domains profile \<noteq> {});
                      want_bits = (best_result = None \<and> \<not> rp_unfiltered profile);
                      probe = (\<lambda>key. probe_shard hash eng key (rp_name profile))
                  in if \<not> (want_allow \<or> want_deny \<or> want_bits) then
                       (case unwrap_or Forward best_result of
                          Forward \<Rightarrow> (Forward, None)
                        | BlockQuery \<Rightarrow> (BlockQuery, attr rule_source))
                     else if want_allow \<and> domain \<in> rp_allow_domains profile then (Forward, None)
                     else
                       (case eval_walk (want_allow, rp_allow_domains profile) (want_deny, rp_deny_domains profile)
                               (want_bits, probe) (want_deny \<and> domain \<in> rp_deny_domains profile)
                               (if want_bits then or_masks masks_default (probe domain) else masks_default) domain of
                          None \<Rightarrow> (Forward, None)
                        | Some (deny_hit, masks) \<Rightarrow>
                            (case best_result of
                               Some Forward \<Rightarrow> (Forward, None)
                             | Some BlockQuery \<Rightarrow> (BlockQuery, attr rule_source)
                             | None \<Rightarrow>
                                 if deny_hit then (BlockQuery, attr SrcAdminBlock)
                                 else if allow_mask masks \<noteq> 0 then (Forward, None)
                                 else if block_mask masks \<noteq> 0
                                 then (BlockQuery, attr (SrcList (of_nat (trailing_zeros (block_mask masks)))))
                                 else (Forward, None))))))"

definition evaluate ::
  "(string \<Rightarrow> u64) \<Rightarrow> ('c \<Rightarrow> string \<Rightarrow> bool) \<Rightarrow> filter_engine \<Rightarrow> string
     \<Rightarrow> ('c, 'p) resolved_profile \<Rightarrow> filter_result"
where
  "evaluate hash re_is_match eng domain profile = fst (evaluate_inner False hash re_is_match eng domain profile)"

definition engine_evaluate_attributed ::
  "(string \<Rightarrow> u64) \<Rightarrow> ('c \<Rightarrow> string \<Rightarrow> bool) \<Rightarrow> filter_engine \<Rightarrow> string
     \<Rightarrow> ('c, 'p) resolved_profile \<Rightarrow> filter_result \<times> block_source option"
where
  "engine_evaluate_attributed hash re_is_match eng domain profile =
     evaluate_inner True hash re_is_match eng domain profile"

definition external_matches_attributed ::
  "(string \<Rightarrow> u64) \<Rightarrow> filter_engine \<Rightarrow> string \<Rightarrow> ('c, 'p) resolved_profile
     \<Rightarrow> external_matches \<times> block_source option"
where
  "external_matches_attributed hash eng domain profile =
     (if rp_unfiltered profile then (EDisabled, None)
      else
        (let masks = list_membership_for hash eng domain (rp_name profile);
             external = (case (allow_mask masks \<noteq> 0, block_mask masks \<noteq> 0) of
                           (False, False) \<Rightarrow> ENone
                         | (True, False) \<Rightarrow> EAllow
                         | (False, True) \<Rightarrow> EDeny
                         | (True, True) \<Rightarrow> EAllowAndDeny)
         in (external,
             if block_mask masks \<noteq> 0 then Some (SrcList (of_nat (trailing_zeros (block_mask masks)))) else None)))"

definition external_matches_of ::
  "(string \<Rightarrow> u64) \<Rightarrow> filter_engine \<Rightarrow> string \<Rightarrow> ('c, 'p) resolved_profile \<Rightarrow> external_matches"
where
  "external_matches_of hash eng domain profile = fst (external_matches_attributed hash eng domain profile)"

record active_policy_decision =
  apd_blocked :: bool
  apd_source :: "block_source option"
  apd_grant :: "request_grant option"

text \<open>\<^term>\<open>None\<close> is the panic of a binding that does not point into its snapshot.\<close>

definition evaluate_active_operator_policy ::
  "(string \<Rightarrow> u64) \<Rightarrow> ('p \<Rightarrow> string \<Rightarrow> bool) \<Rightarrow> filter_engine \<Rightarrow> string
     \<Rightarrow> ('c, 'p) resolved_profile \<Rightarrow> active_policy_decision option"
where
  "evaluate_active_operator_policy hash op_is_match eng domain profile =
     (case rp_operator_rules profile of
        None \<Rightarrow> Some \<lparr>apd_blocked = True, apd_source = Some SrcAdminBlock, apd_grant = None\<rparr>
      | Some binding \<Rightarrow>
          (case binding_profile binding of
             None \<Rightarrow> None
           | Some compiled \<Rightarrow>
               (let (external, external_source) = external_matches_attributed hash eng domain profile;
                    decision = evaluate_attributed op_is_match compiled domain external;
                    grant = decision_grant compiled decision
                in if rd_verdict decision = VForward
                   then Some \<lparr>apd_blocked = False, apd_source = None, apd_grant = grant\<rparr>
                   else
                     (let source =
                        (case attribution compiled (rd_winning_token decision) of
                           Some (_, origin) \<Rightarrow> SrcCustomList (ro_list_id origin)
                         | None \<Rightarrow>
                             unwrap_or SrcAdminBlock (if external = EDeny then external_source else None))
                      in Some \<lparr>apd_blocked = True, apd_source = Some source, apd_grant = grant\<rparr>))))"

section \<open>The walk\<close>

lemma eval_walk_eq:
  "eval_walk allow deny bits deny_hit masks d =
     (if fst allow \<and> suffix_in_set d (snd allow) then None
      else Some (deny_hit \<or> fst deny \<and> suffix_in_set d (snd deny),
                 if fst bits then walk_suffixes (snd bits) masks d else masks))"
  by (induction d arbitrary: deny_hit masks) auto

section \<open>The verdict, layer by layer\<close>

definition rule_hit ::
  "('c \<Rightarrow> string \<Rightarrow> bool) \<Rightarrow> 'c dns_rule list \<Rightarrow> string \<Rightarrow> bool \<Rightarrow> rule_action \<Rightarrow> bool"
where
  "rule_hit re rules d i a \<longleftrightarrow>
     (\<exists>r \<in> set rules. rule_matches re r d \<and> important r = i \<and> action r = a)"

text \<open>The documented order of the layers, with no scan and no walk: what rules match, what
  sets cover the name, what the lists say.\<close>

definition layered_verdict ::
  "('c \<Rightarrow> string \<Rightarrow> bool) \<Rightarrow> domain_masks \<Rightarrow> string \<Rightarrow> ('c, 'p) resolved_profile \<Rightarrow> filter_result"
where
  "layered_verdict re lists_say d p =
     (let hit = rule_hit re (rp_rules p) d;
          allowed = (\<exists>s \<in> rp_allow_domains p. covers s d);
          denied = (\<exists>s \<in> rp_deny_domains p. covers s d)
      in if rp_block_all p then
           (if allowed \<or> hit True Allow \<or> (\<not> hit True Block \<and> hit False Allow) then Forward else BlockQuery)
         else if hit True Allow then Forward
         else if hit True Block then BlockQuery
         else if hit False Allow \<or> allowed then Forward
         else if hit False Block \<or> denied then BlockQuery
         else if rp_unfiltered p then Forward
         else if allow_mask lists_say \<noteq> 0 then Forward
         else if block_mask lists_say \<noteq> 0 then BlockQuery
         else Forward)"

lemma priority_scan_hits:
  "case priority_scan re rules d of
     None \<Rightarrow> \<forall>i a. \<not> rule_hit re rules d i a
   | Some (p, r) \<Rightarrow> p = rule_priority r \<and> rule_hit re rules d (important r) (action r) \<and>
       (\<forall>i a. rule_hit re rules d i a \<longrightarrow> priority_of i a \<le> p)"
proof (cases "priority_scan re rules d")
  case None
  then show ?thesis using priority_scan_None_iff [of re rules d] by (auto simp: rule_hit_def)
next
  case (Some pr)
  obtain p r where pr: "pr = (p, r)" by (cases pr)
  note s = priority_scan_Some [OF Some [unfolded pr]]
  show ?thesis using Some pr s(1-3) s(4) by (auto simp: rule_hit_def)
qed

lemma action_Allow_iff: "a = Allow \<longleftrightarrow> a \<noteq> Block" for a :: rule_action
  by (cases a) auto

definition scan_tier :: "('c \<Rightarrow> string \<Rightarrow> bool) \<Rightarrow> 'c dns_rule list \<Rightarrow> string \<Rightarrow> (bool \<times> rule_action) option" where
  "scan_tier re rules d =
     (let hit = rule_hit re rules d
      in if hit True Allow then Some (True, Allow)
         else if hit True Block then Some (True, Block)
         else if hit False Allow then Some (False, Allow)
         else if hit False Block then Some (False, Block)
         else None)"

lemma priority_scan_tier:
  "map_option (\<lambda>(p, r). (important r, action r)) (priority_scan re rules d) = scan_tier re rules d"
proof (cases "priority_scan re rules d")
  case None
  then show ?thesis using priority_scan_hits [of re rules d] by (simp add: scan_tier_def)
next
  case (Some pr)
  obtain p r where pr: "pr = (p, r)" by (cases pr)
  have own: "p = rule_priority r" "rule_hit re rules d (important r) (action r)"
    and top: "rule_hit re rules d i a \<Longrightarrow> priority_of i a \<le> p" for i a
    using priority_scan_hits [of re rules d] Some pr by auto
  show ?thesis
    using Some pr own top [of True Allow] top [of True Block] top [of False Allow]
    by (cases "important r"; cases "action r") (auto simp: scan_tier_def Let_def)
qed

lemma scan_cases:
  obtains (none) "priority_scan re rules d = None" "scan_tier re rules d = None"
  | (some) r where "priority_scan re rules d = Some (rule_priority r, r)"
      "scan_tier re rules d = Some (important r, action r)" "r \<in> set rules" "rule_matches re r d"
proof (cases "priority_scan re rules d")
  case None
  then show ?thesis using none priority_scan_tier [of re rules d] by simp
next
  case (Some pr)
  obtain p r where pr: "pr = (p, r)" by (cases pr)
  show ?thesis
    using some [of r] Some pr priority_scan_tier [of re rules d] priority_scan_Some [of re rules d p r]
    by simp
qed

lemma layered_by_tier:
  "layered_verdict re m d p =
     (let allowed = domain_matches_set d (rp_allow_domains p); denied = domain_matches_set d (rp_deny_domains p)
      in if rp_block_all p then
           (if allowed \<or> map_option snd (scan_tier re (rp_rules p) d) = Some Allow then Forward else BlockQuery)
         else case scan_tier re (rp_rules p) d of
           Some (True, a) \<Rightarrow> action_result a
         | Some (False, Allow) \<Rightarrow> Forward
         | Some (False, Block) \<Rightarrow> if allowed then Forward else BlockQuery
         | None \<Rightarrow>
             if allowed then Forward else if denied then BlockQuery
             else if rp_unfiltered p then Forward
             else if allow_mask m \<noteq> 0 then Forward
             else if block_mask m \<noteq> 0 then BlockQuery else Forward)"
  by (auto simp: layered_verdict_def scan_tier_def Let_def domain_matches_set_covers)

lemma suffix_in_set_empty [simp]: "\<not> suffix_in_set d {}"
  by (induction d) auto

lemma matches_set_split:
  "domain_matches_set d S \<longleftrightarrow> d \<in> S \<or> suffix_in_set d S"
  by (auto simp: domain_matches_set_def)

lemma priority_of_3 [simp]: "priority_of i a = 3 \<longleftrightarrow> i \<and> a = Allow"
  by (cases i; cases a) auto

lemma fst_evaluate_inner:
  "fst (evaluate_inner ATTR hash re eng d p) =
     layered_verdict re (list_membership_for hash eng d (rp_name p)) d p"
proof (cases re "rp_rules p" d rule: scan_cases)
  case none
  then show ?thesis
    by (auto simp: evaluate_inner_def layered_by_tier Let_def eval_walk_eq matches_set_split
        list_membership_for_def walk_membership_def masks_default_def)
next
  case (some r)
  then show ?thesis
    by (cases "important r"; cases "action r")
      (auto simp: evaluate_inner_def layered_by_tier Let_def eval_walk_eq matches_set_split)
qed

text \<open>When a recorded source is the reason for a block.\<close>

definition source_explains ::
  "(string \<Rightarrow> u64) \<Rightarrow> ('c \<Rightarrow> string \<Rightarrow> bool) \<Rightarrow> filter_engine \<Rightarrow> string \<Rightarrow> ('c, 'p) resolved_profile
     \<Rightarrow> block_source \<Rightarrow> bool"
where
  "source_explains hash re eng d p s =
     (let w = block_mask (list_membership_for hash eng d (rp_name p))
      in case s of
           SrcAdminBlock \<Rightarrow> rp_block_all p \<or> (\<exists>s \<in> rp_deny_domains p. covers s d)
         | SrcRule l \<Rightarrow> \<not> rp_block_all p \<and>
             (\<exists>r \<in> set (rp_rules p). rule_matches re r d \<and> action r = Block \<and> l = rule_pattern_label (pattern r))
         | SrcList b \<Rightarrow> \<not> rp_block_all p \<and> \<not> rp_unfiltered p \<and> bit w (unat b) \<and> (\<forall>i < unat b. \<not> bit w i)
         | _ \<Rightarrow> False)"

lemma lowest_list_bit:
  assumes "w \<noteq> 0"
  shows "bit w (unat (of_nat (trailing_zeros w) :: u8))"
    and "i < unat (of_nat (trailing_zeros w) :: u8) \<Longrightarrow> \<not> bit w i"
proof -
  have "unat (of_nat (trailing_zeros w) :: u8) = trailing_zeros w"
    using trailing_zeros_lowest(1) [OF assms] by (simp add: unat_of_nat)
  then show "bit w (unat (of_nat (trailing_zeros w) :: u8))"
    and "i < unat (of_nat (trailing_zeros w) :: u8) \<Longrightarrow> \<not> bit w i"
    using trailing_zeros_lowest(2,3) [OF assms] by simp_all
qed

lemma evaluate_inner_source:
  assumes "evaluate_inner True hash re eng d p = (v, src)"
  shows "case src of None \<Rightarrow> v = Forward | Some s \<Rightarrow> v = BlockQuery \<and> source_explains hash re eng d p s"
proof (cases re "rp_rules p" d rule: scan_cases)
  case none
  then show ?thesis using assms
    by (auto simp: evaluate_inner_def Let_def eval_walk_eq matches_set_split
        source_explains_def domain_matches_set_covers [symmetric] lowest_list_bit
        list_membership_for_def walk_membership_def masks_default_def split: if_splits)
next
  case (some r)
  then show ?thesis using assms
    by (cases "important r"; cases "action r")
      (auto simp: evaluate_inner_def Let_def eval_walk_eq source_explains_def split: if_splits)
qed

text \<open>C26. The single pass of \<open>evaluate\<close>, with its early returns, its skipped walks and its
  interleaved sets, gives the verdict of the documented layers: \<open>block_all\<close>, then rules and
  the profile's own sets by tier, then allow lists, then block lists, then forward; an
  unfiltered profile never reaches the lists.\<close>

theorem evaluate_by_layers:
  "evaluate hash re_is_match eng d p =
     layered_verdict re_is_match (list_membership_for hash eng d (rp_name p)) d p"
  by (simp add: evaluate_def fst_evaluate_inner)

text \<open>The attributed form gives the same verdict, names a source exactly when it blocks,
  and the source is a reason for the block: a matching deny rule by its label, the
  operator's own deny set or \<open>block_all\<close>, or the lowest block list that holds the name.\<close>

theorem attribution_explains_block:
  "case engine_evaluate_attributed hash re_is_match eng d p of
     (v, src) \<Rightarrow> v = evaluate hash re_is_match eng d p \<and>
       (case src of
          None \<Rightarrow> v = Forward
        | Some s \<Rightarrow> v = BlockQuery \<and> source_explains hash re_is_match eng d p s)"
proof (cases "evaluate_inner True hash re_is_match eng d p")
  case (Pair v src)
  then have "v = evaluate hash re_is_match eng d p"
    using fst_evaluate_inner [of True hash re_is_match eng d p] by (simp add: evaluate_def fst_evaluate_inner)
  then show ?thesis
    using Pair evaluate_inner_source [OF Pair] by (cases src) (simp_all add: engine_evaluate_attributed_def)
qed

text \<open>C27. Under \<open>block_all\<close> a name the profile's allow set covers is forwarded before any
  rule is looked at.  A name that an important deny rule blocks in an ordinary profile is
  therefore forwarded once \<open>block_all\<close> is switched on.\<close>

theorem block_all_lifts_important_deny:
  assumes "rule_hit re_is_match (rp_rules p) d True Block"
    and "\<not> rule_hit re_is_match (rp_rules p) d True Allow"
    and "s \<in> rp_allow_domains p" and "covers s d"
  shows "evaluate hash re_is_match eng d (p\<lparr>rp_block_all := False\<rparr>) = BlockQuery
    \<and> evaluate hash re_is_match eng d (p\<lparr>rp_block_all := True\<rparr>) = Forward"
  using assms by (auto simp: evaluate_def fst_evaluate_inner layered_verdict_def)

definition sample_profile :: "(unit, unit) resolved_profile" where
  "sample_profile =
     \<lparr>rp_name = ''night'', rp_unfiltered = False, rp_allow_domains = {''b.c''}, rp_deny_domains = {},
      rp_block_all = False,
      rp_rules = [\<lparr>pattern = Wildcard ''c'', action = Block, important = True, noapex = False\<rparr>],
      rp_block_response = RespZero, rp_blocked_ttl_secs = 60, rp_rewrite_rules = rewrite_build [],
      rp_ecs_policy = ecs_OFF, rp_operator_rules = None\<rparr>"

theorem block_all_lifts_important_deny_witness:
  "evaluate (\<lambda>_. 0) (\<lambda>_ _. False) engine_new ''a.b.c'' (sample_profile\<lparr>rp_block_all := False\<rparr>) = BlockQuery
   \<and> evaluate (\<lambda>_. 0) (\<lambda>_ _. False) engine_new ''a.b.c'' (sample_profile\<lparr>rp_block_all := True\<rparr>) = Forward"
  by (rule block_all_lifts_important_deny [where s = "''b.c''"])
    (simp_all add: sample_profile_def rule_hit_def rule_matches_def covers_def is_subdomain_of_def suffix_def)

section \<open>The operator policy of a bound profile\<close>

lemma binding_new_profile:
  assumes "profile_binding_new c i = Some b"
  obtains p where "profile_of c i = Some p" "binding_profile b = Some p"
  using assms binary_search_Inr [of "co_profiles c" i]
  by (auto simp: profile_binding_new_def profile_index_def profile_of_def sorted_find_def
      binding_profile_def profile_at_def warden_ok)

text \<open>The reason for an operator block: the list of the winning rule; else the lowest deny
  list; else the profile's \<open>block_all\<close>.\<close>

definition policy_source ::
  "(string \<Rightarrow> u64) \<Rightarrow> filter_engine \<Rightarrow> ('c, 'p) resolved_profile \<Rightarrow> 'p compiled_profile \<Rightarrow> ranked_hit option
     \<Rightarrow> string \<Rightarrow> block_source"
where
  "policy_source hash eng p compiled hit d =
     (case hit of
        Some h \<Rightarrow> SrcCustomList (ro_list_id (sr_origin (rs_rules (cp_store compiled) ! unat (rh_token h))))
      | None \<Rightarrow>
          if external_matches_of hash eng d p = EDeny
          then SrcList (of_nat (trailing_zeros (block_mask (list_membership_for hash eng d (rp_name p)))))
          else SrcAdminBlock)"

lemma external_deny_source:
  "external_matches_attributed hash eng d p = (EDeny, src) \<Longrightarrow>
     src = Some (SrcList (of_nat (trailing_zeros (block_mask (list_membership_for hash eng d (rp_name p))))))"
  by (auto simp: external_matches_attributed_def Let_def split: if_splits bool.splits)

lemma active_policy_eval:
  assumes "rp_operator_rules p = Some b" "binding_profile b = Some compiled"
  shows "\<exists>dec. evaluate_active_operator_policy hash op_is_match eng d p = Some dec
    \<and> (apd_blocked dec \<longleftrightarrow> profile_evaluate op_is_match compiled d (external_matches_of hash eng d p) = VBlock)
    \<and> apd_source dec = (if apd_blocked dec
        then Some (policy_source hash eng p compiled (lookup_hit op_is_match compiled d) d) else None)
    \<and> (apd_grant dec \<noteq> None \<longleftrightarrow> (\<exists>h. lookup_hit op_is_match compiled d = Some h \<and> tier_is_allow (rh_tier h)))"
proof -
  obtain ext src where e: "external_matches_attributed hash eng d p = (ext, src)" by fastforce
  show ?thesis
    using assms e external_deny_source [of hash eng d p src]
    by (cases "lookup_hit op_is_match compiled d")
      (auto simp: evaluate_active_operator_policy_def evaluate_attributed_def reduce_def attribution_def
        profile_evaluate_def policy_source_def external_matches_of_def decision_grant_def Let_def)
qed

text \<open>A name is blocked by the policy of a profile bound to a compiled snapshot exactly
  when the rows of its mounted files, or with no matching row \<open>block_all\<close> or the lists,
  block it.  The binding never misses, so the lookup does not panic.\<close>

lemma active_policy_by_rows:
  assumes "compile_operator_rules sha256 re_compile snapshot packs profiles l adm = (Inr c, adm')"
    and "no_collision sha256 packs" and "m \<in> set profiles"
    and "profile_binding_new c (pm_profile_id m) = Some b" and "rp_operator_rules p = Some b"
  shows "\<exists>dec. evaluate_active_operator_policy hash op_is_match eng d p = Some dec
    \<and> (apd_blocked dec \<longleftrightarrow>
         verdict_by_tier (matching_tiers re_compile op_is_match l packs (pm_custom_lists m) d) (pm_block_all m)
           (external_matches_of hash eng d p) = VBlock)"
proof -
  obtain compiled where b: "profile_of c (pm_profile_id m) = Some compiled" "binding_profile b = Some compiled"
    using binding_new_profile [OF assms(4)] .
  show ?thesis
    using active_policy_eval [OF assms(5) b(2)] compiled_rows_decide [OF assms(1-3)] b(1) by fastforce
qed

text \<open>The reason recorded with an operator verdict: no source when forwarded; the list of
  the winning rule; else the lowest list that denies; else \<open>block_all\<close>.  A grant for the
  names of the answer is issued exactly when an allow rule won.  A profile with no binding
  blocks everything.\<close>

theorem active_policy_attribution:
  "case rp_operator_rules p of
     None \<Rightarrow> evaluate_active_operator_policy hash op_is_match eng d p =
       Some \<lparr>apd_blocked = True, apd_source = Some SrcAdminBlock, apd_grant = None\<rparr>
   | Some b \<Rightarrow>
       (case binding_profile b of
          None \<Rightarrow> evaluate_active_operator_policy hash op_is_match eng d p = None
        | Some compiled \<Rightarrow>
            (\<exists>dec. evaluate_active_operator_policy hash op_is_match eng d p = Some dec
               \<and> apd_source dec = (if apd_blocked dec
                   then Some (policy_source hash eng p compiled (lookup_hit op_is_match compiled d) d) else None)
               \<and> (apd_grant dec \<noteq> None \<longleftrightarrow>
                    (\<exists>h. lookup_hit op_is_match compiled d = Some h \<and> tier_is_allow (rh_tier h)))))"
  using active_policy_eval [of p _ _ hash op_is_match eng d]
  by (fastforce simp: evaluate_active_operator_policy_def split: option.splits)

end
