(* ===== verification/Custom_Lists.thy ===== *)
theory Custom_Lists
  imports Std_Text Domain_Names
begin

text \<open>
  Custom list files, \<open>config/custom_list/grammar.rs\<close> and the text side of
  \<open>config/custom_list/io.rs\<close>: the two-form line grammar, the compiled list, and the edits
  an operator makes to a file.  A file is its content, \<^term>\<open>None\<close> when it does not exist.
  The guarded path, the descriptor and the atomic write are not modelled: an edit reads the
  content, computes the new one and succeeds with it when it is within the size limit.
\<close>

section \<open>Grammar\<close>

datatype pack_line = PackBlank | PackAllow string | PackDeny string

datatype grammar_error =
    NotARule
  | EmptyDomain
  | DomainTooLong nat
  | LabelTooLong string
  | EmptyLabel
  | HyphenAtLabelEdge string
  | NotLdh char
  | LineSeparator

definition ldh_byte :: "char \<Rightarrow> bool" where
  "ldh_byte c \<longleftrightarrow> is_ascii_alphanumeric c \<or> c = CHR ''-'' \<or> c = CHR ''.''"

fun check_labels :: "string list \<Rightarrow> (grammar_error, unit) result" where
  "check_labels [] = Inr ()"
| "check_labels (label # labels) =
     (if label = [] then Inl EmptyLabel
      else if 63 < length label then Inl (LabelTooLong label)
      else if prefix ''-'' label \<or> suffix ''-'' label then Inl (HyphenAtLabelEdge label)
      else check_labels labels)"

text \<open>A refused character is reported by its first byte.\<close>

definition normalise_domain :: "string \<Rightarrow> (grammar_error, string) result" where
  "normalise_domain d =
     (if d = [] then Inl EmptyDomain
      else if 253 < length d then Inl (DomainTooLong (length d))
      else case find (\<lambda>c. \<not> ldh_byte c) d of
          Some c \<Rightarrow> Inl (NotLdh c)
        | None \<Rightarrow> rbind (check_labels (split_on (CHR ''.'') d)) (\<lambda>_. Inr (to_ascii_lowercase d)))"

definition strip_terminator :: "string \<Rightarrow> (grammar_error, string) result" where
  "strip_terminator rest =
     (case strip_suffix ''^'' rest of None \<Rightarrow> Inl NotARule | Some body \<Rightarrow> normalise_domain body)"

definition parse_pack_line :: "string \<Rightarrow> (grammar_error, pack_line) result" where
  "parse_pack_line line =
     (let t = trim line
      in if t = [] \<or> prefix ''#'' t then Inr PackBlank
         else case strip_prefix ''@@||'' t of
             Some rest \<Rightarrow> rbind (strip_terminator rest) (\<lambda>d. Inr (PackAllow d))
           | None \<Rightarrow>
               (case strip_prefix ''||'' t of
                  Some rest \<Rightarrow> rbind (strip_terminator rest) (\<lambda>d. Inr (PackDeny d))
                | None \<Rightarrow> Inl NotARule))"

definition compose_line :: "string \<Rightarrow> bool \<Rightarrow> (grammar_error, string) result" where
  "compose_line d allow =
     (if newline \<in> set d \<or> carriage_return \<in> set d then Inl LineSeparator
      else rbind (normalise_domain d) (\<lambda>n.
        let line = (if allow then ''@@||'' else ''||'') @ n @ ''^''
        in if newline \<in> set line \<or> carriage_return \<in> set line then Inl LineSeparator
           else Inr line))"

section \<open>Compiled lists\<close>

record compiled_custom_list =
  cl_allow :: "string list"
  cl_deny :: "string list"
  cl_skipped :: nat

definition empty_custom_list :: compiled_custom_list where
  "empty_custom_list = \<lparr>cl_allow = [], cl_deny = [], cl_skipped = 0\<rparr>"

definition add_line :: "compiled_custom_list \<Rightarrow> (grammar_error, pack_line) result \<Rightarrow> compiled_custom_list" where
  "add_line out l =
     (case l of
        Inr PackBlank \<Rightarrow> out
      | Inr (PackAllow d) \<Rightarrow> out\<lparr>cl_allow := cl_allow out @ [d]\<rparr>
      | Inr (PackDeny d) \<Rightarrow> out\<lparr>cl_deny := cl_deny out @ [d]\<rparr>
      | Inl e \<Rightarrow> out\<lparr>cl_skipped := cl_skipped out + 1\<rparr>)"

definition parse_text :: "string \<Rightarrow> compiled_custom_list" where
  "parse_text txt = foldl (\<lambda>out line. add_line out (parse_pack_line line)) empty_custom_list (str_lines txt)"

section \<open>Edits\<close>

text \<open>The two texts of a stale-line message, with the arguments of their formats.\<close>

datatype expected_text = ExpectedRule string | ExpectedRaw string

datatype found_text = FoundEnd nat | FoundRule string | FoundBlank | FoundNotARule string

datatype pack_write_error =
    PwInvalidLine nat grammar_error
  | PwGrammar grammar_error
  | PwMissing
  | PwReadTooLarge nat nat
  | PwTooLarge nat nat
  | PwStaleLine nat expected_text found_text
  | PwDuplicate string nat

datatype add_outcome = Added | AlreadyPresent

definition read_raw :: "string option \<Rightarrow> nat \<Rightarrow> (pack_write_error, string) result" where
  "read_raw file max_bytes =
     (case file of
        None \<Rightarrow> Inl PwMissing
      | Some txt \<Rightarrow> if max_bytes < length txt then Inl (PwReadTooLarge (length txt) max_bytes) else Inr txt)"

definition write_all_raw :: "string list \<Rightarrow> nat \<Rightarrow> (pack_write_error, string) result" where
  "write_all_raw ls max_bytes =
     (let body = body_of ls
      in if max_bytes < length body then Inl (PwTooLarge (length body) max_bytes) else Inr body)"

definition pack_rule :: "bool \<Rightarrow> string \<Rightarrow> pack_line" where
  "pack_rule allow d = (if allow then PackAllow d else PackDeny d)"

definition write_pack :: "string list \<Rightarrow> nat \<Rightarrow> (pack_write_error, string) result" where
  "write_pack ls max_bytes =
     rbind (try_fold (\<lambda>_ (n, l). case parse_pack_line l of
                Inl e \<Rightarrow> Inl (PwInvalidLine (n + 1) e) | Inr _ \<Rightarrow> Inr ()) () (List.enumerate 0 ls)) (\<lambda>_.
       write_all_raw ls max_bytes)"

text \<open>An edit gives its outcome and the new content of the file, or an error and no write.\<close>

definition add_rule ::
  "string option \<Rightarrow> string \<Rightarrow> bool \<Rightarrow> nat \<Rightarrow> (pack_write_error, add_outcome \<times> string) result"
where
  "add_rule file d allow max_bytes =
     rbind (map_err PwGrammar (compose_line d allow)) (\<lambda>line.
     rbind (map_err PwGrammar (normalise_domain d)) (\<lambda>target.
     rbind (read_raw file max_bytes) (\<lambda>txt.
       if list_ex (\<lambda>l. parse_pack_line l = Inr (pack_rule allow target)) (str_lines txt)
       then Inr (AlreadyPresent, txt)
       else rbind (write_all_raw (str_lines txt @ [line]) max_bytes) (\<lambda>body. Inr (Added, body)))))"

definition names_domain :: "string \<Rightarrow> string \<Rightarrow> bool" where
  "names_domain target l \<longleftrightarrow>
     parse_pack_line l = Inr (PackAllow target) \<or> parse_pack_line l = Inr (PackDeny target)"

definition remove_rule :: "string option \<Rightarrow> string \<Rightarrow> nat \<Rightarrow> (pack_write_error, bool \<times> string) result" where
  "remove_rule file d max_bytes =
     rbind (map_err PwGrammar (normalise_domain d)) (\<lambda>target.
     rbind (read_raw file max_bytes) (\<lambda>txt.
       let kept = filter (\<lambda>l. \<not> names_domain target l) (str_lines txt);
           removed = (length kept \<noteq> length (str_lines txt))
       in if removed then rbind (write_all_raw kept max_bytes) (\<lambda>body. Inr (True, body))
          else Inr (False, txt)))"

definition describe_expected :: "string \<times> bool \<Rightarrow> expected_text" where
  "describe_expected e =
     (case compose_line (fst e) (snd e) of Inr l \<Rightarrow> ExpectedRule l | Inl _ \<Rightarrow> ExpectedRaw (fst e))"

definition describe_line :: "string \<Rightarrow> found_text" where
  "describe_line l =
     (case parse_pack_line l of
        Inr (PackAllow d) \<Rightarrow> FoundRule (''@@||'' @ d @ ''^'')
      | Inr (PackDeny d) \<Rightarrow> FoundRule (''||'' @ d @ ''^'')
      | Inr PackBlank \<Rightarrow> FoundBlank
      | Inl _ \<Rightarrow> FoundNotARule (trim l))"

definition replace_rule_at_line ::
  "string option \<Rightarrow> nat \<Rightarrow> string \<times> bool \<Rightarrow> string \<Rightarrow> bool \<Rightarrow> nat \<Rightarrow> (pack_write_error, string) result"
where
  "replace_rule_at_line file line_no expect d allow max_bytes =
     rbind (map_err PwGrammar (compose_line d allow)) (\<lambda>new_line.
     rbind (map_err PwGrammar (normalise_domain d)) (\<lambda>want.
     rbind (read_raw file max_bytes) (\<lambda>txt.
       let ls = str_lines txt
       in if line_no = 0 \<or> length ls < line_no
          then Inl (PwStaleLine line_no (describe_expected expect) (FoundEnd (length ls)))
          else
            (let idx = line_no - 1
             in if \<not> (case parse_pack_line (ls ! idx) of
                        Inr (PackAllow x) \<Rightarrow> snd expect \<and> normalise_domain (fst expect) = Inr x
                      | Inr (PackDeny x) \<Rightarrow> \<not> snd expect \<and> normalise_domain (fst expect) = Inr x
                      | _ \<Rightarrow> False)
                then Inl (PwStaleLine line_no (describe_expected expect) (describe_line (ls ! idx)))
                else case find (\<lambda>(i, l). i \<noteq> idx \<and> parse_pack_line l = Inr (pack_rule allow want))
                            (List.enumerate 0 ls) of
                    Some (i, _) \<Rightarrow> Inl (PwDuplicate new_line (i + 1))
                  | None \<Rightarrow> write_all_raw (ls[idx := new_line]) max_bytes))))"

section \<open>Composed lines\<close>

lemma find_None_all: "find P xs = None \<longleftrightarrow> (\<forall>x \<in> set xs. \<not> P x)"
  by (auto simp: find_None_iff)

lemma normalise_domain_Inr:
  assumes "normalise_domain d = Inr n"
  shows "n = to_ascii_lowercase d" "d \<noteq> []" "\<forall>c \<in> set d. ldh_byte c"
  using assms by (auto simp: normalise_domain_def find_None_all warden_ok split: if_splits option.splits)

lemma ldh_lower: "ldh_byte (to_ascii_lower c) = ldh_byte c"
proof -
  have "is_ascii_alphanumeric (to_ascii_lower c) = is_ascii_alphanumeric c"
    using byte_to_ascii_lower [of c] by (cases "is_ascii_uppercase c") (auto simp: ascii_defs to_ascii_lower_def)
  moreover have "to_ascii_lower c = CHR ''-'' \<longleftrightarrow> c = CHR ''-''" "to_ascii_lower c = CHR ''.'' \<longleftrightarrow> c = CHR ''.''"
    by (rule to_ascii_lower_eq_punct; simp)+
  ultimately show ?thesis by (simp add: ldh_byte_def)
qed

lemma check_labels_Inr:
  "check_labels ls = Inr u \<longleftrightarrow> (\<forall>l \<in> set ls. l \<noteq> [] \<and> length l \<le> 63 \<and> \<not> prefix ''-'' l \<and> \<not> suffix ''-'' l)"
  by (induction ls) auto

lemma normalise_domain_idem:
  assumes "normalise_domain d = Inr n"
  shows "normalise_domain n = Inr n"
proof -
  have n: "n = to_ascii_lowercase d" and ldh: "\<forall>c \<in> set d. ldh_byte c" by (rule normalise_domain_Inr [OF assms])+
  have labels: "check_labels (split_on (CHR ''.'') d) = Inr ()" "d \<noteq> []" "length d \<le> 253"
    using assms by (auto simp: normalise_domain_def warden_ok split: if_splits option.splits)
  have "split_on (CHR ''.'') n = map (map to_ascii_lower) (split_on (CHR ''.'') d)"
    unfolding n to_ascii_lowercase_def by (rule split_on_map) (simp add: to_ascii_lower_eq_punct)
  then have "check_labels (split_on (CHR ''.'') n) = Inr ()"
    using labels(1) by (auto simp: check_labels_Inr prefix_dash_map suffix_dash_map)
  moreover have "\<forall>c \<in> set n. ldh_byte c" using ldh by (auto simp: n to_ascii_lowercase_def ldh_lower)
  ultimately show ?thesis using labels n by (simp add: normalise_domain_def find_None_all [THEN iffD2])
qed

lemma ldh_not_special:
  "ldh_byte c \<Longrightarrow> ws_free c \<and> c \<noteq> CHR ''^'' \<and> c \<noteq> newline \<and> c \<noteq> carriage_return"
  by (auto simp: ldh_byte_def ascii_defs ws_free_def whitespace_seqs_def newline_def carriage_return_def)

lemma parse_composed:
  assumes "normalise_domain n = Inr n"
  shows "parse_pack_line ((if allow then ''@@||'' else ''||'') @ n @ ''^'') = Inr (pack_rule allow n)"
proof -
  let ?line = "(if allow then ''@@||'' else ''||'') @ n @ ''^''"
  have "ws_free (CHR ''@'')" "ws_free (CHR ''|'')" "ws_free (CHR ''^'')"
    by (simp_all add: ws_free_def whitespace_seqs_def)
  then have "trim ?line = ?line" by (intro trim_id) auto
  moreover have "strip_suffix ''^'' (n @ ''^'') = Some n" by (simp add: strip_suffix_def)
  ultimately show ?thesis
    using assms by (auto simp: parse_pack_line_def strip_prefix_def strip_terminator_def pack_rule_def)
qed

lemma compose_line_Inr:
  assumes "compose_line d allow = Inr line"
  obtains n where "normalise_domain d = Inr n" "line = (if allow then ''@@||'' else ''||'') @ n @ ''^''"
    "parse_pack_line line = Inr (pack_rule allow n)" "newline \<notin> set line"
proof -
  obtain n where n: "normalise_domain d = Inr n" "line = (if allow then ''@@||'' else ''||'') @ n @ ''^''" "newline \<notin> set line"
    using assms by (auto simp: compose_line_def Let_def warden_ok split: if_splits)
  then show thesis using that parse_composed [OF normalise_domain_idem] by blast
qed

text \<open>C32. A domain that composes to a line reads back as that rule: one line, in the chosen
  direction, for the lowercased domain; and every domain the grammar accepts composes.\<close>

theorem compose_parse_roundtrip:
  assumes "normalise_domain d = Inr n"
  shows "\<exists>line. compose_line d allow = Inr line \<and> parse_pack_line line = Inr (pack_rule allow n)
    \<and> str_lines (line @ [newline]) = [line]"
proof -
  let ?line = "(if allow then ''@@||'' else ''||'') @ n @ ''^''"
  have n: "\<forall>c \<in> set d. ldh_byte c" "\<forall>c \<in> set n. ldh_byte c"
    using normalise_domain_Inr(3) [OF assms] normalise_domain_Inr(3) [OF normalise_domain_idem [OF assms]] by auto
  then have clean: "newline \<notin> set d" "carriage_return \<notin> set d" "newline \<notin> set ?line" "carriage_return \<notin> set ?line"
    using ldh_not_special by (auto simp: newline_def carriage_return_def)
  then have "compose_line d allow = Inr ?line" using assms by (simp add: compose_line_def Let_def)
  moreover have "str_lines (?line @ [newline]) = [strip_cr ?line]"
    using str_lines_join [of "[?line]"] clean(3) by simp
  moreover have "strip_cr ?line = ?line"
    by (simp add: strip_cr_def strip_suffix_def suffix_def carriage_return_def)
  ultimately show ?thesis using parse_composed [OF normalise_domain_idem [OF assms]] by metis
qed

theorem compose_parse_roundtrip_witness:
  "\<exists>line. compose_line ''Ads.Example'' True = Inr line \<and> parse_pack_line line = Inr (pack_rule True ''ads.example'')"
proof -
  have "normalise_domain ''Ads.Example'' = Inr ''ads.example''" by code_simp
  then show ?thesis using compose_parse_roundtrip by blast
qed

section \<open>Edits keep the other rules\<close>

definition line_rules :: "string \<Rightarrow> (grammar_error, pack_line) result list" where
  "line_rules txt = map parse_pack_line (str_lines txt)"

lemma parse_strip_cr [simp]: "parse_pack_line (strip_cr l) = parse_pack_line l"
  by (simp add: parse_pack_line_def)

lemma line_rules_write:
  assumes "write_all_raw ls max_bytes = Inr body" "\<forall>l \<in> set ls. newline \<notin> set l" "ls \<noteq> [[]]"
  shows "line_rules body = map parse_pack_line ls" "length body \<le> max_bytes"
  using assms str_lines_body_of [of ls]
  by (auto simp: write_all_raw_def Let_def line_rules_def split: if_splits)

lemma parse_text_rules: "parse_text txt = foldl add_line empty_custom_list (line_rules txt)"
  by (simp add: parse_text_def line_rules_def foldl_map)

text \<open>Adding a rule appends it and changes no other line as the reader sees it; a rule
  that is already there, in any spelling, leaves the file alone.  Adding twice is adding
  once.\<close>

theorem add_rule_appends:
  assumes "add_rule (Some txt) d allow max_bytes = Inr (outcome, body)"
  shows "\<exists>n. normalise_domain d = Inr n
    \<and> (if Inr (pack_rule allow n) \<in> set (line_rules txt) then outcome = AlreadyPresent \<and> body = txt
       else outcome = Added \<and> line_rules body = line_rules txt @ [Inr (pack_rule allow n)])
    \<and> add_rule (Some body) d allow max_bytes = Inr (AlreadyPresent, body)"
proof -
  obtain line where c: "compose_line d allow = Inr line" using assms by (auto simp: add_rule_def warden_ok)
  obtain n where n: "normalise_domain d = Inr n" "line = (if allow then ''@@||'' else ''||'') @ n @ ''^''"
      "parse_pack_line line = Inr (pack_rule allow n)" "newline \<notin> set line"
    using compose_line_Inr [OF c] .
  let ?r = "Inr (pack_rule allow n)"
  have present: "list_ex (\<lambda>l. parse_pack_line l = ?r) (str_lines t) \<longleftrightarrow> ?r \<in> set (line_rules t)" for t
    by (force simp: list_ex_iff line_rules_def)
  have again: "add_rule (Some t) d allow max_bytes = Inr (AlreadyPresent, t)"
    if "?r \<in> set (line_rules t)" "length t \<le> max_bytes" for t
    using that c n(1) present [of t] by (simp add: add_rule_def read_raw_def)
  have le: "length txt \<le> max_bytes" using assms by (auto simp: add_rule_def read_raw_def warden_ok split: if_splits)
  show ?thesis
  proof (cases "?r \<in> set (line_rules txt)")
    case True
    then show ?thesis using assms again [OF True le] n(1) by auto
  next
    case False
    then have w: "write_all_raw (str_lines txt @ [line]) max_bytes = Inr body" "outcome = Added"
      using assms c n(1) present [of "txt"] le by (auto simp: add_rule_def read_raw_def warden_ok)
    have "\<forall>l \<in> set (str_lines txt @ [line]). newline \<notin> set l" "str_lines txt @ [line] \<noteq> [[]]"
      using str_lines_no_newline n(2,4) by auto
    then have "line_rules body = line_rules txt @ [?r]" "length body \<le> max_bytes"
      using line_rules_write [OF w(1)] n(3) by (simp_all add: line_rules_def)
    then show ?thesis using False w(2) n(1) again [of body] by auto
  qed
qed

definition sample_pack :: string where
  "sample_pack = ''# mine'' @ [newline] @ ''||ADS.example^'' @ [newline]"

theorem add_rule_appends_witness:
  "\<exists>body. add_rule (Some sample_pack) ''b.example'' True 100 = Inr (Added, body)
     \<and> line_rules body = line_rules sample_pack @ [Inr (PackAllow ''b.example'')]"
proof -
  have "case add_rule (Some sample_pack) ''b.example'' True 100 of Inr (Added, _) \<Rightarrow> True | _ \<Rightarrow> False" by code_simp
  then obtain body where b: "add_rule (Some sample_pack) ''b.example'' True 100 = Inr (Added, body)"
    by (auto split: sum.splits prod.splits add_outcome.splits)
  have n: "normalise_domain ''b.example'' = Inr ''b.example''" by code_simp
  show ?thesis using add_rule_appends [OF b] n b by (auto simp: pack_rule_def split: if_splits)
qed

text \<open>Domains of a custom list without one.\<close>

definition without_domain :: "string \<Rightarrow> compiled_custom_list \<Rightarrow> compiled_custom_list" where
  "without_domain n c = c\<lparr>cl_allow := filter (\<lambda>d. d \<noteq> n) (cl_allow c), cl_deny := filter (\<lambda>d. d \<noteq> n) (cl_deny c)\<rparr>"

lemma add_line_without:
  "add_line (without_domain n acc) r = without_domain n (add_line acc r)"
  if "r \<noteq> Inr (PackAllow n)" "r \<noteq> Inr (PackDeny n)"
  using that by (auto simp: add_line_def without_domain_def split: sum.splits pack_line.splits)

lemma without_add_line:
  "without_domain n (add_line acc (Inr (PackAllow n))) = without_domain n acc"
  "without_domain n (add_line acc (Inr (PackDeny n))) = without_domain n acc"
  by (simp_all add: add_line_def without_domain_def)

lemma foldl_add_line_filter:
  "foldl add_line (without_domain n acc) (filter (\<lambda>r. r \<noteq> Inr (PackAllow n) \<and> r \<noteq> Inr (PackDeny n)) rs)
     = without_domain n (foldl add_line acc rs)"
proof (induction rs arbitrary: acc)
  case (Cons r rs)
  show ?case
    using Cons [of "add_line acc r"] Cons [of acc] add_line_without [of r n acc]
    by (auto simp: without_add_line)
qed simp

lemma parse_text_write:
  assumes "write_all_raw ls max_bytes = Inr body" "\<forall>l \<in> set ls. newline \<notin> set l"
  shows "parse_text body = foldl add_line empty_custom_list (map parse_pack_line ls)" "length body \<le> max_bytes"
proof -
  show "length body \<le> max_bytes" using assms(1) by (auto simp: write_all_raw_def Let_def split: if_splits)
  show "parse_text body = foldl add_line empty_custom_list (map parse_pack_line ls)"
  proof (cases "ls = [[]]")
    case True
    then have "body = []" using assms(1) by (simp add: write_all_raw_def body_of_def split: if_splits)
    then show ?thesis
      using True by (simp add: parse_text_def str_lines_def parse_pack_line_def trim_id add_line_def)
  qed (simp add: parse_text_rules line_rules_write [OF assms])
qed

lemma removed_iff:
  "length (filter P xs) \<noteq> length xs \<longleftrightarrow> (\<exists>x \<in> set xs. \<not> P x)"
  by (metis filter_True length_filter_less less_irrefl)

text \<open>Removing a domain drops its rules in both directions and no other: the compiled list
  of the new file is the old one without the domain, with the same count of unreadable
  lines.  It reports a change exactly when there was such a rule.\<close>

theorem remove_rule_drops_domain:
  assumes "remove_rule (Some txt) d max_bytes = Inr (removed, body)"
  shows "\<exists>n. normalise_domain d = Inr n \<and> parse_text body = without_domain n (parse_text txt)
    \<and> (removed \<longleftrightarrow> Inr (PackAllow n) \<in> set (line_rules txt) \<or> Inr (PackDeny n) \<in> set (line_rules txt))"
proof -
  obtain n where n: "normalise_domain d = Inr n" using assms by (auto simp: remove_rule_def warden_ok)
  have le: "length txt \<le> max_bytes"
    using assms by (auto simp: remove_rule_def read_raw_def warden_ok Let_def split: if_splits)
  let ?kept = "filter (\<lambda>l. \<not> names_domain n l) (str_lines txt)"
  have rules: "map parse_pack_line ?kept =
      filter (\<lambda>r. r \<noteq> Inr (PackAllow n) \<and> r \<noteq> Inr (PackDeny n)) (line_rules txt)"
    by (simp add: line_rules_def filter_map comp_def names_domain_def)
  have empty: "without_domain n empty_custom_list = empty_custom_list"
    by (simp add: without_domain_def empty_custom_list_def)
  have gone: "foldl add_line empty_custom_list (map parse_pack_line ?kept) = without_domain n (parse_text txt)"
    unfolding rules parse_text_rules using foldl_add_line_filter [of n empty_custom_list] empty by simp
  have iff: "(\<exists>l \<in> set (str_lines txt). names_domain n l) \<longleftrightarrow>
      Inr (PackAllow n) \<in> set (line_rules txt) \<or> Inr (PackDeny n) \<in> set (line_rules txt)"
    by (force simp: line_rules_def names_domain_def)
  show ?thesis
  proof (cases "\<exists>l \<in> set (str_lines txt). names_domain n l")
    case True
    then have "write_all_raw ?kept max_bytes = Inr body" "removed"
      using assms n le removed_iff [of "\<lambda>l. \<not> names_domain n l" "str_lines txt"]
      by (auto simp: remove_rule_def read_raw_def Let_def warden_ok)
    then show ?thesis
      using parse_text_write [of ?kept max_bytes body] gone n iff True str_lines_no_newline by auto
  next
    case False
    then have "?kept = str_lines txt" by (simp add: filter_id_conv)
    then have "body = txt" "\<not> removed" using assms n le by (auto simp: remove_rule_def read_raw_def Let_def)
    then show ?thesis
      using gone \<open>?kept = str_lines txt\<close> n iff False
      by (simp add: parse_text_rules line_rules_def)
  qed
qed

text \<open>Replacing a line rewrites that line alone, and only if it still holds the rule the
  operator saw: on success the line held the expected rule, it now holds the new one, every
  other line reads as before, and no other line already carried the new rule.\<close>

theorem replace_rule_in_place:
  assumes "replace_rule_at_line (Some txt) line_no seen d allow max_bytes = Inr body"
  shows "\<exists>n m. normalise_domain d = Inr n \<and> normalise_domain (fst seen) = Inr m
    \<and> 0 < line_no \<and> line_no \<le> length (line_rules txt)
    \<and> line_rules txt ! (line_no - 1) = Inr (pack_rule (snd seen) m)
    \<and> line_rules body = (line_rules txt)[line_no - 1 := Inr (pack_rule allow n)]
    \<and> (\<forall>i < length (line_rules txt). i \<noteq> line_no - 1 \<longrightarrow> line_rules txt ! i \<noteq> Inr (pack_rule allow n))"
proof -
  obtain line where c: "compose_line d allow = Inr line"
    using assms by (auto simp: replace_rule_at_line_def warden_ok)
  obtain n where n: "normalise_domain d = Inr n" "line = (if allow then ''@@||'' else ''||'') @ n @ ''^''"
      "parse_pack_line line = Inr (pack_rule allow n)" "newline \<notin> set line"
    using compose_line_Inr [OF c] .
  let ?ls = "str_lines txt" and ?i = "line_no - 1"
  let ?dup = "find (\<lambda>(i, l). i \<noteq> ?i \<and> parse_pack_line l = Inr (pack_rule allow n)) (List.enumerate 0 ?ls)"
  have i: "0 < line_no" "line_no \<le> length ?ls" and w: "write_all_raw (?ls[?i := line]) max_bytes = Inr body"
    and dup: "?dup = None"
    and held: "case parse_pack_line (?ls ! ?i) of
        Inr (PackAllow x) \<Rightarrow> snd seen \<and> normalise_domain (fst seen) = Inr x
      | Inr (PackDeny x) \<Rightarrow> \<not> snd seen \<and> normalise_domain (fst seen) = Inr x
      | _ \<Rightarrow> False"
    using assms c n(1)
    by (auto simp: replace_rule_at_line_def read_raw_def Let_def warden_ok split: if_splits option.splits prod.splits)
  obtain m where m: "normalise_domain (fst seen) = Inr m" "parse_pack_line (?ls ! ?i) = Inr (pack_rule (snd seen) m)"
    using held by (auto simp: pack_rule_def split: sum.splits pack_line.splits)
  have "\<forall>l \<in> set (?ls[?i := line]). newline \<notin> set l"
    using str_lines_no_newline n(4) set_update_subset_insert [of ?ls ?i line] by blast
  moreover have "line \<in> set (?ls[?i := line])" using i by (intro set_update_memI) simp
  then have "?ls[?i := line] \<noteq> [[]]" using n(2) by auto
  ultimately have "line_rules body = (line_rules txt)[?i := Inr (pack_rule allow n)]"
    using line_rules_write [OF w] n(3) by (simp add: line_rules_def map_update)
  moreover have "?ls ! k \<in> set ?ls \<and> parse_pack_line (?ls ! k) \<noteq> Inr (pack_rule allow n)"
    if "k < length ?ls" "k \<noteq> ?i" for k
    using dup that by (auto simp: find_None_iff in_set_enumerate_eq)
  ultimately show ?thesis using n(1) m i by (auto simp: line_rules_def)
qed

theorem replace_rule_in_place_witness:
  "\<exists>body. replace_rule_at_line (Some sample_pack) 2 (''ads.example'', False) ''ads.example'' True 100 = Inr body
     \<and> line_rules body = [Inr PackBlank, Inr (PackAllow ''ads.example'')]"
proof -
  have "case replace_rule_at_line (Some sample_pack) 2 (''ads.example'', False) ''ads.example'' True 100 of
      Inr _ \<Rightarrow> True | _ \<Rightarrow> False"
    and f: "normalise_domain ''ads.example'' = Inr ''ads.example''"
      "line_rules sample_pack = [Inr PackBlank, Inr (PackDeny ''ads.example'')]"
    by code_simp+
  then obtain body where b: "replace_rule_at_line (Some sample_pack) 2 (''ads.example'', False) ''ads.example'' True 100 = Inr body"
    by (auto split: sum.splits)
  show ?thesis using replace_rule_in_place [OF b] f b by (auto simp: pack_rule_def)
qed

end
