(* ===== verification/Profile_Build.thy ===== *)
theory Profile_Build
  imports Filter_Engine Custom_Lists
begin

text \<open>
  Building resolved profiles from the configuration, \<open>profiles/profile.rs\<close>:
  \<open>ResolvedProfile::build_v1\<close>, the unfiltered variant, the binding to a compiled operator
  snapshot, per-device overlays and the direction a profile applies to a list
  (\<open>config/schema/blocklist.rs\<close>).  \<open>re_build\<close> compiles the regex of an admin rule.
\<close>

section \<open>Configuration\<close>

datatype list_direction = DirDeny | DirAllow | DirIgnore

record blocklist =
  bl_id :: string
  bl_url :: string
  bl_enabled :: bool
  bl_base :: list_direction

record config_profile =
  cf_block_response :: "block_response_v1 option"
  cf_blocked_ttl_secs :: "u32 option"
  cf_admin_rules :: "string list"
  cf_block_all :: bool
  cf_ecs :: "profile_ecs_config option"
  cf_rewrite_rules :: "rewrite_rule list"
  cf_safe_search :: bool
  cf_custom_lists :: "string list"
  cf_lists :: "string \<rightharpoonup> list_direction"

record admin_rule =
  ar_id :: string
  ar_rule :: string

record device =
  dv_id :: string
  dv_display_name :: string
  dv_ip :: "ip_addr option"
  dv_mac :: "string option"
  dv_mac_aliases :: "string list"
  dv_profile :: "string option"
  dv_groups :: "string list"
  dv_allow_rules :: "string list"
  dv_deny_rules :: "string list"
  dv_override_profile_deny :: bool
  dv_unfiltered :: bool
  dv_network_name :: "string option"
  dv_network_name_wildcard :: bool

record group =
  gr_id :: string
  gr_profile :: string
  gr_priority :: int
  gr_devices :: "string list"

record server_globals =
  sg_default_block_response :: block_response_v1
  sg_default_blocked_ttl_secs :: u32
  sg_default_profile :: "string option"
  sg_enforce_device_mac :: bool

type_synonym custom_list_store = "string \<rightharpoonup> compiled_custom_list"

definition effective_direction :: "config_profile \<Rightarrow> blocklist \<Rightarrow> list_direction" where
  "effective_direction p b = unwrap_or (bl_base b) (cf_lists p (bl_id b))"

definition resolve_profile_blocklist_ids :: "config_profile \<Rightarrow> blocklist list \<Rightarrow> string list" where
  "resolve_profile_blocklist_ids p bs =
     sort (map bl_id (filter (\<lambda>b. bl_enabled b \<and> effective_direction p b \<noteq> DirIgnore) bs))"

definition groups_for_device :: "device \<Rightarrow> group list \<Rightarrow> group list" where
  "groups_for_device d gs = filter (\<lambda>g. dv_id d \<in> set (gr_devices g) \<or> gr_id g \<in> set (dv_groups d)) gs"

section \<open>Profiles\<close>

text \<open>\<open>iter().map(|r| (&r.id, r)).collect()\<close>: a later row with the same id replaces an earlier one.\<close>

definition admin_rules_by_id :: "admin_rule list \<Rightarrow> (string \<rightharpoonup> admin_rule)" where
  "admin_rules_by_id rs = foldl (\<lambda>m r. m(ar_id r \<mapsto> r)) Map.empty rs"

text \<open>The \<open>match\<close> on a parsed rule: simple exact rules go to the sets, the rest to the vector.\<close>

definition sort_rule ::
  "string set \<times> string set \<times> 'c dns_rule list \<Rightarrow> 'c dns_rule \<Rightarrow> string set \<times> string set \<times> 'c dns_rule list"
where
  "sort_rule st r =
     (case st of (allow, deny, adv) \<Rightarrow>
       if is_simple_exact r then
         (case exact_domain r of
            None \<Rightarrow> st
          | Some d \<Rightarrow> (case action r of Allow \<Rightarrow> (insert d allow, deny, adv) | Block \<Rightarrow> (allow, insert d deny, adv)))
       else (allow, deny, adv @ [r]))"

definition profile_rules ::
  "(string \<Rightarrow> (string, 'c) result) \<Rightarrow> (string \<rightharpoonup> admin_rule) \<Rightarrow> string list \<Rightarrow> 'c dns_rule list"
where
  "profile_rules re_build by_id refs =
     concat (map (\<lambda>ref. case by_id ref of None \<Rightarrow> [] | Some def \<Rightarrow> parse_rules re_build (ar_rule def)) refs)"

definition build_v1 ::
  "(string \<Rightarrow> (string, 'c) result) \<Rightarrow> string \<Rightarrow> config_profile \<Rightarrow> (string \<rightharpoonup> admin_rule) \<Rightarrow> custom_list_store
     \<Rightarrow> server_globals \<Rightarrow> ('c, 'p) resolved_profile"
where
  "build_v1 re_build i profile by_id store server =
     (let (allow1, deny1, adv) =
        foldl (\<lambda>st ref. case by_id ref of
                 None \<Rightarrow> st
               | Some def \<Rightarrow> foldl sort_rule st (parse_rules re_build (ar_rule def)))
          ({}, {}, []) (cf_admin_rules profile);
          (allow2, deny2) =
            foldl (\<lambda>(a, d) ref. case store ref of
                     None \<Rightarrow> (a, d)
                   | Some c \<Rightarrow> (a \<union> set (cl_allow c), d \<union> set (cl_deny c)))
              (allow1, deny1) (cf_custom_lists profile);
          rewrites =
            (if cf_safe_search profile then rewrite_build (safesearch_populate (cf_rewrite_rules profile))
             else rewrite_build (cf_rewrite_rules profile))
      in \<lparr>rp_name = i, rp_unfiltered = False, rp_allow_domains = allow2, rp_deny_domains = deny2,
          rp_block_all = cf_block_all profile, rp_rules = adv,
          rp_block_response = unwrap_or (sg_default_block_response server) (cf_block_response profile),
          rp_blocked_ttl_secs = unwrap_or (sg_default_blocked_ttl_secs server) (cf_blocked_ttl_secs profile),
          rp_rewrite_rules = rewrites, rp_ecs_policy = ecs_OFF, rp_operator_rules = None\<rparr>)"

definition permissive_default :: "('c, 'p) resolved_profile" where
  "permissive_default =
     \<lparr>rp_name = ''default'', rp_unfiltered = True, rp_allow_domains = {}, rp_deny_domains = {},
      rp_block_all = False, rp_rules = [], rp_block_response = RespZero, rp_blocked_ttl_secs = 60,
      rp_rewrite_rules = \<lparr>forward = Map.empty, suffix_rules = [], has_subdomain_rules = False\<rparr>,
      rp_ecs_policy = ecs_OFF, rp_operator_rules = None\<rparr>"

definition as_unfiltered :: "('c, 'p) resolved_profile \<Rightarrow> ('c, 'p) resolved_profile" where
  "as_unfiltered p = p\<lparr>rp_unfiltered := True\<rparr>"

text \<open>\<open>Id::new(self.name)\<close> succeeds on a name that came from an \<open>Id\<close>.\<close>

definition bind_operator_rules ::
  "('c, 'p) resolved_profile \<Rightarrow> 'p compiled_operator_rules \<Rightarrow> ('c, 'p) resolved_profile"
where
  "bind_operator_rules p rules =
     p\<lparr>rp_operator_rules := profile_binding_new rules (rp_name p),
       rp_allow_domains := {}, rp_deny_domains := {}, rp_rules := []\<rparr>"

section \<open>Device overlays\<close>

record device_overlay =
  ov_device_id :: string
  ov_allow :: "string set"
  ov_deny :: "string set"
  ov_override_profile_deny :: bool

definition overlay_domains ::
  "(string \<Rightarrow> (string, 'c) result) \<Rightarrow> rule_action \<Rightarrow> (string \<rightharpoonup> admin_rule) \<Rightarrow> string list \<Rightarrow> string set"
where
  "overlay_domains re_build act by_id refs =
     foldl (\<lambda>s r. if action r = act \<and> is_simple_exact r
                  then (case exact_domain r of Some d \<Rightarrow> insert d s | None \<Rightarrow> s) else s)
       {} (profile_rules re_build by_id refs)"

definition overlay_build_v1 ::
  "(string \<Rightarrow> (string, 'c) result) \<Rightarrow> device \<Rightarrow> (string \<rightharpoonup> admin_rule) \<Rightarrow> device_overlay option"
where
  "overlay_build_v1 re_build d by_id =
     (if dv_allow_rules d = [] \<and> dv_deny_rules d = [] then None
      else
        (let allow = overlay_domains re_build Allow by_id (dv_allow_rules d);
             deny = overlay_domains re_build Block by_id (dv_deny_rules d)
         in if allow = {} \<and> deny = {} then None
            else Some \<lparr>ov_device_id = dv_id d, ov_allow = allow, ov_deny = deny,
                       ov_override_profile_deny = dv_override_profile_deny d\<rparr>))"

datatype attrib_source = AttribProfile | AttribDevice

datatype overlay_decision = OverlayAllow attrib_source bool | OverlayBlock attrib_source | FallThrough

record layer_hits =
  lh_profile_deny :: bool
  lh_device_allow :: bool
  lh_device_deny :: bool

definition apply_overlay :: "layer_hits \<Rightarrow> bool \<Rightarrow> overlay_decision" where
  "apply_overlay hits override =
     (if lh_device_allow hits \<and> lh_profile_deny hits then
        (if override then OverlayAllow AttribDevice True else OverlayBlock AttribProfile)
      else if lh_device_deny hits \<and> lh_profile_deny hits then OverlayBlock AttribProfile
      else if lh_device_deny hits then OverlayBlock AttribDevice
      else if lh_device_allow hits then OverlayAllow AttribDevice False
      else FallThrough)"

section \<open>The sets are an index\<close>

definition simple_domains :: "rule_action \<Rightarrow> 'c dns_rule list \<Rightarrow> string set" where
  "simple_domains a rs = {d. \<exists>r \<in> set rs. is_simple_exact r \<and> action r = a \<and> pattern r = Exact d}"

lemma simple_exact_domain: "is_simple_exact r \<Longrightarrow> exact_domain r = Some d \<longleftrightarrow> pattern r = Exact d"
  by (auto simp: is_simple_exact_def exact_domain_def split: rule_pattern.splits)

lemma is_simple_exact_iff: "is_simple_exact r \<longleftrightarrow> \<not> important r \<and> (\<exists>d. pattern r = Exact d)"
  by (auto simp: is_simple_exact_def split: rule_pattern.splits)

lemma foldl_sort_rule:
  "foldl sort_rule (A, D, adv) rs =
     (A \<union> simple_domains Allow rs, D \<union> simple_domains Block rs, adv @ filter (\<lambda>r. \<not> is_simple_exact r) rs)"
proof (induction rs arbitrary: A D adv)
  case (Cons r rs)
  show ?case
  proof (cases "is_simple_exact r")
    case True
    then obtain d where d: "pattern r = Exact d" "exact_domain r = Some d"
      by (auto simp: is_simple_exact_iff exact_domain_def)
    have "simple_domains a (r # rs) = (if action r = a then {d} else {}) \<union> simple_domains a rs" for a
      using True d(1) by (auto simp: simple_domains_def)
    then show ?thesis using True d(2) Cons by (cases "action r") (auto simp: sort_rule_def)
  next
    case False
    then have "simple_domains a (r # rs) = simple_domains a rs" for a by (auto simp: simple_domains_def)
    then show ?thesis using False Cons by (simp add: sort_rule_def)
  qed
qed (simp add: simple_domains_def)

lemma foldl_refs_concat:
  "foldl (\<lambda>st ref. case by_id ref of None \<Rightarrow> st | Some def \<Rightarrow> foldl sort_rule st (parse_rules re_build (ar_rule def))) st refs
     = foldl sort_rule st (profile_rules re_build by_id refs)"
  by (induction refs arbitrary: st) (auto simp: profile_rules_def split: option.splits)

definition custom_domains :: "(compiled_custom_list \<Rightarrow> string list) \<Rightarrow> custom_list_store \<Rightarrow> string list \<Rightarrow> string set" where
  "custom_domains sel store refs = {d. \<exists>ref \<in> set refs. \<exists>c. store ref = Some c \<and> d \<in> set (sel c)}"

lemma foldl_custom:
  "foldl (\<lambda>(a, d) ref. case store ref of None \<Rightarrow> (a, d) | Some c \<Rightarrow> (a \<union> set (cl_allow c), d \<union> set (cl_deny c))) (A, D) refs
     = (A \<union> custom_domains cl_allow store refs, D \<union> custom_domains cl_deny store refs)"
proof (induction refs arbitrary: A D)
  case (Cons ref refs)
  have "custom_domains sel store (ref # refs) =
      (case store ref of None \<Rightarrow> {} | Some c \<Rightarrow> set (sel c)) \<union> custom_domains sel store refs" for sel
    by (auto simp: custom_domains_def split: option.splits)
  then show ?case using Cons by (cases "store ref") (auto simp: Un_assoc)
qed (simp add: custom_domains_def)

lemma build_v1_fields:
  fixes re_build :: "string \<Rightarrow> (string, 'c) result" and i by_id profile store server
  defines "R \<equiv> profile_rules re_build by_id (cf_admin_rules profile)"
  defines "p \<equiv> build_v1 re_build i profile by_id store server :: ('c, 'p) resolved_profile"
  shows "rp_allow_domains p = simple_domains Allow R \<union> custom_domains cl_allow store (cf_custom_lists profile)"
    and "rp_deny_domains p = simple_domains Block R \<union> custom_domains cl_deny store (cf_custom_lists profile)"
    and "rp_rules p = filter (\<lambda>r. \<not> is_simple_exact r) R"
    and "rp_block_all p = cf_block_all profile" and "\<not> rp_unfiltered p" and "rp_name p = i"
  by (simp_all add: p_def build_v1_def R_def foldl_refs_concat foldl_sort_rule foldl_custom Let_def)

lemma rule_hit_split:
  "rule_hit re rs d i a \<longleftrightarrow>
     rule_hit re (filter (\<lambda>r. \<not> is_simple_exact r) rs) d i a \<or> (\<not> i \<and> (\<exists>s \<in> simple_domains a rs. covers s d))"
proof -
  have m: "rule_matches re r d \<longleftrightarrow> covers s d" if "pattern r = Exact s" for r s
    using that by (auto simp: rule_matches_def covers_def)
  have "(\<exists>r \<in> set rs. is_simple_exact r \<and> rule_matches re r d \<and> important r = i \<and> action r = a)
      \<longleftrightarrow> \<not> i \<and> (\<exists>s \<in> simple_domains a rs. covers s d)"
    unfolding simple_domains_def using m by (auto simp: is_simple_exact_iff)
  then show ?thesis unfolding rule_hit_def by auto
qed

text \<open>C28. Putting the simple rules of a profile into hash sets is only an index: outside
  \<open>block_all\<close>, the profile decides every name as one that keeps all its parsed rules in the
  scanned vector, with only the custom lists in the sets.\<close>

theorem rule_sets_are_an_index:
  fixes re_build :: "string \<Rightarrow> (string, 'c) result" and i by_id profile store server
  defines "p \<equiv> build_v1 re_build i profile by_id store server :: ('c, 'p) resolved_profile"
  assumes "\<not> cf_block_all profile"
  shows "evaluate hash re_is_match eng d p =
    evaluate hash re_is_match eng d
      (p\<lparr>rp_rules := profile_rules re_build by_id (cf_admin_rules profile),
         rp_allow_domains := custom_domains cl_allow store (cf_custom_lists profile),
         rp_deny_domains := custom_domains cl_deny store (cf_custom_lists profile)\<rparr>)"
proof -
  let ?R = "profile_rules re_build by_id (cf_admin_rules profile)"
  have "rule_hit re_is_match ?R d True a \<longleftrightarrow> rule_hit re_is_match (rp_rules p) d True a"
    and "rule_hit re_is_match ?R d False a \<longleftrightarrow>
      rule_hit re_is_match (rp_rules p) d False a \<or> (\<exists>s \<in> simple_domains a ?R. covers s d)" for a
    by (simp_all add: p_def build_v1_fields(3) rule_hit_split [of re_is_match ?R])
  then show ?thesis
    using assms(2)
    by (simp add: evaluate_def fst_evaluate_inner layered_verdict_def p_def build_v1_fields bex_Un Let_def disj_assoc)
qed

definition sample_config :: config_profile where
  "sample_config =
     \<lparr>cf_block_response = None, cf_blocked_ttl_secs = None, cf_admin_rules = [''a'', ''b''], cf_block_all = False,
      cf_ecs = None, cf_rewrite_rules = [], cf_safe_search = False, cf_custom_lists = [], cf_lists = Map.empty\<rparr>"

definition sample_admin_rules :: "string \<rightharpoonup> admin_rule" where
  "sample_admin_rules = admin_rules_by_id
     [\<lparr>ar_id = ''a'', ar_rule = ''||b.c^''\<rparr>, \<lparr>ar_id = ''b'', ar_rule = ''@@||a.b.c^$important''\<rparr>]"

definition sample_server :: server_globals where
  "sample_server = \<lparr>sg_default_block_response = RespZero, sg_default_blocked_ttl_secs = 60,
     sg_default_profile = None, sg_enforce_device_mac = True\<rparr>"

theorem rule_sets_are_an_index_witness:
  "evaluate (\<lambda>_. 0) (\<lambda>_ _. False) engine_new ''x.b.c''
       (build_v1 (\<lambda>_. Inr ()) ''p'' sample_config sample_admin_rules Map.empty sample_server :: (unit, unit) resolved_profile) =
     evaluate (\<lambda>_. 0) (\<lambda>_ _. False) engine_new ''x.b.c''
       (build_v1 (\<lambda>_. Inr ()) ''p'' sample_config sample_admin_rules Map.empty sample_server
          \<lparr>rp_rules := profile_rules (\<lambda>_. Inr ()) sample_admin_rules [''a'', ''b''],
           rp_allow_domains := custom_domains cl_allow Map.empty [],
           rp_deny_domains := custom_domains cl_deny Map.empty []\<rparr> :: (unit, unit) resolved_profile)"
  using rule_sets_are_an_index [of sample_config "\<lambda>_. 0" "\<lambda>_ _. False" engine_new "''x.b.c''" "\<lambda>_. Inr ()" "''p''"
      sample_admin_rules Map.empty sample_server]
  by (simp add: sample_config_def)

text \<open>An unfiltered device is let off the lists and nothing else: whatever the engine
  holds, the unfiltered variant of a profile blocks a name only if the profile itself does,
  and exactly the names its own rules, sets and \<open>block_all\<close> block.\<close>

theorem unfiltered_lifts_only_lists:
  "evaluate hash re_is_match eng d (as_unfiltered p) = layered_verdict re_is_match masks_default d p
   \<and> (evaluate hash re_is_match eng d (as_unfiltered p) = BlockQuery
        \<longrightarrow> evaluate hash re_is_match eng d p = BlockQuery)"
  by (simp add: as_unfiltered_def evaluate_def fst_evaluate_inner layered_verdict_def masks_default_def Let_def)

theorem unfiltered_lifts_only_lists_witness:
  "evaluate (\<lambda>_. 0) (\<lambda>_ _. False) engine_new ''a.b.c'' (as_unfiltered sample_profile) = BlockQuery
   \<and> evaluate (\<lambda>_. 0) (\<lambda>_ _. False) engine_new ''a.b.c'' sample_profile = BlockQuery"
proof -
  have "layered_verdict (\<lambda>_ _. False) masks_default ''a.b.c'' sample_profile = BlockQuery"
    by (simp add: layered_verdict_def sample_profile_def rule_hit_def rule_matches_def is_subdomain_of_def suffix_def)
  then show ?thesis
    using unfiltered_lifts_only_lists [of "\<lambda>_. 0" "\<lambda>_ _. False" engine_new "''a.b.c''" sample_profile] by simp
qed

end
