(* ===== verification/Schedules.thy ===== *)
theory Schedules
  imports Std_Net
begin

text \<open>
  Time windows, \<open>profiles/schedule.rs\<close> with the schema type of
  \<open>config/schema/schedule.rs\<close>: parsing of days and hours, the activity test and the
  conversion of \<open>libc\<close> local time.  An \<open>OffsetDateTime\<close> is its instant, an integer, and
  \<open>now_utc()\<close> is an argument.
\<close>

unbundle bit_operations_syntax

datatype schedule_target_type = TargetDevice | TargetGroup

record schedule =
  sv_id :: string
  sv_target_type :: schedule_target_type
  sv_target_id :: string
  sv_profile :: string
  sv_days :: "string list"
  sv_hours :: string
  sv_expires_at :: "int option"

record schedule_config =
  scc_client :: string
  scc_profile :: string
  scc_days :: "string list"
  scc_hours :: string
  scc_expires_at :: "int option"

record parsed_schedule =
  sc_client :: string
  sc_profile :: string
  sc_days :: u8
  sc_start_hour :: u8
  sc_start_min :: u8
  sc_end_hour :: u8
  sc_end_min :: u8
  sc_wraps_midnight :: bool
  sc_expires_at :: "int option"

section \<open>Parsing\<close>

definition day_mask :: "string \<Rightarrow> u8 option" where
  "day_mask spec =
     map_of [(''mon'', 1), (''tue'', 2), (''wed'', 4), (''thu'', 8), (''fri'', 16), (''sat'', 32), (''sun'', 64),
             (''weekdays'', 0x1F), (''weekends'', 0x60), (''all'', 0x7F)] (to_ascii_lowercase spec)"

fun days_loop :: "u8 \<Rightarrow> string list \<Rightarrow> u8 option" where
  "days_loop m [] = Some m"
| "days_loop m (spec # specs) =
     (case day_mask spec of None \<Rightarrow> None | Some b \<Rightarrow> days_loop (m OR b) specs)"

definition parse_days :: "string list \<Rightarrow> u8 option" where
  "parse_days specs =
     (case days_loop 0 specs of None \<Rightarrow> None | Some m \<Rightarrow> if m = 0 then None else Some m)"

definition parse_time :: "string \<Rightarrow> (u8 \<times> u8) option" where
  "parse_time s =
     (case split_on (CHR '':'') (trim s) of
        [a, b] \<Rightarrow>
          (case (parse_u8 a, parse_u8 b) of
             (Some h, Some m) \<Rightarrow> if 23 < h \<or> 59 < m then None else Some (h, m)
           | _ \<Rightarrow> None)
      | _ \<Rightarrow> None)"

definition parse_hours :: "string \<Rightarrow> (u8 \<times> u8 \<times> u8 \<times> u8) option" where
  "parse_hours hours =
     (case split_on (CHR ''-'') hours of
        [a, b] \<Rightarrow>
          (case (parse_time a, parse_time b) of
             (Some (sh, sm), Some (eh, em)) \<Rightarrow> Some (sh, sm, eh, em)
           | _ \<Rightarrow> None)
      | _ \<Rightarrow> None)"

definition minutes :: "u8 \<Rightarrow> u8 \<Rightarrow> u16" where
  "minutes h m = ucast h * 60 + ucast m"

text \<open>The shared body of \<open>parse\<close> and \<open>parse_v1\<close>.\<close>

definition parse_window ::
  "string \<Rightarrow> string \<Rightarrow> string list \<Rightarrow> string \<Rightarrow> int option \<Rightarrow> parsed_schedule option"
where
  "parse_window client profile days hours expires_at =
     (case parse_days days of
        None \<Rightarrow> None
      | Some d \<Rightarrow>
          (case parse_hours hours of
             None \<Rightarrow> None
           | Some (sh, sm, eh, em) \<Rightarrow>
               (let start_total = minutes sh sm; end_total = minutes eh em
                in if start_total = end_total \<and> start_total \<noteq> 0 then None
                   else Some
                     \<lparr>sc_client = client, sc_profile = profile, sc_days = d,
                      sc_start_hour = sh, sc_start_min = sm, sc_end_hour = eh, sc_end_min = em,
                      sc_wraps_midnight = (start_total \<ge> end_total), sc_expires_at = expires_at\<rparr>)))"

definition schedule_parse :: "schedule_config \<Rightarrow> parsed_schedule option" where
  "schedule_parse c = parse_window (scc_client c) (scc_profile c) (scc_days c) (scc_hours c) (scc_expires_at c)"

definition parse_v1 :: "schedule \<Rightarrow> parsed_schedule option" where
  "parse_v1 s = parse_window (sv_target_id s) (sv_profile s) (sv_days s) (sv_hours s) (sv_expires_at s)"

section \<open>Activity\<close>

definition is_expired :: "parsed_schedule \<Rightarrow> int \<Rightarrow> bool" where
  "is_expired s now_utc = (case sc_expires_at s of Some e \<Rightarrow> e \<le> now_utc | None \<Rightarrow> False)"

definition is_active :: "int \<Rightarrow> parsed_schedule \<Rightarrow> u8 \<Rightarrow> u8 \<Rightarrow> u8 \<Rightarrow> bool" where
  "is_active now_utc s weekday hour minute =
     (if (case sc_expires_at s of Some e \<Rightarrow> e \<le> now_utc | None \<Rightarrow> False) then False
      else if sc_days s AND push_bit (unat weekday) 1 = 0 then False
      else
        (let now = minutes hour minute;
             start = minutes (sc_start_hour s) (sc_start_min s);
             stop = minutes (sc_end_hour s) (sc_end_min s)
         in if sc_wraps_midnight s then now \<ge> start \<or> now < stop
            else now \<ge> start \<and> now < stop))"

definition active_schedule_profile ::
  "int \<Rightarrow> parsed_schedule list \<Rightarrow> string \<Rightarrow> u8 \<Rightarrow> u8 \<Rightarrow> u8 \<Rightarrow> string option"
where
  "active_schedule_profile now_utc schedules client weekday hour minute =
     map_option sc_profile
       (find (\<lambda>s. sc_client s = client \<and> is_active now_utc s weekday hour minute) schedules)"

section \<open>Local time\<close>

definition u8_in_range :: "int \<Rightarrow> int \<Rightarrow> u8" where
  "u8_in_range hi v = (if 0 \<le> v \<and> v \<le> 255 \<and> v \<le> hi then of_int v else 0)"

definition convert_libc_tm_components :: "int \<Rightarrow> int \<Rightarrow> int \<Rightarrow> u8 \<times> u8 \<times> u8" where
  "convert_libc_tm_components tm_wday tm_hour tm_min =
     ((if tm_wday = 0 then 6 else if 1 \<le> tm_wday \<and> tm_wday \<le> 6 then of_int (tm_wday - 1) else 0),
      u8_in_range 23 tm_hour, u8_in_range 59 tm_min)"

definition components_from_localtime :: "bool \<Rightarrow> int \<times> int \<times> int \<Rightarrow> u8 \<times> u8 \<times> u8" where
  "components_from_localtime is_null tm =
     (if is_null then (0, 0, 0)
      else case tm of (wday, hour, minute) \<Rightarrow> convert_libc_tm_components wday hour minute)"

section \<open>Parsed windows\<close>

lemma unat_minutes: "unat (minutes h m) = unat h * 60 + unat m"
proof -
  have "unat h < 256" "unat m < 256"
    using unsigned_less [of h, where 'a = nat] unsigned_less [of m, where 'a = nat] by simp_all
  moreover have "minutes h m = of_nat (unat h * 60 + unat m)" by (simp add: minutes_def)
  ultimately show ?thesis by (simp only: unat_of_nat) simp
qed

lemma parse_time_Some:
  "parse_time s = Some (h, m) \<Longrightarrow> unat h \<le> 23 \<and> unat m \<le> 59"
  by (auto simp: parse_time_def word_less_nat_alt split: list.splits option.splits if_splits)

lemma parse_hours_Some:
  "parse_hours s = Some (sh, sm, eh, em) \<Longrightarrow>
     unat sh \<le> 23 \<and> unat sm \<le> 59 \<and> unat eh \<le> 23 \<and> unat em \<le> 59"
  by (auto simp: parse_hours_def dest: parse_time_Some split: list.splits option.splits)

text \<open>Start and end of a parsed window, in minutes of the day.\<close>

definition window_start :: "parsed_schedule \<Rightarrow> nat" where
  "window_start s = unat (sc_start_hour s) * 60 + unat (sc_start_min s)"

definition window_end :: "parsed_schedule \<Rightarrow> nat" where
  "window_end s = unat (sc_end_hour s) * 60 + unat (sc_end_min s)"

definition schedule_wf :: "parsed_schedule \<Rightarrow> bool" where
  "schedule_wf s \<longleftrightarrow>
     sc_days s \<noteq> 0 \<and> (\<forall>i. bit (sc_days s) i \<longrightarrow> i < 7)
     \<and> window_start s < 1440 \<and> window_end s < 1440
     \<and> (window_start s = window_end s \<longrightarrow> window_start s = 0)
     \<and> (sc_wraps_midnight s \<longleftrightarrow> window_end s \<le> window_start s)"

text \<open>The days a word of the vocabulary stands for, Monday first.\<close>

definition days_of :: "string \<Rightarrow> nat set" where
  "days_of spec = {i. \<exists>b. day_mask spec = Some b \<and> bit b i}"

lemma day_mask_bits: "day_mask spec = Some b \<Longrightarrow> bit b i \<Longrightarrow> i < 7"
proof -
  assume b: "day_mask spec = Some b" "bit b i"
  have "b \<in> {1, 2, 4, 8, 16, 32, 64, 0x1F, 0x60, 0x7F}"
    using b(1) by (auto simp: day_mask_def split: if_splits)
  then have "\<not> bit b 7" by (auto simp: bit_numeral_word_iff)
  then have "i \<noteq> 7" using b(2) by auto
  moreover have "i < 8" using b(2) bit_imp_le_length [of b i] by simp
  ultimately show "i < 7" by simp
qed

lemma days_loop_Some:
  "days_loop m specs = Some m' \<Longrightarrow>
     (\<forall>spec \<in> set specs. day_mask spec \<noteq> None)
     \<and> (\<forall>i. bit m' i \<longleftrightarrow> bit m i \<or> (\<exists>spec \<in> set specs. i \<in> days_of spec))"
proof (induction specs arbitrary: m)
  case (Cons spec specs)
  obtain b where b: "day_mask spec = Some b" "days_loop (m OR b) specs = Some m'"
    using Cons.prems by (auto split: option.splits)
  show ?case using Cons.IH [OF b(2)] b(1) by (auto simp: bit_or_iff days_of_def)
qed simp

lemma parse_days_Some:
  assumes "parse_days specs = Some m"
  shows "m \<noteq> 0" "bit m i \<longleftrightarrow> (\<exists>spec \<in> set specs. i \<in> days_of spec)" "bit m i \<Longrightarrow> i < 7"
proof -
  have l: "days_loop 0 specs = Some m" "m \<noteq> 0"
    using assms by (auto simp: parse_days_def split: option.splits if_splits)
  show "m \<noteq> 0" by (rule l)
  show b: "bit m i \<longleftrightarrow> (\<exists>spec \<in> set specs. i \<in> days_of spec)" for i
    using days_loop_Some [OF l(1)] by simp
  show "bit m i \<Longrightarrow> i < 7" using b day_mask_bits by (auto simp: days_of_def)
qed

lemma parse_window_wf:
  assumes "parse_window client profile days hours e = Some s"
  shows "schedule_wf s"
proof -
  obtain sh sm eh em where "parse_days days = Some (sc_days s)" "parse_hours hours = Some (sh, sm, eh, em)"
    and s: "sc_start_hour s = sh" "sc_start_min s = sm" "sc_end_hour s = eh" "sc_end_min s = em"
      "sc_wraps_midnight s \<longleftrightarrow> minutes eh em \<le> minutes sh sm"
      "minutes sh sm = minutes eh em \<Longrightarrow> minutes sh sm = 0"
    using assms by (auto simp: parse_window_def Let_def split: option.splits if_splits)
  then show ?thesis
    using parse_days_Some [of days "sc_days s"] parse_hours_Some [of hours sh sm eh em]
    by (auto simp: schedule_wf_def window_start_def window_end_def word_le_nat_alt word_unat_eq_iff unat_minutes)
qed

lemma is_active_iff:
  "is_active now s weekday hour minute \<longleftrightarrow>
    \<not> is_expired s now \<and> bit (sc_days s) (unat weekday) \<and>
    (let t = unat hour * 60 + unat minute
     in if sc_wraps_midnight s then window_start s \<le> t \<or> t < window_end s
        else window_start s \<le> t \<and> t < window_end s)"
proof -
  have "sc_days s AND push_bit (unat weekday) 1 = 0 \<longleftrightarrow> \<not> bit (sc_days s) (unat weekday)"
    using bit_iff_and_push_bit_not_eq_0 [of "sc_days s" "unat weekday"] by simp
  then show ?thesis
    by (auto simp: is_active_def is_expired_def Let_def window_start_def window_end_def word_le_nat_alt
        word_less_nat_alt unat_minutes)
qed

lemma unat_small: "n < 256 \<Longrightarrow> unat (of_nat n :: u8) = n"
  by (simp add: unat_of_nat)

lemma active_at:
  assumes "d < 7" "t < 1440" "\<not> is_expired p now"
  shows "is_active now p (of_nat d) (of_nat (t div 60)) (of_nat (t mod 60)) \<longleftrightarrow>
    bit (sc_days p) d \<and>
    (if sc_wraps_midnight p then window_start p \<le> t \<or> t < window_end p
     else window_start p \<le> t \<and> t < window_end p)"
proof -
  have "unat (of_nat d :: u8) = d" "unat (of_nat (t div 60) :: u8) = t div 60" "unat (of_nat (t mod 60) :: u8) = t mod 60"
    using assms(1,2) by (intro unat_small; simp)+
  then show ?thesis using assms(3) by (simp add: is_active_iff Let_def)
qed

text \<open>On a listed day, a schedule that parses is active for exactly as many minutes as
  its hours say: the difference of end and start, around midnight when the end is not
  later, and the whole day for \<open>00:00-00:00\<close>.  No accepted window is empty.\<close>

theorem schedule_window_length:
  assumes "parse_v1 s = Some p" and "bit (sc_days p) d" and "\<not> is_expired p now"
  shows "card {t. t < 1440 \<and> is_active now p (of_nat d) (of_nat (t div 60)) (of_nat (t mod 60))} =
      (if window_start p < window_end p then window_end p - window_start p
       else 1440 - window_start p + window_end p)
    \<and> (\<exists>t < 1440. is_active now p (of_nat d) (of_nat (t div 60)) (of_nat (t mod 60)))"
proof -
  let ?A = "{t. t < 1440 \<and> is_active now p (of_nat d) (of_nat (t div 60)) (of_nat (t mod 60))}"
  let ?n = "if window_start p < window_end p then window_end p - window_start p else 1440 - window_start p + window_end p"
  have wf: "schedule_wf p" using parse_window_wf assms(1) by (simp add: parse_v1_def)
  have d: "d < 7" using wf assms(2) by (simp add: schedule_wf_def)
  have A: "?A = (if window_start p < window_end p then {window_start p..<window_end p}
      else {window_start p..<1440} \<union> {..<window_end p})"
    using wf assms(2) active_at [OF d _ assms(3)] by (auto simp: schedule_wf_def)
  have "card ?A = ?n"
  proof (cases "window_start p < window_end p")
    case False
    then have "{window_start p..<1440} \<inter> {..<window_end p} = {}" by auto
    then show ?thesis unfolding A using False wf by (simp add: schedule_wf_def card_Un_disjoint)
  qed (simp add: A)
  moreover have "0 < ?n" using wf by (auto simp: schedule_wf_def)
  ultimately have "0 < card ?A" by simp
  then have "?A \<noteq> {}" by (simp only: card_gt_0_iff not_False_eq_True)
  then show ?thesis using \<open>card ?A = ?n\<close> by blast
qed

definition sample_schedule :: schedule where
  "sample_schedule =
     \<lparr>sv_id = ''n'', sv_target_type = TargetGroup, sv_target_id = ''kids'', sv_profile = ''night'',
      sv_days = [''Fri''], sv_hours = ''22:00-06:30'', sv_expires_at = None\<rparr>"

lemma sample_schedule_parses:
  obtains p where "parse_v1 sample_schedule = Some p" "sc_days p = 16" "window_start p = 1320" "window_end p = 390"
    "sc_wraps_midnight p" "sc_expires_at p = None"
proof -
  have "case parse_v1 sample_schedule of None \<Rightarrow> False | Some p \<Rightarrow>
      sc_days p = 16 \<and> window_start p = 1320 \<and> window_end p = 390 \<and> sc_wraps_midnight p \<and> sc_expires_at p = None"
    by code_simp
  then show thesis using that by (auto split: option.splits)
qed

theorem schedule_window_length_witness:
  "\<exists>p. parse_v1 sample_schedule = Some p \<and>
     card {t. t < 1440 \<and> is_active 0 p (of_nat 4) (of_nat (t div 60)) (of_nat (t mod 60))} = 510"
proof (rule sample_schedule_parses)
  fix p assume p: "parse_v1 sample_schedule = Some p" "sc_days p = 16" "window_start p = 1320" "window_end p = 390"
    "sc_wraps_midnight p" "sc_expires_at p = None"
  have "bit (sc_days p) 4" "\<not> is_expired p 0" unfolding p(2) is_expired_def p(6) by code_simp+
  then show ?thesis using schedule_window_length [OF p(1)] p(1,3,4) by force
qed

text \<open>C29. A window that wraps around midnight is cut at midnight: on a listed day it is
  active in the early morning before its start, and it is not active after the midnight
  that follows unless the next day is listed as well.\<close>

theorem wrapped_window_stays_in_day:
  assumes "parse_v1 s = Some p" and "sc_wraps_midnight p" and "0 < window_end p" and "\<not> is_expired p now"
    and "bit (sc_days p) d" and "\<not> bit (sc_days p) ((d + 1) mod 7)"
  shows "is_active now p (of_nat d) 0 0 \<and> is_active now p (of_nat d) 23 59
    \<and> \<not> is_active now p (of_nat ((d + 1) mod 7)) 0 0"
proof -
  have wf: "schedule_wf p" using parse_window_wf assms(1) by (simp add: parse_v1_def)
  have d: "d < 7" using wf assms(5) by (simp add: schedule_wf_def)
  show ?thesis
    using active_at [OF d, of 0 p now] active_at [OF d, of 1439 p now] active_at [of "(d + 1) mod 7" 0 p now]
      assms wf by (simp add: schedule_wf_def)
qed

theorem wrapped_window_stays_in_day_witness:
  "\<exists>p. parse_v1 sample_schedule = Some p \<and> is_active 0 p (of_nat 4) 0 0 \<and> is_active 0 p (of_nat 4) 23 59
     \<and> \<not> is_active 0 p (of_nat 5) 0 0"
proof (rule sample_schedule_parses)
  fix p assume p: "parse_v1 sample_schedule = Some p" "sc_days p = 16" "window_start p = 1320" "window_end p = 390"
    "sc_wraps_midnight p" "sc_expires_at p = None"
  have b: "\<not> is_expired p 0" "bit (sc_days p) 4" "\<not> bit (sc_days p) ((4 + 1) mod 7)"
    unfolding p(2) is_expired_def p(6) by code_simp+
  have e: "0 < window_end p" unfolding p(4) by simp
  show ?thesis using wrapped_window_stays_in_day [OF p(1,5) e b] p(1) by auto
qed

text \<open>Whatever integers the C library leaves in \<open>tm\<close>, the weekday, hour and minute the
  matcher gets are in range, so its day shift never exceeds the mask; in-range fields are
  kept, with Sunday moved from the front of the week to its end.\<close>

theorem local_time_in_range:
  "case components_from_localtime is_null (wday, hour, minute) of
     (d, h, m) \<Rightarrow> d < 7 \<and> h < 24 \<and> m < 60 \<and>
       (if is_null then (d, h, m) = (0, 0, 0)
        else (wday \<in> {0..6} \<longrightarrow> uint d = (wday + 6) mod 7)
          \<and> (hour \<in> {0..23} \<longrightarrow> uint h = hour) \<and> (minute \<in> {0..59} \<longrightarrow> uint m = minute))"
proof -
  have r: "uint (of_int v :: u8) = v" if "0 \<le> v" "v < 256" for v
    using that by (simp add: uint_word_of_int)
  have small: "u8_in_range hi v < of_int (hi + 1)" if "0 \<le> hi" "hi < 255" for hi v
    using that r [of v] r [of "hi + 1"] by (auto simp: u8_in_range_def word_less_alt)
  have keep: "v \<in> {0..hi} \<Longrightarrow> hi < 255 \<Longrightarrow> uint (u8_in_range hi v) = v" for hi v
    using r [of v] by (auto simp: u8_in_range_def)
  have day: "wday \<in> {0..6} \<Longrightarrow> wday \<in> {0, 1, 2, 3, 4, 5, 6}" by auto
  have dless: "(if wday = 0 then 6 else if 1 \<le> wday \<and> wday \<le> 6 then of_int (wday - 1) else 0 :: u8) < 7"
    using r [of "wday - 1"] by (auto simp: word_less_alt)
  show ?thesis
    using small [of 23 hour] small [of 59 minute] keep [of hour 23] keep [of minute 59] day dless
    by (auto simp: components_from_localtime_def convert_libc_tm_components_def)
qed

theorem local_time_in_range_witness:
  "case components_from_localtime False (0, 99, 7) of
     (d, h, m) \<Rightarrow> uint d = (0 + 6) mod 7 \<and> h < 24 \<and> uint m = 7"
proof -
  have "(0 :: int) \<in> {0..6}" "(7 :: int) \<in> {0..59}" by simp_all
  then show ?thesis
    using local_time_in_range [of False 0 99 7] by (cases "components_from_localtime False (0, 99, 7)") auto
qed

end
