(* ===== verification/Profile_Resolver.thy ===== *)
theory Profile_Resolver
  imports Profile_Build Schedules
begin

text \<open>
  From a client address to a profile, \<open>profiles/resolver.rs\<close>: the resolver map built from the
  configuration and the five-level resolution.  Hash maps are HOL maps.  The ARP table read
  at build time is a list of address and MAC in the map's iteration order, the one read at
  query time a map; local time and \<open>now_utc\<close> are arguments.  The descriptive fields of a
  device (owner, type, department, notes) are not modelled: resolution does not read them.
\<close>

section \<open>State\<close>

datatype resolve_level = LevelDeviceDirect | LevelSchedule | LevelGroup | LevelSubnet | LevelGlobalDefault

fun level_as_str :: "resolve_level \<Rightarrow> string" where
  "level_as_str LevelDeviceDirect = ''device-direct''"
| "level_as_str LevelSchedule = ''schedule''"
| "level_as_str LevelGroup = ''group''"
| "level_as_str LevelSubnet = ''subnet''"
| "level_as_str LevelGlobalDefault = ''global-default''"

record policy_identity =
  pi_config_revision :: string
  pi_operator_policy_hash :: string
  pi_resolver_generation :: u64

record ('c, 'p) resolution =
  re_profile :: "('c, 'p) resolved_profile option"
  re_level :: "resolve_level option"
  re_device_id :: "string option"
  re_device_name :: "string option"
  re_matched_group :: "string option"
  re_matched_subnet :: "string option"
  re_matched_schedule :: "string option"
  re_policy_generation :: u64

definition refused :: "u64 \<Rightarrow> ('c, 'p) resolution" where
  "refused generation =
     \<lparr>re_profile = None, re_level = None, re_device_id = None, re_device_name = None,
      re_matched_group = None, re_matched_subnet = None, re_matched_schedule = None,
      re_policy_generation = generation\<rparr>"

record ('c, 'p) profile_pair =
  pp_filtered :: "('c, 'p) resolved_profile"
  pp_unfiltered :: "('c, 'p) resolved_profile"

definition pair_new :: "('c, 'p) resolved_profile \<Rightarrow> ('c, 'p) profile_pair" where
  "pair_new p = \<lparr>pp_filtered = p, pp_unfiltered = as_unfiltered p\<rparr>"

definition pair_pick :: "('c, 'p) profile_pair \<Rightarrow> bool \<Rightarrow> ('c, 'p) resolved_profile" where
  "pair_pick pp unfiltered = (if unfiltered then pp_unfiltered pp else pp_filtered pp)"

record ('c, 'p) device_index =
  di_id :: string
  di_display_name :: string
  di_configured_ip :: "ip_addr option"
  di_mac_pin :: "string option"
  di_mac_aliases :: "string list"
  di_direct_profile :: "('c, 'p) resolved_profile option"
  di_groups :: "string list"
  di_unfiltered :: bool
  di_network_name :: "string option"
  di_network_name_wildcard :: bool

record ('c, 'p) group_match =
  gm_id :: string
  gm_priority :: int
  gm_profile :: "('c, 'p) resolved_profile"

record ('c, 'p) subnet_match =
  sm_id :: string
  sm_cidr :: cidr
  sm_prefix :: u8
  sm_priority :: int
  sm_profile :: "('c, 'p) profile_pair"

record ('c, 'p) schedule_match =
  sh_id :: string
  sh_parsed :: parsed_schedule
  sh_profile :: "('c, 'p) resolved_profile"

record ('c, 'p) resolver_map =
  rm_policy_identity :: policy_identity
  rm_profiles :: "string \<rightharpoonup> ('c, 'p) resolved_profile"
  rm_devices_by_ip :: "ip_addr \<rightharpoonup> ('c, 'p) device_index"
  rm_devices_by_mac :: "string \<rightharpoonup> ('c, 'p) device_index"
  rm_devices_by_id :: "string \<rightharpoonup> ('c, 'p) device_index"
  rm_device_groups :: "string \<rightharpoonup> ('c, 'p) group_match list"
  rm_subnets :: "('c, 'p) subnet_match list"
  rm_active_schedule_by_device :: "string \<rightharpoonup> ('c, 'p) schedule_match"
  rm_default_profile :: "('c, 'p) profile_pair option"
  rm_enforce_mac :: bool
  rm_slug_to_id :: "string \<rightharpoonup> string"
  rm_network_names :: "string \<rightharpoonup> string"
  rm_network_name_wildcards :: "(string \<times> string) list"

record subnet =
  sn_id :: string
  sn_cidrs :: "string list"
  sn_profile :: string
  sn_priority :: int

record config_v1 =
  cg_profiles :: "(string \<times> config_profile) list"
  cg_admin_rules :: "admin_rule list"
  cg_devices :: "device list"
  cg_groups :: "group list"
  cg_subnets :: "subnet list"
  cg_schedules :: "schedule list"
  cg_blocklists :: "blocklist list"
  cg_server :: server_globals
  cg_upstream_ecs :: ecs_config

definition canonical_ip :: "ip_addr \<Rightarrow> ip_addr" where
  "canonical_ip ip =
     (case ip of
        V6 v6 \<Rightarrow> (case to_ipv4_mapped v6 of Some v4 \<Rightarrow> V4 v4 | None \<Rightarrow> ip)
      | V4 _ \<Rightarrow> ip)"

section \<open>Resolution\<close>

text \<open>Who is asking: a device pinned by address, checked against the live MAC, or a device
  known by the MAC at that address.\<close>

definition device_candidate ::
  "('c, 'p) resolver_map \<Rightarrow> (ip_addr \<rightharpoonup> string) \<Rightarrow> ip_addr \<Rightarrow> ('c, 'p) device_index option"
where
  "device_candidate m arp ip =
     (case rm_devices_by_ip m ip of
        Some dev \<Rightarrow>
          (case di_mac_pin dev of
             Some pin \<Rightarrow>
               if rm_enforce_mac m then
                 (case arp ip of
                    Some current \<Rightarrow> if current = pin then Some dev else None
                  | None \<Rightarrow> Some dev)
               else Some dev
           | None \<Rightarrow> if rm_enforce_mac m then None else Some dev)
      | None \<Rightarrow> Option.bind (arp ip) (rm_devices_by_mac m))"

text \<open>Levels 1 to 3, for an identified device: an active schedule, a profile of its own, its
  highest-priority group.\<close>

definition resolve_device :: "('c, 'p) resolver_map \<Rightarrow> ('c, 'p) device_index \<Rightarrow> ('c, 'p) resolution option" where
  "resolve_device m dev =
     (let found = (\<lambda>level profile grp sched.
        \<lparr>re_profile = Some profile, re_level = Some level, re_device_id = Some (di_id dev),
         re_device_name = Some (di_display_name dev), re_matched_group = grp, re_matched_subnet = None,
         re_matched_schedule = sched, re_policy_generation = pi_resolver_generation (rm_policy_identity m)\<rparr>)
      in case rm_active_schedule_by_device m (di_id dev) of
           Some hit \<Rightarrow> Some (found LevelSchedule (sh_profile hit) None (Some (sh_id hit)))
         | None \<Rightarrow>
             (case di_direct_profile dev of
                Some direct \<Rightarrow> Some (found LevelDeviceDirect direct None None)
              | None \<Rightarrow>
                  (case rm_device_groups m (di_id dev) of
                     Some (first # _) \<Rightarrow> Some (found LevelGroup (gm_profile first) (Some (gm_id first)) None)
                   | _ \<Rightarrow> None)))"

text \<open>Levels 4 and 5: the longest matching subnet, then the server default.\<close>

definition resolve_fallback ::
  "('c, 'p) resolver_map \<Rightarrow> ('c, 'p) device_index option \<Rightarrow> ip_addr \<Rightarrow> ('c, 'p) resolution"
where
  "resolve_fallback m candidate ip =
     (let generation = pi_resolver_generation (rm_policy_identity m);
          unfiltered_device = (case candidate of Some d \<Rightarrow> di_unfiltered d | None \<Rightarrow> False);
          found = (\<lambda>pair level sub.
            \<lparr>re_profile = Some (pair_pick pair unfiltered_device), re_level = Some level,
             re_device_id = map_option di_id candidate,
             re_device_name = map_option di_display_name candidate,
             re_matched_group = None, re_matched_subnet = sub, re_matched_schedule = None,
             re_policy_generation = generation\<rparr>)
      in case find (\<lambda>sn. cidr_contains (sm_cidr sn) ip) (rm_subnets m) of
           Some sn \<Rightarrow> found (sm_profile sn) LevelSubnet (Some (sm_id sn))
         | None \<Rightarrow>
             (case rm_default_profile m of
                Some pair \<Rightarrow> found pair LevelGlobalDefault None
              | None \<Rightarrow> refused generation))"

definition resolve ::
  "('c, 'p) resolver_map \<Rightarrow> (ip_addr \<rightharpoonup> string) \<Rightarrow> ip_addr \<Rightarrow> ('c, 'p) resolution"
where
  "resolve m arp ip0 =
     (let ip = canonical_ip ip0;
          candidate = device_candidate m arp ip
      in case Option.bind candidate (resolve_device m) of
           Some r \<Rightarrow> r
         | None \<Rightarrow> resolve_fallback m candidate ip)"

definition device_name :: "('c, 'p) resolver_map \<Rightarrow> ip_addr \<Rightarrow> string option" where
  "device_name m ip = map_option di_display_name (rm_devices_by_ip m (canonical_ip ip))"

definition default_profile :: "('c, 'p) resolver_map \<Rightarrow> ('c, 'p) resolved_profile option" where
  "default_profile m = map_option pp_filtered (rm_default_profile m)"

definition id_for_slug :: "('c, 'p) resolver_map \<Rightarrow> string \<Rightarrow> string option" where
  "id_for_slug m slug = rm_slug_to_id m slug"

section \<open>Building the map\<close>

definition to_ascii_upper :: "char \<Rightarrow> char" where
  "to_ascii_upper c = (if is_ascii_lowercase c then char_of (byte c - 32) else c)"

definition to_ascii_uppercase :: "string \<Rightarrow> string" where
  "to_ascii_uppercase s = map to_ascii_upper s"

definition collect_by :: "('a \<Rightarrow> string) \<Rightarrow> 'a list \<Rightarrow> (string \<rightharpoonup> 'a)" where
  "collect_by key xs = foldl (\<lambda>m x. m(key x \<mapsto> x)) Map.empty xs"

definition unfiltered_variant :: "device \<Rightarrow> ('c, 'p) resolved_profile \<Rightarrow> ('c, 'p) resolved_profile" where
  "unfiltered_variant d base = (if dv_unfiltered d then as_unfiltered base else base)"

text \<open>Every profile of the configuration, resolved once.  With an operator snapshot a profile
  the snapshot does not know is left out.\<close>

definition resolve_profile ::
  "(string \<Rightarrow> (string, 'c) result) \<Rightarrow> config_v1 \<Rightarrow> custom_list_store \<Rightarrow> 'p compiled_operator_rules option
     \<Rightarrow> string \<times> config_profile \<Rightarrow> (string \<times> ('c, 'p) resolved_profile) option"
where
  "resolve_profile re_build cfg store rules entry =
     (case entry of (raw_id, profile) \<Rightarrow>
        (case id_new raw_id of
           Inl _ \<Rightarrow> None
         | Inr i \<Rightarrow>
             (let resolved =
                (build_v1 re_build i profile (admin_rules_by_id (cg_admin_rules cfg)) store (cg_server cfg))
                  \<lparr>rp_ecs_policy := from_profile_and_upstream (cf_ecs profile) (cg_upstream_ecs cfg)\<rparr>
              in case rules of
                   None \<Rightarrow> Some (i, resolved)
                 | Some c \<Rightarrow>
                     (let bound = bind_operator_rules resolved c
                      in if rp_operator_rules bound = None then None else Some (i, bound)))))"

definition resolve_profiles ::
  "(string \<Rightarrow> (string, 'c) result) \<Rightarrow> config_v1 \<Rightarrow> custom_list_store \<Rightarrow> 'p compiled_operator_rules option
     \<Rightarrow> (string \<rightharpoonup> ('c, 'p) resolved_profile)"
where
  "resolve_profiles re_build cfg store rules =
     foldl (\<lambda>m entry. case resolve_profile re_build cfg store rules entry of
              None \<Rightarrow> m | Some (i, p) \<Rightarrow> m(i \<mapsto> p))
       Map.empty (cg_profiles cfg)"

subsection \<open>Devices\<close>

record ('c, 'p) device_maps =
  dm_by_ip :: "ip_addr \<rightharpoonup> ('c, 'p) device_index"
  dm_by_mac :: "string \<rightharpoonup> ('c, 'p) device_index"
  dm_by_id :: "string \<rightharpoonup> ('c, 'p) device_index"
  dm_names :: "string \<rightharpoonup> string"
  dm_wildcards :: "(string \<times> string) list"

definition index_device :: "(string \<rightharpoonup> ('c, 'p) resolved_profile) \<Rightarrow> device \<Rightarrow> ('c, 'p) device_index" where
  "index_device profiles d =
     \<lparr>di_id = dv_id d, di_display_name = dv_display_name d, di_configured_ip = dv_ip d,
      di_mac_pin = map_option to_ascii_uppercase (dv_mac d),
      di_mac_aliases = map to_ascii_uppercase (dv_mac_aliases d),
      di_direct_profile = map_option (unfiltered_variant d) (Option.bind (dv_profile d) profiles),
      di_groups = dv_groups d, di_unfiltered = dv_unfiltered d,
      di_network_name = map_option to_ascii_lowercase (dv_network_name d),
      di_network_name_wildcard = dv_network_name_wildcard d\<rparr>"

definition register_arp_ips ::
  "(ip_addr \<times> string) list \<Rightarrow> ('c, 'p) device_index \<Rightarrow> (ip_addr \<rightharpoonup> ('c, 'p) device_index) \<Rightarrow> string
     \<Rightarrow> (ip_addr \<rightharpoonup> ('c, 'p) device_index)"
where
  "register_arp_ips arp idx by_ip mac =
     foldl (\<lambda>m arp_ip. let ip = canonical_ip arp_ip in if m ip \<noteq> None then m else m(ip \<mapsto> idx))
       by_ip (map fst (filter (\<lambda>(_, arp_mac). arp_mac = mac) arp))"

definition device_macs :: "('c, 'p) device_index \<Rightarrow> string list" where
  "device_macs idx = (case di_mac_pin idx of Some pin \<Rightarrow> [pin] | None \<Rightarrow> []) @ di_mac_aliases idx"

definition add_device ::
  "(string \<rightharpoonup> ('c, 'p) resolved_profile) \<Rightarrow> (ip_addr \<times> string) list \<Rightarrow> ('c, 'p) device_maps \<Rightarrow> device
     \<Rightarrow> ('c, 'p) device_maps"
where
  "add_device profiles arp st d =
     (let idx = index_device profiles d;
          by_id = (dm_by_id st)(dv_id d \<mapsto> idx);
          (names, wildcards) =
            (case dv_network_name d of
               None \<Rightarrow> (dm_names st, dm_wildcards st)
             | Some name \<Rightarrow>
                 (let key = to_ascii_lowercase name
                  in ((dm_names st)(key \<mapsto> dv_id d),
                      if dv_network_name_wildcard d then dm_wildcards st @ [(key, dv_id d)] else dm_wildcards st)));
          by_ip = (case dv_ip d of None \<Rightarrow> dm_by_ip st | Some ip \<Rightarrow> (dm_by_ip st)(canonical_ip ip \<mapsto> idx));
          by_mac = foldl (\<lambda>m mac. m(mac \<mapsto> idx)) (dm_by_mac st) (device_macs idx)
      in \<lparr>dm_by_ip = foldl (register_arp_ips arp idx) by_ip (device_macs idx), dm_by_mac = by_mac,
          dm_by_id = by_id, dm_names = names, dm_wildcards = wildcards\<rparr>)"

definition dot_count :: "string \<Rightarrow> nat" where
  "dot_count s = length (filter (\<lambda>c. c = CHR ''.'') s)"

definition build_devices ::
  "(string \<rightharpoonup> ('c, 'p) resolved_profile) \<Rightarrow> (ip_addr \<times> string) list \<Rightarrow> device list \<Rightarrow> ('c, 'p) device_maps"
where
  "build_devices profiles arp ds =
     (let st = foldl (add_device profiles arp)
        \<lparr>dm_by_ip = Map.empty, dm_by_mac = Map.empty, dm_by_id = Map.empty, dm_names = Map.empty, dm_wildcards = []\<rparr> ds
      in st\<lparr>dm_wildcards := sort_key (\<lambda>(name, _). - int (dot_count name)) (dm_wildcards st)\<rparr>)"

subsection \<open>Groups\<close>

definition groups_from_devices ::
  "(string \<rightharpoonup> ('c, 'p) resolved_profile) \<Rightarrow> group list \<Rightarrow> device list \<Rightarrow> (string \<rightharpoonup> ('c, 'p) group_match list)"
where
  "groups_from_devices profiles gs ds =
     foldl (\<lambda>m d.
         foldl (\<lambda>m gid.
             case collect_by gr_id gs gid of
               None \<Rightarrow> m
             | Some g \<Rightarrow>
                 (case profiles (gr_profile g) of
                    None \<Rightarrow> m
                  | Some prof \<Rightarrow>
                      push_entry m (dv_id d)
                        \<lparr>gm_id = gr_id g, gm_priority = gr_priority g, gm_profile = unfiltered_variant d prof\<rparr>))
           m (dv_groups d))
       Map.empty ds"

definition add_group_members ::
  "(string \<rightharpoonup> ('c, 'p) resolved_profile) \<Rightarrow> device list \<Rightarrow> (string \<rightharpoonup> ('c, 'p) group_match list) \<Rightarrow> group
     \<Rightarrow> (string \<rightharpoonup> ('c, 'p) group_match list)"
where
  "add_group_members profiles ds m g =
     (case profiles (gr_profile g) of
        None \<Rightarrow> m
      | Some prof \<Rightarrow>
          foldl (\<lambda>m dev_id.
              if list_ex (\<lambda>x. gm_id x = gr_id g) (unwrap_or [] (m dev_id)) then m
              else push_entry m dev_id
                \<lparr>gm_id = gr_id g, gm_priority = gr_priority g,
                 gm_profile = (case collect_by dv_id ds dev_id of
                                 Some d \<Rightarrow> unfiltered_variant d prof | None \<Rightarrow> prof)\<rparr>)
            m (gr_devices g))"

definition build_device_groups ::
  "(string \<rightharpoonup> ('c, 'p) resolved_profile) \<Rightarrow> group list \<Rightarrow> device list \<Rightarrow> (string \<rightharpoonup> ('c, 'p) group_match list)"
where
  "build_device_groups profiles gs ds =
     (let m = foldl (add_group_members profiles ds) (groups_from_devices profiles gs ds) gs
      in (\<lambda>dev_id. map_option (sort_key (\<lambda>x. (- gm_priority x, gm_id x))) (m dev_id)))"

subsection \<open>Subnets and schedules\<close>

definition build_subnets ::
  "(string \<rightharpoonup> ('c, 'p) resolved_profile) \<Rightarrow> subnet list \<Rightarrow> ('c, 'p) subnet_match list"
where
  "build_subnets profiles sns =
     sort_key (\<lambda>x. (- int (unat (sm_prefix x)), - sm_priority x, sm_id x))
       (concat (map (\<lambda>sn.
           case profiles (sn_profile sn) of
             None \<Rightarrow> []
           | Some base \<Rightarrow>
               List.map_filter (\<lambda>c. case cidr_parse c of
                   Inl _ \<Rightarrow> None
                 | Inr cidr \<Rightarrow>
                     Some \<lparr>sm_id = sn_id sn, sm_cidr = cidr, sm_prefix = cidr_prefix_len cidr,
                           sm_priority = sn_priority sn, sm_profile = pair_new base\<rparr>)
                 (sn_cidrs sn))
          sns))"

definition schedules_for ::
  "(string \<rightharpoonup> ('c, 'p) resolved_profile) \<Rightarrow> schedule_target_type \<Rightarrow> schedule list
     \<Rightarrow> (string \<rightharpoonup> ('c, 'p) schedule_match list)"
where
  "schedules_for profiles target scs =
     foldl (\<lambda>m sc.
         case profiles (sv_profile sc) of
           None \<Rightarrow> m
         | Some prof \<Rightarrow>
             (case parse_v1 sc of
                None \<Rightarrow> m
              | Some parsed \<Rightarrow>
                  if sv_target_type sc = target
                  then push_entry m (sv_target_id sc) \<lparr>sh_id = sv_id sc, sh_parsed = parsed, sh_profile = prof\<rparr>
                  else m))
       Map.empty scs"

definition compute_active_schedule ::
  "int \<Rightarrow> (string \<rightharpoonup> ('c, 'p) group_match list) \<Rightarrow> (string \<rightharpoonup> ('c, 'p) schedule_match list)
     \<Rightarrow> (string \<rightharpoonup> ('c, 'p) schedule_match list) \<Rightarrow> u8 \<times> u8 \<times> u8 \<Rightarrow> string \<Rightarrow> ('c, 'p) schedule_match option"
where
  "compute_active_schedule now_utc groups by_device by_group time dev_id =
     (case time of (weekday, hour, minute) \<Rightarrow>
        (let active = find (\<lambda>s. is_active now_utc (sh_parsed s) weekday hour minute)
         in case Option.bind (by_device dev_id) active of
              Some s \<Rightarrow> Some s
            | None \<Rightarrow>
                Option.bind (groups dev_id) (\<lambda>gms.
                  case find (\<lambda>gm. Option.bind (by_group (gm_id gm)) active \<noteq> None) gms of
                    None \<Rightarrow> None
                  | Some gm \<Rightarrow> Option.bind (by_group (gm_id gm)) active)))"

definition build_slug_to_id_map :: "blocklist list \<Rightarrow> (string \<rightharpoonup> string)" where
  "build_slug_to_id_map bs =
     foldl (\<lambda>m b.
         let m' = m(bl_id b \<mapsto> bl_id b)
         in case find_char (CHR ''-'') (bl_id b) of
              None \<Rightarrow> m'
            | Some i \<Rightarrow> m'(take i (bl_id b) @ ''/'' @ drop (Suc i) (bl_id b) \<mapsto> bl_id b))
       Map.empty bs"

definition build_resolver_map ::
  "(string \<Rightarrow> (string, 'c) result) \<Rightarrow> config_v1 \<Rightarrow> custom_list_store \<Rightarrow> 'p compiled_operator_rules option
     \<Rightarrow> policy_identity \<Rightarrow> (ip_addr \<times> string) list \<Rightarrow> int \<Rightarrow> u8 \<times> u8 \<times> u8 \<Rightarrow> ('c, 'p) resolver_map"
where
  "build_resolver_map re_build cfg store rules ident arp now_utc time =
     (let profiles = resolve_profiles re_build cfg store rules;
          devs = build_devices profiles arp (cg_devices cfg);
          groups = build_device_groups profiles (cg_groups cfg) (cg_devices cfg);
          by_device = schedules_for profiles TargetDevice (cg_schedules cfg);
          by_group = schedules_for profiles TargetGroup (cg_schedules cfg);
          active = (\<lambda>dev_id.
            if dm_by_id devs dev_id = None then None
            else map_option (\<lambda>s. case collect_by dv_id (cg_devices cfg) dev_id of
                     Some d \<Rightarrow> s\<lparr>sh_profile := unfiltered_variant d (sh_profile s)\<rparr> | None \<Rightarrow> s)
                   (compute_active_schedule now_utc groups by_device by_group time dev_id))
      in \<lparr>rm_policy_identity = ident, rm_profiles = profiles,
          rm_devices_by_ip = dm_by_ip devs, rm_devices_by_mac = dm_by_mac devs, rm_devices_by_id = dm_by_id devs,
          rm_device_groups = groups, rm_subnets = build_subnets profiles (cg_subnets cfg),
          rm_active_schedule_by_device = active,
          rm_default_profile = map_option pair_new (Option.bind (sg_default_profile (cg_server cfg)) profiles),
          rm_enforce_mac = sg_enforce_device_mac (cg_server cfg),
          rm_slug_to_id = build_slug_to_id_map (cg_blocklists cfg),
          rm_network_names = dm_names devs, rm_network_name_wildcards = dm_wildcards devs\<rparr>)"

end
