(* ===== verification/Local_Records.thy ===== *)
theory Local_Records
  imports Dns_Records Rewrite_Rules
begin

text \<open>
  Static records the daemon answers itself: the global table of \<open>dns/local.rs\<close> and the tables
  of a profile, \<open>dns/local_profile.rs\<close>.  Parsing a wire name and printing one are operations of
  the DNS library, \<open>parse_name\<close> and \<open>to_ascii\<close>.
\<close>

section \<open>Configuration\<close>

datatype local_dns_record_type = LocalA | LocalAAAA | LocalCNAME

record local_dns_record =
  ld_domain :: string
  ld_record_type :: local_dns_record_type
  ld_value :: string
  ld_match_subdomains :: bool
  ld_ttl_secs :: "u32 option"

record local_dns_config =
  lc_ttl_secs :: u32
  lc_dynamic_ttl_secs :: u32
  lc_nodata_for_missing_types :: bool
  lc_records :: "local_dns_record list"

section \<open>Shared helpers\<close>

type_synonym 'n record_map = "string \<rightharpoonup> 'n dns_record list"

text \<open>\<open>entry(key).or_default().push(record)\<close> on a table of groups that is turned into a list; the order
  of its groups is not observable.\<close>

fun push_group :: "(string \<times> 'a list) list \<Rightarrow> string \<Rightarrow> 'a \<Rightarrow> (string \<times> 'a list) list" where
  "push_group [] key r = [(key, [r])]"
| "push_group ((k, rs) # gs) key r = (if k = key then (k, rs @ [r]) # gs else (k, rs) # push_group gs key r)"

definition by_depth :: "(string \<times> 'a) list \<Rightarrow> (string \<times> 'a) list" where
  "by_depth = sort_key (\<lambda>(key, _). - int (label_count key))"

definition records_suffix_lookup :: "(string \<times> 'a) list \<Rightarrow> string \<Rightarrow> 'a option" where
  "records_suffix_lookup index sfx = map_option snd (find (\<lambda>(key, _). key = sfx) index)"

text \<open>The names the loop \<open>while let Some((_, rest)) = current.split_once('.')\<close> probes.\<close>

function ancestors :: "string \<Rightarrow> string list" where
  "ancestors current =
     (case split_once (CHR ''.'') current of
        None \<Rightarrow> []
      | Some (_, rest) \<Rightarrow> rest # (if rest = [] \<or> CHR ''.'' \<notin> set rest then [] else ancestors rest))"
  by pat_completeness auto
termination
  by (relation "measure length") (auto simp: split_once_shorter)

declare ancestors.simps [simp del]

definition ipv4_to_ptr :: "u32 \<Rightarrow> string" where
  "ipv4_to_ptr ip =
     show_nat (octet 3 ip) @ ''.'' @ show_nat (octet 2 ip) @ ''.'' @ show_nat (octet 1 ip) @ ''.'' @ show_nat (octet 0 ip)
       @ ''.in-addr.arpa''"

definition hex_digit :: "nat \<Rightarrow> char" where
  "hex_digit n = char_of (if n < 10 then 48 + n else 87 + n)"

text \<open>The nibbles of the sixteen-bit segments, most significant first, reversed.\<close>

definition ipv6_to_ptr :: "u128 \<Rightarrow> string" where
  "ipv6_to_ptr ip =
     (let segs = map (\<lambda>i. unat (drop_bit (16 * (7 - i)) ip) mod 2 ^ 16) [0..<8];
          nibbles = concat (map (\<lambda>seg. [seg div 2 ^ 12 mod 16, seg div 2 ^ 8 mod 16, seg div 2 ^ 4 mod 16, seg mod 16]) segs)
      in concat (map (\<lambda>n. [hex_digit n, CHR ''.'']) (rev nibbles)) @ ''ip6.arpa'')"

definition reowned :: "'n dns_record \<Rightarrow> 'n option \<Rightarrow> 'n dns_record" where
  "reowned record owner = (case owner of Some name \<Rightarrow> record\<lparr>dr_name := name\<rparr> | None \<Rightarrow> record)"

text \<open>\<open>str::parse::<Ipv6Addr>\<close>.\<close>

definition ipv6_from_str :: "string \<Rightarrow> u128 option" where
  "ipv6_from_str s = parse_with read_ipv6_addr s"

text \<open>The record of an entry; \<^term>\<open>None\<close> where the loop continues with the next entry.\<close>

definition entry_record :: "(string \<Rightarrow> 'n option) \<Rightarrow> u32 \<Rightarrow> local_dns_record \<Rightarrow> 'n dns_record option" where
  "entry_record parse_name default_ttl entry =
     (let domain = canonicalize_domain (ld_domain entry);
          ttl = unwrap_or default_ttl (ld_ttl_secs entry)
      in case parse_name (domain @ ''.'') of
           None \<Rightarrow> None
         | Some name \<Rightarrow>
             map_option (from_rdata name ttl)
               (case ld_record_type entry of
                  LocalA \<Rightarrow> map_option RdA (ipv4_from_str (ld_value entry))
                | LocalAAAA \<Rightarrow> map_option RdAAAA (ipv6_from_str (ld_value entry))
                | LocalCNAME \<Rightarrow> map_option RdCname (parse_name (canonicalize_domain (ld_value entry) @ ''.''))))"

section \<open>The global table\<close>

record 'n local_data =
  lt_forward :: "'n record_map"
  lt_reverse :: "'n record_map"
  lt_suffix_index :: "(string \<times> 'n dns_record list) list"
  lt_has_subdomain_records :: bool
  lt_ttl :: u32
  lt_nodata_for_missing_types :: bool

datatype 'n local_answer = LocalHit "'n dns_record list" string | NodataSynthesis u32 | LocalMiss

text \<open>The reverse record of an address record.\<close>

definition reverse_record :: "(string \<Rightarrow> 'n option) \<Rightarrow> 'n dns_record \<Rightarrow> (string \<times> 'n dns_record) option" where
  "reverse_record parse_name record =
     (case (case dr_data record of RdA ip \<Rightarrow> Some (ipv4_to_ptr ip) | RdAAAA ip \<Rightarrow> Some (ipv6_to_ptr ip) | _ \<Rightarrow> None) of
        None \<Rightarrow> None
      | Some ptr_domain \<Rightarrow>
          map_option (\<lambda>ptr_name. (ptr_domain, from_rdata ptr_name (dr_ttl record) (RdPtr (dr_name record))))
            (parse_name (ptr_domain @ ''.'')))"

definition add_local_entry ::
  "(string \<Rightarrow> 'n option) \<Rightarrow> u32
     \<Rightarrow> 'n record_map \<times> 'n record_map \<times> (string \<times> 'n dns_record list) list \<Rightarrow> local_dns_record
     \<Rightarrow> 'n record_map \<times> 'n record_map \<times> (string \<times> 'n dns_record list) list"
where
  "add_local_entry parse_name default_ttl tables entry =
     (case entry_record parse_name default_ttl entry of
        None \<Rightarrow> tables
      | Some record \<Rightarrow>
          (let (fwd, reverse, groups) = tables;
               key = canonicalize_domain (ld_domain entry);
               reverse = (case reverse_record parse_name record of
                            Some (ptr_domain, ptr_record) \<Rightarrow> push_entry reverse ptr_domain ptr_record
                          | None \<Rightarrow> reverse);
               groups = (if ld_match_subdomains entry then push_group groups key record else groups)
           in (push_entry fwd key record, reverse, groups)))"

definition build_data :: "(string \<Rightarrow> 'n option) \<Rightarrow> local_dns_config \<Rightarrow> 'n local_data" where
  "build_data parse_name config =
     (let (fwd, reverse, groups) =
        foldl (add_local_entry parse_name (lc_ttl_secs config)) (Map.empty, Map.empty, []) (lc_records config)
      in \<lparr>lt_forward = fwd, lt_reverse = reverse, lt_suffix_index = by_depth groups,
          lt_has_subdomain_records = (by_depth groups \<noteq> []), lt_ttl = lc_ttl_secs config,
          lt_nodata_for_missing_types = lc_nodata_for_missing_types config\<rparr>)"

text \<open>A CNAME with the records of its target, when that is local.\<close>

definition follow_cname ::
  "('n \<Rightarrow> string) \<Rightarrow> record_type \<Rightarrow> 'n record_map \<Rightarrow> 'n option \<Rightarrow> 'n dns_record list \<Rightarrow> 'n dns_record list option"
where
  "follow_cname to_ascii qtype fwd owner records =
     (if qtype \<noteq> RtA \<and> qtype \<noteq> RtAAAA then None
      else case find (\<lambda>r. dr_type r = RtCNAME) records of
        None \<Rightarrow> None
      | Some cname_rec \<Rightarrow>
          (case dr_data cname_rec of
             RdCname target \<Rightarrow>
               Some (reowned cname_rec owner
                 # (case fwd (ascii_domain to_ascii target) of
                      Some target_records \<Rightarrow> filter (\<lambda>r. dr_type r = qtype) target_records
                    | None \<Rightarrow> []))
           | _ \<Rightarrow> None))"

definition resolve_forward ::
  "('n \<Rightarrow> string) \<Rightarrow> 'n local_data \<Rightarrow> 'n dns_record list \<Rightarrow> record_type \<Rightarrow> 'n option \<Rightarrow> string \<Rightarrow> 'n local_answer"
where
  "resolve_forward to_ascii data records qtype owner apex =
     (let matched = map (\<lambda>r. reowned r owner) (filter (\<lambda>r. dr_type r = qtype) records)
      in if matched \<noteq> [] then LocalHit matched apex
         else case follow_cname to_ascii qtype (lt_forward data) owner records of
                Some result \<Rightarrow> LocalHit result apex
              | None \<Rightarrow> if lt_nodata_for_missing_types data then NodataSynthesis (lt_ttl data) else LocalMiss)"

definition ptr_apex :: "('n \<Rightarrow> string) \<Rightarrow> 'n dns_record list \<Rightarrow> string" where
  "ptr_apex to_ascii records =
     (case records of [] \<Rightarrow> [] | r # _ \<Rightarrow> (case dr_data r of RdPtr target \<Rightarrow> ascii_domain to_ascii target | _ \<Rightarrow> []))"

definition local_lookup ::
  "(string \<Rightarrow> 'n option) \<Rightarrow> ('n \<Rightarrow> string) \<Rightarrow> 'n local_data \<Rightarrow> string \<Rightarrow> record_type \<Rightarrow> 'n local_answer"
where
  "local_lookup parse_name to_ascii data domain qtype =
     (case lt_forward data domain of
        Some records \<Rightarrow> resolve_forward to_ascii data records qtype None domain
      | None \<Rightarrow>
          (case (if lt_has_subdomain_records data \<and> qtype \<in> {RtA, RtAAAA, RtCNAME}
                 then find (\<lambda>apex. records_suffix_lookup (lt_suffix_index data) apex \<noteq> None) (ancestors domain)
                 else None) of
             Some apex \<Rightarrow>
               resolve_forward to_ascii data (the (records_suffix_lookup (lt_suffix_index data) apex)) qtype
                 (parse_name (domain @ ''.'')) apex
           | None \<Rightarrow>
               (if qtype = RtPTR
                then case lt_reverse data domain of
                       Some records \<Rightarrow> LocalHit records (ptr_apex to_ascii records)
                     | None \<Rightarrow> LocalMiss
                else LocalMiss)))"

section \<open>The table of a profile\<close>

record 'n profile_local_records =
  pl_forward :: "'n record_map"
  pl_suffix_index :: "(string \<times> 'n dns_record list) list"
  pl_has_subdomain_records :: bool

definition add_profile_entry ::
  "(string \<Rightarrow> 'n option) \<Rightarrow> u32 \<Rightarrow> 'n record_map \<times> (string \<times> 'n dns_record list) list \<Rightarrow> local_dns_record
     \<Rightarrow> 'n record_map \<times> (string \<times> 'n dns_record list) list"
where
  "add_profile_entry parse_name default_ttl tables entry =
     (case entry_record parse_name default_ttl entry of
        None \<Rightarrow> tables
      | Some record \<Rightarrow>
          (let key = canonicalize_domain (ld_domain entry)
           in (push_entry (fst tables) key record,
               if ld_match_subdomains entry then push_group (snd tables) key record else snd tables)))"

definition profile_local_build ::
  "(string \<Rightarrow> 'n option) \<Rightarrow> local_dns_record list \<Rightarrow> u32 \<Rightarrow> 'n profile_local_records"
where
  "profile_local_build parse_name records default_ttl =
     (let (fwd, groups) = foldl (add_profile_entry parse_name default_ttl) (Map.empty, []) records
      in \<lparr>pl_forward = fwd, pl_suffix_index = by_depth groups, pl_has_subdomain_records = (by_depth groups \<noteq> [])\<rparr>)"

definition filter_or_cname_follow ::
  "('n \<Rightarrow> string) \<Rightarrow> 'n dns_record list \<Rightarrow> record_type \<Rightarrow> 'n record_map \<Rightarrow> 'n option \<Rightarrow> 'n dns_record list option"
where
  "filter_or_cname_follow to_ascii records qtype fwd owner =
     (let direct = map (\<lambda>r. reowned r owner) (filter (\<lambda>r. dr_type r = qtype) records)
      in if direct \<noteq> [] then Some direct else follow_cname to_ascii qtype fwd owner records)"

text \<open>The suffix walk of a profile goes on when an ancestor has no records for the question.\<close>

fun profile_walk ::
  "('n \<Rightarrow> string) \<Rightarrow> 'n profile_local_records \<Rightarrow> record_type \<Rightarrow> 'n option \<Rightarrow> string list
     \<Rightarrow> ('n dns_record list \<times> string) option"
where
  "profile_walk to_ascii t qtype owner [] = None"
| "profile_walk to_ascii t qtype owner (current # rest) =
     (case Option.bind (records_suffix_lookup (pl_suffix_index t) current)
             (\<lambda>records. filter_or_cname_follow to_ascii records qtype (pl_forward t) owner) of
        Some matched \<Rightarrow> Some (matched, current)
      | None \<Rightarrow> profile_walk to_ascii t qtype owner rest)"

definition lookup_with_apex ::
  "(string \<Rightarrow> 'n option) \<Rightarrow> ('n \<Rightarrow> string) \<Rightarrow> 'n profile_local_records \<Rightarrow> string \<Rightarrow> record_type
     \<Rightarrow> ('n dns_record list \<times> string) option"
where
  "lookup_with_apex parse_name to_ascii t domain qtype =
     (if qtype \<notin> {RtA, RtAAAA, RtCNAME} then None
      else case Option.bind (pl_forward t domain)
                  (\<lambda>records. filter_or_cname_follow to_ascii records qtype (pl_forward t) None) of
             Some matched \<Rightarrow> Some (matched, domain)
           | None \<Rightarrow>
               (if \<not> pl_has_subdomain_records t then None
                else profile_walk to_ascii t qtype (parse_name (domain @ ''.'')) (ancestors domain)))"

section \<open>The walk and the tables\<close>

lemma set_ancestors: "s \<in> set (ancestors q) \<longleftrightarrow> (\<exists>p. q = p @ CHR ''.'' # s)"
proof (induction q rule: ancestors.induct)
  case (1 q)
  show ?case
  proof (cases "split_once (CHR ''.'') q")
    case None
    then have "CHR ''.'' \<notin> set q" by (simp add: split_once_def find_char_None_iff split: option.splits)
    with None show ?thesis by (subst ancestors.simps) auto
  next
    case (Some ab)
    then obtain a b where s: "split_once (CHR ''.'') q = Some (a, b)" by (cases ab) auto
    then have q: "q = a @ CHR ''.'' # b" "CHR ''.'' \<notin> set a" by (simp_all add: split_once_Some_iff)
    have rest: "s \<in> set (if b = [] \<or> CHR ''.'' \<notin> set b then [] else ancestors b) \<longleftrightarrow> (\<exists>p. b = p @ CHR ''.'' # s)"
      using 1 [OF s refl] by auto
    have "(\<exists>p. q = p @ CHR ''.'' # s) \<longleftrightarrow> s = b \<or> (\<exists>p. b = p @ CHR ''.'' # s)"
      using q(2) unfolding q(1) append_eq_append_conv2 by (auto simp: Cons_eq_append_conv append_eq_Cons_conv)
    then show ?thesis using rest s by (subst ancestors.simps) auto
  qed
qed

lemma map_of_push_group: "map_of (push_group gs key r) = push_entry (map_of gs) key r"
  by (induction gs key r rule: push_group.induct) (auto simp: push_entry_def fun_upd_twist)

lemma map_of_sort_key: "distinct (map fst xs) \<Longrightarrow> map_of (sort_key f xs) = map_of xs"
  by (rule map_of_inject_set [THEN iffD2]) (auto simp: distinct_map inj_on_def)

lemma records_suffix_lookup_map_of: "records_suffix_lookup index s = map_of index s"
  by (induction index) (auto simp: records_suffix_lookup_def)

lemma fst_push_group: "fst ` set (push_group gs key r) = insert key (fst ` set gs)"
  by (induction gs key r rule: push_group.induct) auto

lemma distinct_push_group: "distinct (map fst gs) \<Longrightarrow> distinct (map fst (push_group gs key r))"
  by (induction gs key r rule: push_group.induct) (auto simp: fst_push_group)

text \<open>Every entry with a record has it in the tables, and nothing else is there.\<close>

definition holds_record :: "(string \<rightharpoonup> 'a list) \<Rightarrow> string \<Rightarrow> 'a \<Rightarrow> bool" where
  "holds_record m key r \<longleftrightarrow> (\<exists>rs. m key = Some rs \<and> r \<in> set rs)"

lemma holds_push: "holds_record (push_entry m k x) key r \<longleftrightarrow> holds_record m key r \<or> (k = key \<and> x = r)"
  unfolding holds_record_def by (rule push_entry_holds)

definition entry_key :: "local_dns_record \<Rightarrow> string" where
  "entry_key e = canonicalize_domain (ld_domain e)"

definition tables_for ::
  "(string \<Rightarrow> 'n option) \<Rightarrow> u32 \<Rightarrow> local_dns_record list
     \<Rightarrow> 'n record_map \<times> 'n record_map \<times> (string \<times> 'n dns_record list) list \<Rightarrow> bool"
where
  "tables_for parse_name ttl es = (\<lambda>(fwd, rvs, groups).
     (\<forall>key r. holds_record fwd key r \<longleftrightarrow> (\<exists>e \<in> set es. entry_record parse_name ttl e = Some r \<and> entry_key e = key))
     \<and> (\<forall>key r. holds_record rvs key r \<longleftrightarrow>
          (\<exists>e \<in> set es. \<exists>a. entry_record parse_name ttl e = Some a \<and> reverse_record parse_name a = Some (key, r)))
     \<and> (\<forall>key r. holds_record (map_of groups) key r \<longleftrightarrow>
          (\<exists>e \<in> set es. entry_record parse_name ttl e = Some r \<and> entry_key e = key \<and> ld_match_subdomains e))
     \<and> (\<forall>key rs. fwd key = Some rs \<or> rvs key = Some rs \<or> map_of groups key = Some rs \<longrightarrow> rs \<noteq> [])
     \<and> distinct (map fst groups))"

lemma tables_for_step:
  assumes "tables_for parse_name ttl es T"
  shows "tables_for parse_name ttl (es @ [e]) (add_local_entry parse_name ttl T e)"
proof (cases "entry_record parse_name ttl e")
  case None
  then show ?thesis using assms by (simp add: add_local_entry_def tables_for_def case_prod_unfold)
next
  case (Some r)
  obtain fwd rvs groups where T: "T = (fwd, rvs, groups)" by (cases T) auto
  define rvs' where "rvs' = (case reverse_record parse_name r of
      Some (ptr_domain, ptr_record) \<Rightarrow> push_entry rvs ptr_domain ptr_record | None \<Rightarrow> rvs)"
  define groups' where "groups' = (if ld_match_subdomains e then push_group groups (entry_key e) r else groups)"
  have step: "add_local_entry parse_name ttl T e = (push_entry fwd (entry_key e) r, rvs', groups')"
    by (simp add: add_local_entry_def Some T rvs'_def groups'_def entry_key_def Let_def)
  have 1: "holds_record rvs' key x \<longleftrightarrow> holds_record rvs key x \<or> reverse_record parse_name r = Some (key, x)" for key x
    by (cases "reverse_record parse_name r") (auto simp: rvs'_def holds_push)
  have 2: "holds_record (map_of groups') key x \<longleftrightarrow>
      holds_record (map_of groups) key x \<or> (ld_match_subdomains e \<and> entry_key e = key \<and> r = x)" for key x
    by (auto simp: groups'_def map_of_push_group holds_push)
  have hf: "holds_record fwd key x \<longleftrightarrow> (\<exists>e \<in> set es. entry_record parse_name ttl e = Some x \<and> entry_key e = key)"
    and hr: "holds_record rvs key x \<longleftrightarrow>
      (\<exists>e \<in> set es. \<exists>a. entry_record parse_name ttl e = Some a \<and> reverse_record parse_name a = Some (key, x))"
    and hg: "holds_record (map_of groups) key x \<longleftrightarrow>
      (\<exists>e \<in> set es. entry_record parse_name ttl e = Some x \<and> entry_key e = key \<and> ld_match_subdomains e)"
    and ne: "fwd key = Some rs \<Longrightarrow> rs \<noteq> []" "rvs key = Some rs \<Longrightarrow> rs \<noteq> []" "map_of groups key = Some rs \<Longrightarrow> rs \<noteq> []"
    and dis: "distinct (map fst groups)" for key x rs
    using assms unfolding T tables_for_def prod.case by simp_all
  have 3: "push_entry fwd (entry_key e) r key = Some rs \<Longrightarrow> rs \<noteq> []" "rvs' key = Some rs \<Longrightarrow> rs \<noteq> []"
    "map_of groups' key = Some rs \<Longrightarrow> rs \<noteq> []" for key rs
    unfolding rvs'_def groups'_def map_of_push_group
    using push_entry_ne [of fwd "entry_key e" r key rs] push_entry_ne [of "map_of groups" "entry_key e" r key rs]
      push_entry_ne [of rvs _ _ key rs] ne [of key rs]
    by (auto simp: map_of_push_group split: option.splits if_splits prod.splits)
  have 4: "distinct (map fst groups')"
    using dis unfolding groups'_def by (simp add: distinct_push_group)
  show ?thesis
    unfolding step tables_for_def prod.case 1 2 holds_push hf hr hg
    using 3 4 by (simp add: Some bex_Un) blast
qed

lemma tables_for_all:
  "tables_for parse_name ttl es (foldl (add_local_entry parse_name ttl) (Map.empty, Map.empty, []) es)"
proof (induction es rule: rev_induct)
  case Nil
  show ?case by (simp add: tables_for_def holds_record_def)
qed (simp add: tables_for_step)

lemma build_data_holds:
  fixes parse_name :: "string \<Rightarrow> 'n option"
  defines "data \<equiv> \<lambda>config. build_data parse_name config"
  assumes "e \<in> set (lc_records config)" "entry_record parse_name (lc_ttl_secs config) e = Some r"
  shows "holds_record (lt_forward (data config)) (entry_key e) r"
    and "reverse_record parse_name r = Some (key, x) \<Longrightarrow> holds_record (lt_reverse (data config)) key x"
    and "ld_match_subdomains e \<Longrightarrow> holds_record (records_suffix_lookup (lt_suffix_index (data config))) (entry_key e) r"
proof -
  obtain fwd rvs groups where T:
    "foldl (add_local_entry parse_name (lc_ttl_secs config)) (Map.empty, Map.empty, []) (lc_records config) = (fwd, rvs, groups)"
    by (cases "foldl (add_local_entry parse_name (lc_ttl_secs config)) (Map.empty, Map.empty, []) (lc_records config)") auto
  note tf = tables_for_all [of parse_name "lc_ttl_secs config" "lc_records config", unfolded T tables_for_def prod.case]
  have d: "lt_forward (data config) = fwd" "lt_reverse (data config) = rvs" "lt_suffix_index (data config) = by_depth groups"
    by (simp_all add: data_def build_data_def T)
  show "holds_record (lt_forward (data config)) (entry_key e) r" unfolding d using tf assms(2,3) by blast
  show "reverse_record parse_name r = Some (key, x) \<Longrightarrow> holds_record (lt_reverse (data config)) key x"
    unfolding d using tf assms(2,3) by blast
  have "records_suffix_lookup (by_depth groups) = map_of groups"
    using tf by (auto simp: records_suffix_lookup_map_of by_depth_def map_of_sort_key)
  then show "ld_match_subdomains e \<Longrightarrow> holds_record (records_suffix_lookup (lt_suffix_index (data config))) (entry_key e) r"
    unfolding d using tf assms(2,3) by auto
qed

lemma build_data_flags:
  "lt_nodata_for_missing_types (build_data parse_name config) = lc_nodata_for_missing_types config"
  "lt_has_subdomain_records (build_data parse_name config) \<longleftrightarrow> lt_suffix_index (build_data parse_name config) \<noteq> []"
  by (simp_all add: build_data_def case_prod_unfold Let_def)

lemma build_data_forward_keys:
  assumes "lt_forward (build_data parse_name config) key = Some rs"
  shows "\<exists>e \<in> set (lc_records config). entry_key e = key"
proof -
  obtain fwd rvs groups where T:
    "foldl (add_local_entry parse_name (lc_ttl_secs config)) (Map.empty, Map.empty, []) (lc_records config) = (fwd, rvs, groups)"
    by (cases "foldl (add_local_entry parse_name (lc_ttl_secs config)) (Map.empty, Map.empty, []) (lc_records config)") auto
  note tf = tables_for_all [of parse_name "lc_ttl_secs config" "lc_records config", unfolded T tables_for_def prod.case]
  have "fwd key = Some rs" using assms by (simp add: build_data_def T)
  then obtain r where "holds_record fwd key r" using tf unfolding holds_record_def by (metis list.set_sel(1))
  then show ?thesis using tf by blast
qed

section \<open>Properties\<close>

text \<open>The reverse name of an address, read off its dotted text: the four numbers in reverse order.\<close>

definition reverse_name :: "nat list \<Rightarrow> string" where
  "reverse_name ns = join_with (CHR ''.'') (map show_nat (rev ns) @ [''in-addr'', ''arpa''])"

lemma octets_of:
  assumes "a < 256" "b < 256" "c < 256" "d < 256"
  obtains ip where "octet 0 ip = a" "octet 1 ip = b" "octet 2 ip = c" "octet 3 ip = d"
proof -
  define n where "n = ((a * 256 + b) * 256 + c) * 256 + d"
  have "n < 2 ^ 32" using assms by (simp add: n_def)
  then have "unat (of_nat n :: u32) = n" by (simp add: unat_of_nat take_bit_nat_eq_self)
  then have u: "unat (of_nat n :: u32) = ((a * 256 + b) * 256 + c) * 256 + d" by (simp only: n_def)
  have o: "octet 0 ip = unat ip div 256 div 256 div 256 mod 256" "octet 1 ip = unat ip div 256 div 256 mod 256"
    "octet 2 ip = unat ip div 256 mod 256" "octet 3 ip = unat ip mod 256" for ip
    by (simp_all add: octet_def div_mult2_eq [symmetric])
  have dm: "(x * 256 + y) div 256 = x" "(x * 256 + y) mod 256 = y" if "y < 256" for x y :: nat
    using that by simp_all
  show thesis
    by (rule that [of "of_nat n"]) (simp_all only: o u dm [OF assms(1)] dm [OF assms(2)] dm [OF assms(3)] dm [OF assms(4)]
        mod_less [OF assms(1)])
qed

lemma dotted_address:
  assumes "length ns = 4" "\<forall>n \<in> set ns. n < 256"
  obtains ip where "ipv4_from_str (join_with (CHR ''.'') (map show_nat ns)) = Some ip" "ipv4_to_ptr ip = reverse_name ns"
proof -
  obtain a b c d where ns: "ns = [a, b, c, d]" using assms(1) by (auto simp: numeral_eq_Suc length_Suc_conv)
  obtain ip where o: "octet 0 ip = a" "octet 1 ip = b" "octet 2 ip = c" "octet 3 ip = d"
    using assms(2) octets_of [of a b c d] by (auto simp: ns)
  have "join_with (CHR ''.'') (map show_nat ns) = show_ipv4 ip"
    unfolding show_ipv4_def o by (simp add: ns join_with_Cons)
  moreover have "ipv4_to_ptr ip = reverse_name ns"
    unfolding ipv4_to_ptr_def o by (simp add: ns reverse_name_def join_with_Cons)
  ultimately show thesis using that [of ip] by simp
qed

text \<open>Forward and reverse agree.  A configured address record answers for its name with the
  address, and a PTR query for the reverse name of that address leads back to the name, unless a
  record is configured at the reverse name itself.\<close>

lemma configured_address_reverses:
  assumes "e \<in> set (lc_records config)" "ld_record_type e = LocalA" "ipv4_from_str (ld_value e) = Some ip"
    and "parse_name (entry_key e @ ''.'') = Some name" "parse_name (ipv4_to_ptr ip @ ''.'') = Some ptr"
    and "\<forall>e' \<in> set (lc_records config). entry_key e' \<noteq> ipv4_to_ptr ip"
  defines "ttl \<equiv> unwrap_or (lc_ttl_secs config) (ld_ttl_secs e)"
  shows "\<exists>answers apex ptrs apex'.
    local_lookup parse_name to_ascii (build_data parse_name config) (entry_key e) RtA = LocalHit answers apex
    \<and> from_rdata name ttl (RdA ip) \<in> set answers
    \<and> local_lookup parse_name to_ascii (build_data parse_name config) (ipv4_to_ptr ip) RtPTR = LocalHit ptrs apex'
    \<and> from_rdata ptr ttl (RdPtr name) \<in> set ptrs"
proof -
  let ?data = "build_data parse_name config" and ?r = "from_rdata name ttl (RdA ip)"
  have r: "entry_record parse_name (lc_ttl_secs config) e = Some ?r"
    using assms(2-4) by (simp add: entry_record_def entry_key_def ttl_def Let_def)
  have "reverse_record parse_name ?r = Some (ipv4_to_ptr ip, from_rdata ptr ttl (RdPtr name))"
    using assms(5) by (simp add: reverse_record_def from_rdata_def)
  from build_data_holds(2) [OF assms(1) r this] obtain ptrs
    where ptrs: "lt_reverse ?data (ipv4_to_ptr ip) = Some ptrs" "from_rdata ptr ttl (RdPtr name) \<in> set ptrs"
    by (auto simp: holds_record_def)
  have "lt_forward ?data (ipv4_to_ptr ip) = None"
    using build_data_forward_keys [of parse_name config] assms(6) by (metis option.exhaust)
  then have rev_hit: "local_lookup parse_name to_ascii ?data (ipv4_to_ptr ip) RtPTR = LocalHit ptrs (ptr_apex to_ascii ptrs)"
    by (simp add: local_lookup_def ptrs)
  obtain rs where rs: "lt_forward ?data (entry_key e) = Some rs" "?r \<in> set rs"
    using build_data_holds(1) [OF assms(1) r] by (auto simp: holds_record_def)
  have t: "dr_type ?r = RtA" by (simp add: from_rdata_def)
  let ?answers = "map (\<lambda>r. reowned r None) (filter (\<lambda>r. dr_type r = RtA) rs)"
  have in_answers: "?r \<in> set ?answers" using rs(2) t by (auto simp: reowned_def)
  then have "?answers \<noteq> []" by (metis empty_iff list.set(1))
  then have "local_lookup parse_name to_ascii ?data (entry_key e) RtA = LocalHit ?answers (entry_key e)"
    by (simp add: local_lookup_def rs resolve_forward_def Let_def)
  with in_answers rev_hit ptrs(2) show ?thesis by blast
qed

text \<open>C17. Forward and reverse agree.  A record configured with the address \<open>a.b.c.d\<close> answers for its
  name with that address, and a PTR query for \<open>d.c.b.a.in-addr.arpa\<close> leads back to the name,
  unless a record is configured at the reverse name itself.\<close>

theorem local_address_reverses:
  assumes "e \<in> set (lc_records config)" "ld_record_type e = LocalA"
    and "length ns = 4" "\<forall>n \<in> set ns. n < 256" "ld_value e = join_with (CHR ''.'') (map show_nat ns)"
    and "parse_name (entry_key e @ ''.'') = Some name" "parse_name (reverse_name ns @ ''.'') = Some ptr"
    and "\<forall>e' \<in> set (lc_records config). entry_key e' \<noteq> reverse_name ns"
  defines "ttl \<equiv> unwrap_or (lc_ttl_secs config) (ld_ttl_secs e)"
  shows "\<exists>ip answers apex ptrs apex'. ipv4_from_str (ld_value e) = Some ip
    \<and> local_lookup parse_name to_ascii (build_data parse_name config) (entry_key e) RtA = LocalHit answers apex
    \<and> from_rdata name ttl (RdA ip) \<in> set answers
    \<and> local_lookup parse_name to_ascii (build_data parse_name config) (reverse_name ns) RtPTR = LocalHit ptrs apex'
    \<and> from_rdata ptr ttl (RdPtr name) \<in> set ptrs"
proof -
  obtain ip where ip: "ipv4_from_str (ld_value e) = Some ip" "ipv4_to_ptr ip = reverse_name ns"
    using dotted_address [OF assms(3,4)] assms(5) by metis
  show ?thesis
    using configured_address_reverses [where parse_name = parse_name and to_ascii = to_ascii, OF assms(1,2) ip(1) assms(6), unfolded ip(2), OF assms(7,8)] ip(1)
    unfolding ttl_def by blast
qed

text \<open>C18. Names of the operator do not leak.  With \<open>nodata_for_missing_types\<close>, a query of any type
  for a configured name, and one for an address or alias of a name below a wildcard record, is
  answered from the table and never passed on.\<close>

theorem local_names_never_missed:
  assumes "lc_nodata_for_missing_types config"
    and "e \<in> set (lc_records config)" "entry_record parse_name (lc_ttl_secs config) e \<noteq> None"
    and "d = entry_key e \<or> ld_match_subdomains e \<and> qtype \<in> {RtA, RtAAAA, RtCNAME} \<and> (\<exists>p. d = p @ CHR ''.'' # entry_key e)"
  shows "local_lookup parse_name to_ascii (build_data parse_name config) d qtype \<noteq> LocalMiss"
proof -
  let ?data = "build_data parse_name config"
  obtain r where r: "entry_record parse_name (lc_ttl_secs config) e = Some r" using assms(3) by blast
  have hit: "resolve_forward to_ascii ?data rs qtype owner apex \<noteq> LocalMiss" for rs owner apex
    using assms(1) by (auto simp: resolve_forward_def build_data_flags Let_def split: option.splits)
  show ?thesis
  proof (cases "lt_forward ?data d")
    case None
    then have "d \<noteq> entry_key e" using build_data_holds(1) [OF assms(2) r] by (auto simp: holds_record_def)
    with assms(4) have w: "ld_match_subdomains e" "qtype \<in> {RtA, RtAAAA, RtCNAME}" "entry_key e \<in> set (ancestors d)"
      by (auto simp: set_ancestors)
    have "records_suffix_lookup (lt_suffix_index ?data) (entry_key e) \<noteq> None"
      using build_data_holds(3) [OF assms(2) r w(1)] by (auto simp: holds_record_def)
    then have "find (\<lambda>apex. records_suffix_lookup (lt_suffix_index ?data) apex \<noteq> None) (ancestors d) \<noteq> None"
      "lt_suffix_index ?data \<noteq> []"
      using w(3) by (auto simp: find_None_iff records_suffix_lookup_def)
    then show ?thesis
      using None w(2) hit by (auto simp: local_lookup_def build_data_flags split: option.splits)
  next
    case (Some rs)
    then show ?thesis by (simp add: local_lookup_def hit)
  qed
qed

section \<open>A sample\<close>

definition plain_parse :: "string \<Rightarrow> string list option" where
  "plain_parse s = Some (filter (\<lambda>l. l \<noteq> []) (split_on CHR ''.'' s))"

definition plain_ascii :: "string list \<Rightarrow> string" where
  "plain_ascii ls = join_with (CHR ''.'') ls @ ''.''"

definition sample_nas :: local_dns_record where
  "sample_nas = \<lparr>ld_domain = ''nas.home'', ld_record_type = LocalA, ld_value = ''10.0.0.7'', ld_match_subdomains = True,
     ld_ttl_secs = None\<rparr>"

definition sample_local :: local_dns_config where
  "sample_local = \<lparr>lc_ttl_secs = 3600, lc_dynamic_ttl_secs = 30, lc_nodata_for_missing_types = True, lc_records = [sample_nas]\<rparr>"

theorem local_address_reverses_witness:
  "\<exists>ptrs apex. local_lookup plain_parse plain_ascii (build_data plain_parse sample_local) ''7.0.0.10.in-addr.arpa'' RtPTR =
     LocalHit ptrs apex \<and> from_rdata [''7'', ''0'', ''0'', ''10'', ''in-addr'', ''arpa''] 3600 (RdPtr [''nas'', ''home'']) \<in> set ptrs"
proof -
  have c: "entry_key sample_nas = ''nas.home''" "ld_value sample_nas = join_with (CHR ''.'') (map show_nat [10, 0, 0, 7])"
    "reverse_name [10, 0, 0, 7] = ''7.0.0.10.in-addr.arpa''" "plain_parse (''nas.home'' @ ''.'') = Some [''nas'', ''home'']"
    "plain_parse (''7.0.0.10.in-addr.arpa'' @ ''.'') = Some [''7'', ''0'', ''0'', ''10'', ''in-addr'', ''arpa'']"
    by code_simp+
  have e: "sample_nas \<in> set (lc_records sample_local)" "ld_record_type sample_nas = LocalA"
    "unwrap_or (lc_ttl_secs sample_local) (ld_ttl_secs sample_nas) = 3600"
    by (simp_all add: sample_local_def sample_nas_def)
  have n: "length [10, 0, 0, 7 :: nat] = 4" "\<forall>n \<in> set [10, 0, 0, 7]. n < (256 :: nat)" by simp_all
  have "\<forall>e' \<in> set (lc_records sample_local). entry_key e' \<noteq> ''7.0.0.10.in-addr.arpa''"
    by (simp add: sample_local_def c(1))
  from local_address_reverses [OF e(1,2) n c(2), unfolded c(1,3), OF c(4,5) this, of plain_ascii]
  show ?thesis unfolding e(3) by blast
qed

theorem local_names_never_missed_witness:
  "local_lookup plain_parse plain_ascii (build_data plain_parse sample_local) ''nas.home'' RtTXT \<noteq> LocalMiss
   \<and> local_lookup plain_parse plain_ascii (build_data plain_parse sample_local) ''www.nas.home'' RtAAAA \<noteq> LocalMiss"
proof -
  have c: "entry_key sample_nas = ''nas.home''" "entry_record plain_parse 3600 sample_nas \<noteq> None" by code_simp+
  have e: "lc_nodata_for_missing_types sample_local" "sample_nas \<in> set (lc_records sample_local)"
    "lc_ttl_secs sample_local = 3600" "ld_match_subdomains sample_nas"
    by (simp_all add: sample_local_def sample_nas_def)
  note missed = local_names_never_missed [OF e(1,2), unfolded e(3) c(1), OF c(2), where to_ascii = plain_ascii]
  have "''www.nas.home'' = ''www'' @ CHR ''.'' # ''nas.home''" by simp
  then have "\<exists>p. ''www.nas.home'' = p @ CHR ''.'' # ''nas.home''" by blast
  with e(4) have "''www.nas.home'' = ''nas.home'' \<or> ld_match_subdomains sample_nas \<and> RtAAAA \<in> {RtA, RtAAAA, RtCNAME}
      \<and> (\<exists>p. ''www.nas.home'' = p @ CHR ''.'' # ''nas.home'')" by blast
  from missed [OF this] missed [OF disjI1 [OF refl], of RtTXT] show ?thesis by blast
qed

end
