(* ===== verification/Network_Names.thy ===== *)
theory Network_Names
  imports Profile_Resolver Local_Records
begin

text \<open>
  Names of devices on the network, answered from the neighbour table: the lookups of
  \<open>profiles/resolver.rs\<close>.  The neighbour table is the list of its entries, in the order the
  table iterates.  The early return for a configuration without names is not written out; the
  walk below finds nothing then.
\<close>

definition network_name_device_id :: "('c, 'p) resolver_map \<Rightarrow> string \<Rightarrow> string option" where
  "network_name_device_id m qname =
     (case rm_network_names m qname of
        Some device_id \<Rightarrow> Some device_id
      | None \<Rightarrow>
          Option.bind (find (\<lambda>current. records_suffix_lookup (rm_network_name_wildcards m) current \<noteq> None) (ancestors qname))
            (records_suffix_lookup (rm_network_name_wildcards m)))"

definition network_name_is_configured :: "('c, 'p) resolver_map \<Rightarrow> string \<Rightarrow> bool" where
  "network_name_is_configured m qname \<longleftrightarrow> network_name_device_id m (to_ascii_lowercase qname) \<noteq> None"

definition resolve_network_name :: "('c, 'p) resolver_map \<Rightarrow> (ip_addr \<times> string) list \<Rightarrow> string \<Rightarrow> ip_addr option" where
  "resolve_network_name m arp qname =
     (case Option.bind (network_name_device_id m (to_ascii_lowercase qname)) (rm_devices_by_id m) of
        None \<Rightarrow> None
      | Some dev \<Rightarrow>
          (case di_configured_ip dev of
             Some ip \<Rightarrow> Some ip
           | None \<Rightarrow>
               (let at = (\<lambda>mac. map fst (filter (\<lambda>(_, arp_mac). arp_mac = mac) arp));
                    candidates = concat (map at (device_macs dev))
                in case sort candidates of [] \<Rightarrow> None | ip # _ \<Rightarrow> Some ip)))"

text \<open>A device without a pinned address is answered with the least address at which one of its
  MACs is seen; the order of the neighbour table plays no part.\<close>

lemma resolve_network_name_least:
  assumes "network_name_device_id m (to_ascii_lowercase q) = Some i" "rm_devices_by_id m i = Some dev" "di_configured_ip dev = None"
  shows "resolve_network_name m arp q =
    (let seen = {ip. \<exists>mac \<in> set (device_macs dev). (ip, mac) \<in> set arp} in if seen = {} then None else Some (Min seen))"
proof -
  let ?cs = "concat (map (\<lambda>mac. map fst (filter (\<lambda>(_, arp_mac). arp_mac = mac) arp)) (device_macs dev))"
  have s: "set ?cs = {ip. \<exists>mac \<in> set (device_macs dev). (ip, mac) \<in> set arp}" by force
  have "(case sort ?cs of [] \<Rightarrow> None | ip # _ \<Rightarrow> Some ip) = (if set ?cs = {} then None else Some (Min (set ?cs)))"
  proof (cases "sort ?cs")
    case Nil
    then have "set (sort ?cs) = {}" by simp
    then have "set ?cs = {}" by (simp only: set_sort)
    then show ?thesis using Nil by simp
  next
    case (Cons a as)
    then have "set ?cs = insert a (set as)" "\<forall>x \<in> set as. a \<le> x"
      using set_sort [of "\<lambda>x. x" ?cs] sorted_sort [of ?cs] by auto
    then show ?thesis using Cons by (simp add: Min_insert2)
  qed
  then show ?thesis unfolding s using assms by (simp add: resolve_network_name_def Let_def)
qed

end
