(* ===== verification/Answer_Cache.thy ===== *)
theory Answer_Cache
  imports Dns_Records Client_Subnet
begin

text \<open>
  The answer cache of \<open>dns/cache.rs\<close>.  Its slots are kept by a library, so whether a stored
  entry can still be read is a parameter \<open>held\<close>: the library drops an entry once it has
  outlived \<open>expire_after\<close>, and may evict it before.  Instants and durations are nanoseconds,
  the clock an argument; \<open>current\<close> is the generation of upstreams that is active.
\<close>

section \<open>Entries\<close>

record 'n cache_entry =
  ce_records :: "'n dns_record list"
  ce_response_code :: response_code
  ce_generation :: "u64 option"
  ce_created_at :: duration
  ce_ttl :: duration

definition is_fresh :: "duration \<Rightarrow> 'n cache_entry \<Rightarrow> bool" where
  "is_fresh now e \<longleftrightarrow> now - ce_created_at e < ce_ttl e"

definition remaining_ttl :: "duration \<Rightarrow> 'n cache_entry \<Rightarrow> duration" where
  "remaining_ttl now e = ce_ttl e - (now - ce_created_at e)"

definition remaining_secs :: "duration \<Rightarrow> 'n cache_entry \<Rightarrow> u32" where
  "remaining_secs now e = of_nat (max 1 (as_secs (remaining_ttl now e)))"

definition records_with_remaining_ttl :: "duration \<Rightarrow> 'n cache_entry \<Rightarrow> 'n dns_record list" where
  "records_with_remaining_ttl now e = map (\<lambda>r. r\<lparr>dr_ttl := remaining_secs now e\<rparr>) (ce_records e)"

definition generation_is_current :: "u64 \<Rightarrow> 'n cache_entry \<Rightarrow> bool" where
  "generation_is_current current e \<longleftrightarrow> (case ce_generation e of None \<Rightarrow> True | Some stamp \<Rightarrow> stamp = current)"

definition is_negative :: "'n cache_entry \<Rightarrow> bool" where
  "is_negative e \<longleftrightarrow> ce_response_code e = NXDomain \<or> (ce_response_code e = NoError \<and> ce_records e = [])"

section \<open>The cache\<close>

type_synonym dns_class = u16

type_synonym cache_key = "string \<times> record_type \<times> dns_class \<times> (ip_addr \<times> u8) option"

datatype 'n cache_lookup = Fresh "'n cache_entry" | Stale "'n cache_entry" | Miss

record cache_config =
  cc_min_ttl_secs :: nat
  cc_max_ttl_secs :: nat
  cc_negative_ttl_secs :: nat
  cc_stale_buffer_secs :: nat

record 'n dns_cache =
  dc_slots :: "cache_key \<rightharpoonup> 'n cache_entry"
  dc_stale_buffer :: duration
  dc_min_ttl :: duration
  dc_max_ttl :: duration
  dc_negative_ttl :: duration

definition dns_cache_new :: "cache_config \<Rightarrow> 'n dns_cache" where
  "dns_cache_new config =
     \<lparr>dc_slots = Map.empty, dc_stale_buffer = from_secs (cc_stale_buffer_secs config),
      dc_min_ttl = from_secs (cc_min_ttl_secs config), dc_max_ttl = from_secs (cc_max_ttl_secs config),
      dc_negative_ttl = from_secs (cc_negative_ttl_secs config)\<rparr>"

definition expire_after :: "'n dns_cache \<Rightarrow> 'n cache_entry \<Rightarrow> duration" where
  "expire_after c e = ce_ttl e + dc_stale_buffer c"

definition slot_get :: "('n cache_entry \<Rightarrow> bool) \<Rightarrow> 'n dns_cache \<Rightarrow> cache_key \<Rightarrow> 'n cache_entry option" where
  "slot_get held c key = (case dc_slots c key of Some e \<Rightarrow> if held e then Some e else None | None \<Rightarrow> None)"

definition slot_put :: "'n dns_cache \<Rightarrow> cache_key \<Rightarrow> 'n cache_entry option \<Rightarrow> 'n dns_cache" where
  "slot_put c key e = c\<lparr>dc_slots := (dc_slots c)(key := e)\<rparr>"

definition lookup_keyed ::
  "('n cache_entry \<Rightarrow> bool) \<Rightarrow> duration \<Rightarrow> 'n dns_cache \<Rightarrow> cache_key \<Rightarrow> 'n cache_lookup"
where
  "lookup_keyed held now c key =
     (case slot_get held c key of
        Some entry \<Rightarrow> if is_fresh now entry then Fresh entry else Stale entry
      | None \<Rightarrow> Miss)"

definition compute_negative_ttl :: "duration \<Rightarrow> duration \<Rightarrow> u32 option \<Rightarrow> duration" where
  "compute_negative_ttl negative_ttl max_ttl soa_minimum_ttl =
     (let floor = (case soa_minimum_ttl of
                     Some soa_secs \<Rightarrow> max (from_secs (unat soa_secs)) negative_ttl
                   | None \<Rightarrow> negative_ttl)
      in min floor max_ttl)"

definition compute_ttl :: "'n dns_cache \<Rightarrow> 'n dns_record list \<Rightarrow> duration" where
  "compute_ttl c records =
     (let min_record_ttl = (case records of [] \<Rightarrow> 0 | r # rs \<Rightarrow> foldl min (unat (dr_ttl r)) (map (unat \<circ> dr_ttl) rs))
      in from_secs (min (max min_record_ttl (as_secs (dc_min_ttl c))) (as_secs (dc_max_ttl c))))"

definition entry_ttl :: "'n dns_cache \<Rightarrow> 'n dns_record list \<Rightarrow> u32 option \<Rightarrow> duration" where
  "entry_ttl c records soa_minimum_ttl =
     (if records = [] then compute_negative_ttl (dc_negative_ttl c) (dc_max_ttl c) soa_minimum_ttl
      else compute_ttl c records)"

datatype fetch_error = Uncacheable response_code | FetchFailed string

type_synonym 'n fetched = "'n dns_record list \<times> response_code \<times> u32 option \<times> u64 option"

text \<open>The singleflight fetch: the result, the cache and whether \<open>fetch\<close> was run.  On failure the
  result carries the stale entry, if there was one.\<close>

definition fetch_with_keyed_state ::
  "('n cache_entry \<Rightarrow> bool) \<Rightarrow> duration \<Rightarrow> u64 \<Rightarrow> 'n dns_cache \<Rightarrow> cache_key \<Rightarrow> 'n cache_entry option
     \<Rightarrow> (fetch_error, 'n fetched) result
     \<Rightarrow> ('n cache_entry option \<times> fetch_error, 'n cache_entry) result \<times> 'n dns_cache \<times> bool"
where
  "fetch_with_keyed_state held now current c key stale_prior fetch =
     (let c1 = (if stale_prior \<noteq> None then slot_put c key None else c);
          (res, c2, ran) =
            (case slot_get held c1 key of
               Some entry \<Rightarrow> (Inr entry, c1, False)
             | None \<Rightarrow>
                 (case fetch of
                    Inl err \<Rightarrow> (Inl err, c1, True)
                  | Inr (records, response_code, soa_minimum_ttl, generation) \<Rightarrow>
                      (if response_code = ServFail \<or> response_code = RcRefused
                       then (Inl (Uncacheable response_code), c1, True)
                       else
                         (let entry = \<lparr>ce_records = records, ce_response_code = response_code,
                                       ce_generation = generation, ce_created_at = now,
                                       ce_ttl = entry_ttl c1 records soa_minimum_ttl\<rparr>
                          in (Inr entry, slot_put c1 key (Some entry), True)))));
          c3 = (case res of
                  Inr entry \<Rightarrow> if generation_is_current current entry then c2 else slot_put c2 key None
                | Inl _ \<Rightarrow> c2)
      in (map_err (\<lambda>err. (stale_prior, err)) res, c3, ran))"

definition lookup_or_fetch ::
  "('n cache_entry \<Rightarrow> bool) \<Rightarrow> duration \<Rightarrow> u64 \<Rightarrow> 'n dns_cache \<Rightarrow> cache_key
     \<Rightarrow> (fetch_error, 'n dns_record list \<times> response_code \<times> u32 option) result
     \<Rightarrow> ('n cache_entry option \<times> fetch_error, 'n cache_entry) result \<times> 'n dns_cache \<times> bool"
where
  "lookup_or_fetch held now current c key fetch =
     (let unstamped = rbind fetch (\<lambda>(records, response_code, soa). Inr (records, response_code, soa, None))
      in case lookup_keyed held now c key of
           Fresh entry \<Rightarrow> (Inr entry, c, False)
         | Stale entry \<Rightarrow> fetch_with_keyed_state held now current c key (Some entry) unstamped
         | Miss \<Rightarrow> fetch_with_keyed_state held now current c key None unstamped)"

definition insert_with_upstream_generation ::
  "('n cache_entry \<Rightarrow> bool) \<Rightarrow> duration \<Rightarrow> u64 \<Rightarrow> 'n dns_cache \<Rightarrow> cache_key \<Rightarrow> 'n fetched \<Rightarrow> 'n dns_cache"
where
  "insert_with_upstream_generation held now current c key fetched =
     (let (records, response_code, soa_minimum_ttl, generation) = fetched
      in if response_code = ServFail \<or> response_code = RcRefused then c
         else
           (let entry = \<lparr>ce_records = records, ce_response_code = response_code, ce_generation = generation,
                         ce_created_at = now, ce_ttl = entry_ttl c records soa_minimum_ttl\<rparr>;
                c1 = slot_put c key (Some entry)
            in case slot_get held c1 key of
                 Some e \<Rightarrow> if generation_is_current current e then c1 else slot_put c1 key None
               | None \<Rightarrow> c1))"

definition invalidate_key :: "'n dns_cache \<Rightarrow> cache_key \<Rightarrow> 'n dns_cache" where
  "invalidate_key c key = (let (domain, rest) = key in slot_put c (to_ascii_lowercase domain, rest) None)"

definition invalidate_domain :: "'n dns_cache \<Rightarrow> string \<Rightarrow> 'n dns_cache" where
  "invalidate_domain c domain =
     foldl (\<lambda>c (cls, rt). slot_put c (to_ascii_lowercase domain, rt, cls, None) None) c
       [(cls, rt). cls \<leftarrow> [1, 3],
          rt \<leftarrow> [RtA, RtAAAA, RtCNAME, RtMX, RtTXT, RtNS, RtSOA, RtHTTPS, RtSVCB, RtSRV, RtTLSA]]"

definition cache_clear :: "'n dns_cache \<Rightarrow> 'n dns_cache" where
  "cache_clear c = c\<lparr>dc_slots := Map.empty\<rparr>"

section \<open>What the cache holds\<close>

text \<open>Every use of a cache: the operations above and the library's own evictions.\<close>

inductive cache_step :: "'n dns_cache \<Rightarrow> 'n dns_cache \<Rightarrow> bool" where
  fetch: "cache_step c (fst (snd (fetch_with_keyed_state held now current c key stale_prior fetch)))"
| fetch_unstamped: "cache_step c (fst (snd (lookup_or_fetch held now current c key fetch)))"
| insert: "cache_step c (insert_with_upstream_generation held now current c key fetched)"
| invalidate: "cache_step c (invalidate_key c key)"
| invalidate_all: "cache_step c (invalidate_domain c domain)"
| clear: "cache_step c (cache_clear c)"
| evict: "cache_step c (slot_put c key None)"

text \<open>No failure of an upstream is kept, and no entry longer than the configured maximum; the
  configuration does not change.\<close>

definition entry_ok :: "cache_config \<Rightarrow> 'n cache_entry \<Rightarrow> bool" where
  "entry_ok config e \<longleftrightarrow>
     ce_response_code e \<noteq> ServFail \<and> ce_response_code e \<noteq> RcRefused \<and> ce_ttl e \<le> from_secs (cc_max_ttl_secs config)"

definition cache_ok :: "cache_config \<Rightarrow> 'n dns_cache \<Rightarrow> bool" where
  "cache_ok config c \<longleftrightarrow>
     dc_max_ttl c = from_secs (cc_max_ttl_secs config) \<and> (\<forall>key e. dc_slots c key = Some e \<longrightarrow> entry_ok config e)"

lemma entry_ttl_le: "dc_max_ttl c = from_secs m \<Longrightarrow> entry_ttl c records soa \<le> from_secs m"
  by (simp add: entry_ttl_def compute_negative_ttl_def compute_ttl_def Let_def)

lemma cache_ok_put_None: "cache_ok config c \<Longrightarrow> cache_ok config (slot_put c key None)"
  unfolding cache_ok_def slot_put_def by (simp add: fun_upd_def)

lemma cache_ok_put_Some: "cache_ok config c \<Longrightarrow> entry_ok config e \<Longrightarrow> cache_ok config (slot_put c key (Some e))"
  unfolding cache_ok_def slot_put_def by (simp add: fun_upd_def)

lemma entry_ok_new:
  assumes "cache_ok config c" "rc \<noteq> ServFail" "rc \<noteq> RcRefused"
  shows "entry_ok config \<lparr>ce_records = rs, ce_response_code = rc, ce_generation = g, ce_created_at = now, ce_ttl = entry_ttl c rs soa\<rparr>"
  using assms entry_ttl_le [of c] by (simp add: entry_ok_def cache_ok_def)

lemmas cache_ok_intros = cache_ok_put_None cache_ok_put_Some entry_ok_new

lemma cache_ok_fetch:
  assumes "cache_ok config c"
  shows "cache_ok config (fst (snd (fetch_with_keyed_state held now current c key stale_prior fetch)))"
  using assms
  by (auto simp: fetch_with_keyed_state_def Let_def intro!: cache_ok_intros
      split: option.splits sum.splits prod.splits if_splits)

lemma cache_ok_step: "cache_step c c' \<Longrightarrow> cache_ok config c \<Longrightarrow> cache_ok config c'"
proof (induction rule: cache_step.induct)
  case (fetch_unstamped c held now current key fetch)
  then show ?case by (auto simp: lookup_or_fetch_def Let_def cache_ok_fetch split: cache_lookup.splits)
next
  case (insert c held now current key fetched)
  then show ?case
    by (auto simp: insert_with_upstream_generation_def Let_def case_prod_unfold intro!: cache_ok_intros
        split: option.splits)
next
  case (invalidate_all c domain)
  have "cache_ok config (foldl (\<lambda>c (cls, rt). slot_put c (to_ascii_lowercase domain, rt, cls, None) None) c ks)"
    if "cache_ok config c" for c :: "'a dns_cache" and ks
    using that by (induction ks arbitrary: c) (auto intro: cache_ok_put_None)
  with invalidate_all show ?case unfolding invalidate_domain_def by blast
next
  case (clear c)
  then show ?case by (simp add: cache_clear_def cache_ok_def)
qed (auto simp: cache_ok_fetch invalidate_key_def cache_ok_put_None split: prod.splits)

lemma cache_ok_new: "cache_ok config (dns_cache_new config)"
  by (simp add: cache_ok_def dns_cache_new_def)

lemma cache_ok_reach: "cache_step\<^sup>*\<^sup>* (dns_cache_new config) c \<Longrightarrow> cache_ok config c"
  by (induction rule: rtranclp_induct) (auto intro: cache_ok_step cache_ok_new)

lemma slot_get_Some: "slot_get held c key = Some e \<longleftrightarrow> dc_slots c key = Some e \<and> held e"
  by (simp add: slot_get_def split: option.splits) blast

lemma slot_get_put: "slot_get held (slot_put c key e) key = (case e of Some e \<Rightarrow> if held e then Some e else None | None \<Rightarrow> None)"
  by (simp add: slot_get_def slot_put_def split: option.splits)

lemma unat_remaining_secs:
  assumes "ce_ttl e \<le> from_secs m" "m < 2 ^ 32"
  shows "unat (remaining_secs now e) = max 1 (as_secs (remaining_ttl now e))"
proof -
  have "as_secs (remaining_ttl now e) \<le> as_secs (from_secs m)"
    using assms(1) unfolding remaining_ttl_def by (intro as_secs_mono) linarith
  then have "max 1 (as_secs (remaining_ttl now e)) < 2 ^ 32" using assms(2) by simp
  then show ?thesis unfolding remaining_secs_def by (simp add: unat_of_nat take_bit_nat_eq_self)
qed

text \<open>C15. Whatever was fetched, inserted, invalidated and evicted since the cache was made: an
  entry it hands out is not a failure of an upstream, and the TTL written into its records is at
  least one second, at most the configured maximum, and never promises more than what remains of
  the entry, rounded up to one second.\<close>

theorem served_ttl_bounds:
  assumes "cache_step\<^sup>*\<^sup>* (dns_cache_new config) c" "slot_get held c key = Some e" "cc_max_ttl_secs config < 2 ^ 32"
  shows "ce_response_code e \<notin> {ServFail, RcRefused}
    \<and> (\<forall>r \<in> set (records_with_remaining_ttl now e).
         1 \<le> unat (dr_ttl r) \<and> unat (dr_ttl r) \<le> max 1 (cc_max_ttl_secs config)
         \<and> (unat (dr_ttl r) = 1 \<or> from_secs (unat (dr_ttl r)) \<le> remaining_ttl now e))"
proof -
  have ok: "entry_ok config e" using cache_ok_reach [OF assms(1)] assms(2) unfolding cache_ok_def slot_get_Some by blast
  then have ttl: "ce_ttl e \<le> from_secs (cc_max_ttl_secs config)" by (simp add: entry_ok_def)
  then have "as_secs (remaining_ttl now e) \<le> as_secs (from_secs (cc_max_ttl_secs config))"
    unfolding remaining_ttl_def by (intro as_secs_mono) linarith
  moreover have "from_secs (as_secs d) \<le> d" for d by (simp add: from_secs_def as_secs_def)
  ultimately show ?thesis
    using ok unat_remaining_secs [OF ttl assms(3), of now]
    by (auto simp: records_with_remaining_ttl_def entry_ok_def max_def)
qed

text \<open>C16. An expired entry saves one query of an outage only: the failing refresh hands it out
  and leaves its slot empty, so the next query finds nothing, however much of the stale window is
  left.\<close>

theorem stale_entry_served_once:
  assumes "lookup_keyed held now c key = Stale e"
  shows "\<exists>c'. fetch_with_keyed_state held now current c key (Some e) (Inl err) = (Inl (Some e, err), c', True)
    \<and> (\<forall>held' now'. lookup_keyed held' now' c' key = Miss)"
  by (simp add: fetch_with_keyed_state_def slot_get_put lookup_keyed_def)

section \<open>A sample\<close>

definition sample_cache_config :: cache_config where
  "sample_cache_config = \<lparr>cc_min_ttl_secs = 60, cc_max_ttl_secs = 3600, cc_negative_ttl_secs = 30, cc_stale_buffer_secs = 300\<rparr>"

definition sample_key :: cache_key where
  "sample_key = (''w.x'', RtA, 1, None)"

definition sample_filled :: "nat dns_cache" where
  "sample_filled = insert_with_upstream_generation (\<lambda>_. True) 0 0 (dns_cache_new sample_cache_config) sample_key
     ([from_rdata 0 5 (RdA 1)], NoError, None, None)"

lemma sample_slot:
  "slot_get (\<lambda>_. True) sample_filled sample_key =
     Some \<lparr>ce_records = [from_rdata 0 5 (RdA 1)], ce_response_code = NoError, ce_generation = None, ce_created_at = 0,
           ce_ttl = from_secs 60\<rparr>"
  by (simp add: sample_filled_def insert_with_upstream_generation_def slot_get_put generation_is_current_def
      entry_ttl_def compute_ttl_def dns_cache_new_def sample_cache_config_def from_rdata_def)

theorem served_ttl_bounds_witness:
  "\<exists>e. slot_get (\<lambda>_. True) sample_filled sample_key = Some e
     \<and> (\<forall>r \<in> set (records_with_remaining_ttl (from_secs 20) e). unat (dr_ttl r) \<le> 3600)"
proof -
  have "cache_step\<^sup>*\<^sup>* (dns_cache_new sample_cache_config) sample_filled"
    unfolding sample_filled_def by (rule r_into_rtranclp) (rule cache_step.insert)
  from served_ttl_bounds [OF this sample_slot, of "from_secs 20"] sample_slot show ?thesis
    by (auto simp: sample_cache_config_def)
qed

theorem stale_entry_served_once_witness:
  "\<exists>e c'. lookup_keyed (\<lambda>_. True) (from_secs 61) sample_filled sample_key = Stale e
     \<and> fetch_with_keyed_state (\<lambda>_. True) (from_secs 61) 0 sample_filled sample_key (Some e) (Inl (FetchFailed ''timeout''))
         = (Inl (Some e, FetchFailed ''timeout''), c', True)
     \<and> lookup_keyed (\<lambda>_. True) (from_secs 62) c' sample_key = Miss"
proof -
  obtain e where e: "lookup_keyed (\<lambda>_. True) (from_secs 61) sample_filled sample_key = Stale e"
    by (simp add: lookup_keyed_def sample_slot is_fresh_def from_secs_def)
  from stale_entry_served_once [OF e, of 0 "FetchFailed ''timeout''"] e show ?thesis by blast
qed

end
