(* ===== verification/Cname_Walk.thy ===== *)
theory Cname_Walk
  imports Profile_Build Dns_Records
begin

text \<open>
  Checking the CNAME chain of an answer, \<open>filter/cname.rs\<close>, and the flat check of the
  prefetch worker, \<open>cname_chain_blocked\<close> of \<open>dns/handler.rs\<close>.  Wire names are values of a
  type \<open>'n\<close> of the DNS library: \<open>labels\<close> is its label iterator and \<open>same_name\<close> its
  \<open>eq_ignore_root\<close>.
\<close>

section \<open>Links\<close>

definition is_cname_link :: "'n dns_record \<Rightarrow> bool" where
  "is_cname_link rec \<longleftrightarrow> dr_type rec = RtCNAME \<and> (case dr_data rec of RdCname _ \<Rightarrow> True | _ \<Rightarrow> False)"

definition cname_targets_match :: "('n \<Rightarrow> 'n \<Rightarrow> bool) \<Rightarrow> 'n dns_record \<Rightarrow> 'n dns_record \<Rightarrow> bool" where
  "cname_targets_match same_name left right =
     (case (dr_data left, dr_data right) of (RdCname l, RdCname r) \<Rightarrow> same_name l r | _ \<Rightarrow> False)"

text \<open>The loop of \<open>owner_matches\<close>: each label consumes one dotted segment.\<close>

fun owner_walk :: "string list \<Rightarrow> string \<Rightarrow> bool" where
  "owner_walk [] rest \<longleftrightarrow> rest = []"
| "owner_walk (label # ls) rest \<longleftrightarrow>
     (let (head, tail) = (case find_char CHR ''.'' rest of
                            Some i \<Rightarrow> (take i rest, drop (Suc i) rest)
                          | None \<Rightarrow> (rest, []))
      in if length head \<noteq> length label \<or> to_ascii_lowercase head \<noteq> to_ascii_lowercase label then False
         else owner_walk ls tail)"

definition owner_matches :: "('n \<Rightarrow> string list) \<Rightarrow> 'n \<Rightarrow> string \<Rightarrow> bool" where
  "owner_matches labels name domain = owner_walk (labels name) domain"

section \<open>Normalisation of a target\<close>

definition MAX_NORMALIZED_NAME_LEN :: nat where
  "MAX_NORMALIZED_NAME_LEN = 253"

text \<open>A byte that is ASCII, not a control character and not a dot.\<close>

definition target_byte :: "char \<Rightarrow> bool" where
  "target_byte c \<longleftrightarrow> (let b = of_char c :: nat in 32 \<le> b \<and> b < 127) \<and> c \<noteq> CHR ''.''"

fun push_label :: "string \<Rightarrow> string \<Rightarrow> string option" where
  "push_label out [] = Some out"
| "push_label out (b # bs) =
     (if \<not> target_byte b then None
      else if length out = MAX_NORMALIZED_NAME_LEN then None
      else push_label (out @ [to_ascii_lower b]) bs)"

fun push_labels :: "bool \<Rightarrow> string \<Rightarrow> string list \<Rightarrow> string option" where
  "push_labels first out [] = (if first then None else Some out)"
| "push_labels first out (l # ls) =
     (if l = [] \<or> 63 < length l then None
      else if \<not> first \<and> length out = MAX_NORMALIZED_NAME_LEN then None
      else case push_label (if first then out else out @ ''.'') l of
             None \<Rightarrow> None
           | Some out' \<Rightarrow> push_labels False out' ls)"

definition normalize_target_name :: "('n \<Rightarrow> string list) \<Rightarrow> 'n \<Rightarrow> string option" where
  "normalize_target_name labels name = push_labels True [] (labels name)"

section \<open>Verdicts\<close>

datatype cname_verdict = CnameAllow | CnameBlock string block_source

definition malformed_name_verdict :: "('n \<Rightarrow> string list) \<Rightarrow> 'n \<Rightarrow> cname_verdict" where
  "malformed_name_verdict labels name =
     CnameBlock (unwrap_or ''malformed-cname'' (normalize_target_name labels name)) SrcCnameMalformed"

definition malformed_qname_verdict :: "string \<Rightarrow> cname_verdict" where
  "malformed_qname_verdict qname = CnameBlock qname SrcCnameMalformed"

text \<open>\<^term>\<open>None\<close> is the panic of a binding that does not point into its snapshot.\<close>

definition evaluate_synthetic_cname_hop ::
  "(string \<Rightarrow> u64) \<Rightarrow> ('p \<Rightarrow> string \<Rightarrow> bool) \<Rightarrow> filter_engine \<Rightarrow> ('c, 'p) resolved_profile
     \<Rightarrow> request_grant option \<Rightarrow> string \<Rightarrow> cname_verdict option"
where
  "evaluate_synthetic_cname_hop hash op_is_match eng profile grant target =
     (case rp_operator_rules profile of
        None \<Rightarrow> Some (CnameBlock ''runtime-policy-missing'' SrcAdminBlock)
      | Some binding \<Rightarrow>
          (case binding_profile binding of
             None \<Rightarrow> None
           | Some compiled \<Rightarrow>
               (let (external, external_source) = external_matches_attributed hash eng target profile;
                    decision = evaluate_target_with_grant op_is_match compiled target grant external True
                in if rd_verdict decision = VBlock
                   then Some (CnameBlock target
                     (case attribution compiled (rd_winning_token decision) of
                        Some (_, origin) \<Rightarrow> SrcCustomList (ro_list_id origin)
                      | None \<Rightarrow> unwrap_or SrcAdminBlock (if external = EDeny then external_source else None)))
                   else Some CnameAllow)))"

section \<open>The walk\<close>

definition MAX_HOPS :: nat where
  "MAX_HOPS = 16"

text \<open>The first link the walk enters: the loop over the answer that rejects a CNAME at the
  rewritten name and two different CNAMEs at the served one.\<close>

fun scan_start ::
  "('n \<Rightarrow> string list) \<Rightarrow> ('n \<Rightarrow> 'n \<Rightarrow> bool) \<Rightarrow> string \<Rightarrow> string option \<Rightarrow> 'n dns_record option
     \<Rightarrow> 'n dns_record list \<Rightarrow> (cname_verdict, 'n dns_record option) result"
where
  "scan_start labels same_name qname original start [] = Inr start"
| "scan_start labels same_name qname original start (record # rs) =
     (if \<not> is_cname_link record then scan_start labels same_name qname original start rs
      else case Option.bind original (\<lambda>orig. if owner_matches labels (dr_name record) orig then Some orig else None) of
        Some orig \<Rightarrow> Inl (malformed_qname_verdict orig)
      | None \<Rightarrow>
          (if \<not> owner_matches labels (dr_name record) qname then scan_start labels same_name qname original start rs
           else case start of
             Some first \<Rightarrow>
               (if cname_targets_match same_name first record then scan_start labels same_name qname original start rs
                else Inl (malformed_qname_verdict qname))
           | None \<Rightarrow> scan_start labels same_name qname original (Some record) rs))"

text \<open>The link that follows a target, or \<^term>\<open>None\<close> in the outer option for a fork.\<close>

fun scan_following ::
  "('n \<Rightarrow> 'n \<Rightarrow> bool) \<Rightarrow> 'n \<Rightarrow> 'n dns_record option \<Rightarrow> 'n dns_record list \<Rightarrow> 'n dns_record option option"
where
  "scan_following same_name target following [] = Some following"
| "scan_following same_name target following (candidate # rs) =
     (if \<not> is_cname_link candidate \<or> \<not> same_name (dr_name candidate) target
      then scan_following same_name target following rs
      else case following of
        Some first \<Rightarrow>
          (if cname_targets_match same_name first candidate then scan_following same_name target following rs
           else None)
      | None \<Rightarrow> scan_following same_name target (Some candidate) rs)"

text \<open>The walk proper.  \<open>slots_used\<close> of the code equals \<open>hops\<close>, so the array of visited names
  is a list of that length; it has room for \<open>MAX_HOPS + 1\<close> and is written only below the cap.\<close>

function walk_hops ::
  "('n \<Rightarrow> string list) \<Rightarrow> ('n \<Rightarrow> 'n \<Rightarrow> bool) \<Rightarrow> (string \<Rightarrow> cname_verdict option) \<Rightarrow> 'n dns_record list
     \<Rightarrow> string \<Rightarrow> string option \<Rightarrow> nat \<Rightarrow> 'n list \<Rightarrow> nat \<Rightarrow> 'n dns_record option \<Rightarrow> cname_verdict option"
where
  "walk_hops labels same_name hop records qname original cap visited hops next_record =
     (case next_record of
        None \<Rightarrow> Some CnameAllow
      | Some record \<Rightarrow>
          (case dr_data record of
             RdCname target_name \<Rightarrow>
               (case normalize_target_name labels target_name of
                  None \<Rightarrow> Some (malformed_name_verdict labels target_name)
                | Some target \<Rightarrow>
                    if cap \<le> hops then Some (CnameBlock target SrcCnameDepthExceeded)
                    else if owner_matches labels target_name qname
                        \<or> (case original of Some name \<Rightarrow> owner_matches labels target_name name | None \<Rightarrow> False)
                        \<or> list_ex (\<lambda>seen. same_name seen target_name) visited
                    then Some (CnameBlock target SrcCnameLoop)
                    else (case scan_following same_name target_name None records of
                            None \<Rightarrow> Some (malformed_name_verdict labels target_name)
                          | Some following \<Rightarrow>
                              (case hop target of
                                 Some CnameAllow \<Rightarrow>
                                   walk_hops labels same_name hop records qname original cap
                                     (visited @ [target_name]) (Suc hops) following
                               | v \<Rightarrow> v)))
           | _ \<Rightarrow> Some CnameAllow))"
  by pat_completeness auto

termination
  by (relation "measure (\<lambda>(_, _, _, _, _, _, cap, _, hops, _). cap - hops)") auto

declare walk_hops.simps [simp del]

definition walk_response_with_rewrite ::
  "('n \<Rightarrow> string list) \<Rightarrow> ('n \<Rightarrow> 'n \<Rightarrow> bool) \<Rightarrow> (string \<Rightarrow> u64) \<Rightarrow> ('p \<Rightarrow> string \<Rightarrow> bool) \<Rightarrow> filter_engine
     \<Rightarrow> ('c, 'p) resolved_profile \<Rightarrow> request_grant option \<Rightarrow> 'n dns_record list \<Rightarrow> string \<Rightarrow> string option
     \<Rightarrow> nat \<Rightarrow> cname_verdict option"
where
  "walk_response_with_rewrite labels same_name hash op_is_match eng profile grant records qname original max_depth =
     (if rp_operator_rules profile = None then Some (CnameBlock ''runtime-policy-missing'' SrcAdminBlock)
      else
        (let cap = min max_depth MAX_HOPS
         in if original \<noteq> None \<and> cap = 0 then Some (CnameBlock qname SrcCnameDepthExceeded)
            else
              (let cap = cap - (if original \<noteq> None then 1 else 0)
               in case scan_start labels same_name qname original None records of
                    Inl v \<Rightarrow> Some v
                  | Inr start \<Rightarrow>
                      walk_hops labels same_name (evaluate_synthetic_cname_hop hash op_is_match eng profile grant)
                        records qname original cap [] 0 start)))"

definition walk_response_with_grant ::
  "('n \<Rightarrow> string list) \<Rightarrow> ('n \<Rightarrow> 'n \<Rightarrow> bool) \<Rightarrow> (string \<Rightarrow> u64) \<Rightarrow> ('p \<Rightarrow> string \<Rightarrow> bool) \<Rightarrow> filter_engine
     \<Rightarrow> ('c, 'p) resolved_profile \<Rightarrow> request_grant option \<Rightarrow> 'n dns_record list \<Rightarrow> string \<Rightarrow> nat
     \<Rightarrow> cname_verdict option"
where
  "walk_response_with_grant labels same_name hash op_is_match eng profile grant records qname max_depth =
     walk_response_with_rewrite labels same_name hash op_is_match eng profile grant records qname None max_depth"

section \<open>The check of the prefetch worker\<close>

text \<open>\<open>to_ascii\<close> is the library's escaped text of a name.\<close>

fun chain_scan ::
  "('n \<Rightarrow> string) \<Rightarrow> nat \<Rightarrow> (string \<Rightarrow> bool) \<Rightarrow> nat \<Rightarrow> 'n dns_record list \<Rightarrow> string option"
where
  "chain_scan to_ascii cap blocked checked [] = None"
| "chain_scan to_ascii cap blocked checked (record # rs) =
     (if dr_type record \<noteq> RtCNAME then chain_scan to_ascii cap blocked checked rs
      else case dr_data record of
        RdCname cname \<Rightarrow>
          (let target = to_ascii_lowercase (ascii_domain to_ascii cname)
           in if cap \<le> checked \<or> blocked target then Some target
              else chain_scan to_ascii cap blocked (Suc checked) rs)
      | _ \<Rightarrow> chain_scan to_ascii cap blocked checked rs)"

definition cname_chain_blocked ::
  "('n \<Rightarrow> string) \<Rightarrow> 'n dns_record list \<Rightarrow> nat \<Rightarrow> (string \<Rightarrow> bool) \<Rightarrow> string option"
where
  "cname_chain_blocked to_ascii records cname_max_depth blocked =
     chain_scan to_ascii (min cname_max_depth MAX_HOPS) blocked 0 records"

section \<open>Names as label lists\<close>

text \<open>The labels a dotted name stands for; a served name has no empty label.\<close>

definition dotted_labels :: "string \<Rightarrow> string list" where
  "dotted_labels d = (if d = [] then [] else map to_ascii_lowercase (split_on CHR ''.'' d))"

definition well_dotted :: "string \<Rightarrow> bool" where
  "well_dotted d \<longleftrightarrow> d = [] \<or> [] \<notin> set (split_on CHR ''.'' d)"

lemma owner_walk_Cons:
  "owner_walk (l # ls) d \<longleftrightarrow>
     (case find_char CHR ''.'' d of
        None \<Rightarrow> to_ascii_lowercase l = to_ascii_lowercase d \<and> owner_walk ls []
      | Some i \<Rightarrow> to_ascii_lowercase l = to_ascii_lowercase (take i d) \<and> owner_walk ls (drop (Suc i) d))"
proof -
  have len: "length a = length b" if "to_ascii_lowercase a = to_ascii_lowercase b" for a b
    using arg_cong [OF that, of length] by simp
  show ?thesis
    using len [of d l] len [of "take (the (find_char CHR ''.'' d)) d" l] by (cases "find_char CHR ''.'' d") auto
qed

lemma owner_walk_iff:
  assumes "[] \<notin> set ls" "well_dotted d"
  shows "owner_walk ls d \<longleftrightarrow> map to_ascii_lowercase ls = dotted_labels d"
  using assms
proof (induction ls arbitrary: d)
  case Nil
  then show ?case by (simp add: dotted_labels_def)
next
  case (Cons l ls)
  show ?case
  proof (cases "find_char CHR ''.'' d")
    case None
    then have s: "split_on CHR ''.'' d = [d]" by (simp add: find_char_None_iff split_on_no_sep)
    have "owner_walk ls [] \<longleftrightarrow> ls = []" using Cons.IH [of "[]"] Cons.prems by (simp add: dotted_labels_def well_dotted_def)
    moreover have "to_ascii_lowercase l \<noteq> []" using Cons.prems(1) by auto
    ultimately show ?thesis unfolding owner_walk_Cons using None s by (cases "d = []") (auto simp: dotted_labels_def to_ascii_lowercase_def)
  next
    case (Some i)
    let ?h = "take i d" and ?t = "drop (Suc i) d"
    have d: "d = ?h @ CHR ''.'' # ?t" "CHR ''.'' \<notin> set ?h" using find_char_SomeD [OF Some] by auto
    have split: "split_on CHR ''.'' d = ?h # split_on CHR ''.'' ?t" using split_on_append [OF d(2)] d(1) by metis
    have ne: "?t \<noteq> []" "well_dotted ?t" "d \<noteq> []" using Cons.prems(2) split d(1) by (auto simp: well_dotted_def)
    have "owner_walk ls ?t \<longleftrightarrow> map to_ascii_lowercase ls = dotted_labels ?t" using Cons.IH [OF _ ne(2)] Cons.prems(1) by simp
    then show ?thesis unfolding owner_walk_Cons using Some split ne by (simp add: dotted_labels_def)
  qed
qed

lemma owner_matches_iff:
  "name_library labels same_name \<Longrightarrow> well_dotted d \<Longrightarrow> owner_matches labels n d \<longleftrightarrow> canon labels n = dotted_labels d"
  by (simp add: owner_matches_def owner_walk_iff name_library_def canon_def)

lemma same_name_iff: "name_library labels same_name \<Longrightarrow> same_name a b \<longleftrightarrow> canon labels a = canon labels b"
  by (simp add: name_library_def)

section \<open>Normalisation\<close>

lemma push_label_eq:
  "length out \<le> 253 \<Longrightarrow> push_label out bs =
     (if list_all target_byte bs \<and> length out + length bs \<le> 253 then Some (out @ to_ascii_lowercase bs) else None)"
  by (induction out bs rule: push_label.induct) (auto simp: MAX_NORMALIZED_NAME_LEN_def to_ascii_lowercase_def)

definition label_fits :: "string \<Rightarrow> bool" where
  "label_fits l \<longleftrightarrow> l \<noteq> [] \<and> length l \<le> 63 \<and> list_all target_byte l"

lemma push_labels_False:
  "length out \<le> 253 \<Longrightarrow> push_labels False out ls =
     (if list_all label_fits ls \<and> length out + length (concat (map (Cons CHR ''.'') ls)) \<le> 253
      then Some (out @ to_ascii_lowercase (concat (map (Cons CHR ''.'') ls))) else None)"
proof (induction ls arbitrary: out)
  case Nil
  then show ?case by (simp add: to_ascii_lowercase_def)
next
  case (Cons l ls)
  have low: "to_ascii_lower CHR ''.'' = CHR ''.''" by code_simp
  have app: "to_ascii_lowercase (a @ b) = to_ascii_lowercase a @ to_ascii_lowercase b" for a b
    by (simp add: to_ascii_lowercase_def)
  have dot: "to_ascii_lowercase (CHR ''.'' # a) = CHR ''.'' # to_ascii_lowercase a" for a
    by (simp only: to_ascii_lowercase_def list.map low)
  show ?case
  proof (cases "label_fits l \<and> Suc (length out) + length l \<le> 253")
    case True
    then have "push_label (out @ ''.'') l = Some (out @ ''.'' @ to_ascii_lowercase l)"
      using push_label_eq [of "out @ ''.''" l] by (simp add: label_fits_def)
    with True have "push_labels False out (l # ls) = push_labels False (out @ ''.'' @ to_ascii_lowercase l) ls"
      by (simp add: label_fits_def MAX_NORMALIZED_NAME_LEN_def)
    with True show ?thesis
      using Cons.IH [of "out @ ''.'' @ to_ascii_lowercase l"] by (simp add: app dot)
  next
    case False
    then have "push_labels False out (l # ls) = None"
      using Cons.prems push_label_eq [of "out @ ''.''" l]
      by (cases "length out = 253") (auto simp: MAX_NORMALIZED_NAME_LEN_def label_fits_def)
    with False show ?thesis by auto
  qed
qed


text \<open>The text of a canonical name, if it has one: every label fits and the whole is at most
  253 bytes long.\<close>

definition target_text :: "string list \<Rightarrow> string option" where
  "target_text ls =
     (if ls \<noteq> [] \<and> list_all label_fits ls \<and> length (join_with CHR ''.'' ls) \<le> MAX_NORMALIZED_NAME_LEN
      then Some (join_with CHR ''.'' ls) else None)"

lemma target_byte_lower: "target_byte (to_ascii_lower c) = target_byte c"
proof -
  have "c = CHR ''.'' \<longleftrightarrow> byte c = 46" for c using of_char_eq_iff_char [of c "CHR ''.''"] by simp
  then show ?thesis
    unfolding target_byte_def by (simp add: byte_to_ascii_lower is_ascii_uppercase_def Let_def)
qed

lemma label_fits_lower [simp]: "label_fits (to_ascii_lowercase l) = label_fits l"
  by (auto simp: label_fits_def to_ascii_lowercase_def list_all_iff target_byte_lower)

lemma join_with_concat: "join_with c (l # ls) = l @ concat (map (Cons c) ls)"
  by (induction ls arbitrary: l) auto

lemma lowercase_join: "join_with CHR ''.'' (map to_ascii_lowercase ls) = to_ascii_lowercase (join_with CHR ''.'' ls)"
proof -
  have "to_ascii_lower CHR ''.'' = CHR ''.''" by code_simp
  then show ?thesis
    by (induction "CHR ''.''" ls rule: join_with.induct) (simp_all add: to_ascii_lowercase_def)
qed

lemma normalize_target_name_eq: "normalize_target_name labels n = target_text (canon labels n)"
proof (cases "labels n")
  case (Cons l ls)
  have all: "list_all label_fits (map to_ascii_lowercase ls) = list_all label_fits ls" by (simp add: list_all_iff)
  have tt: "target_text (canon labels n) =
      (if label_fits l \<and> list_all label_fits ls \<and> length (join_with CHR ''.'' (l # ls)) \<le> 253
       then Some (to_ascii_lowercase (join_with CHR ''.'' (l # ls))) else None)"
    unfolding canon_def target_text_def lowercase_join Cons using all by (simp add: MAX_NORMALIZED_NAME_LEN_def)
  show ?thesis
  proof (cases "label_fits l")
    case True
    then have "push_labels True [] (l # ls) = push_labels False (to_ascii_lowercase l) ls"
      and short: "length (to_ascii_lowercase l) \<le> 253"
      using push_label_eq [of "[]" l] by (simp_all add: label_fits_def)
    then have "normalize_target_name labels n =
        (if list_all label_fits ls \<and> length (l @ concat (map (Cons CHR ''.'') ls)) \<le> 253
         then Some (to_ascii_lowercase l @ to_ascii_lowercase (concat (map (Cons CHR ''.'') ls))) else None)"
      using push_labels_False [OF short, of ls] unfolding normalize_target_name_def Cons length_append length_to_ascii_lowercase
      by argo
    also have "to_ascii_lowercase l @ to_ascii_lowercase (concat (map (Cons CHR ''.'') ls)) =
        to_ascii_lowercase (l @ concat (map (Cons CHR ''.'') ls))"
      by (simp only: to_ascii_lowercase_def map_append)
    finally show ?thesis using True unfolding tt join_with_concat by argo
  next
    case False
    then have "push_labels True [] (l # ls) = None"
      using push_label_eq [of "[]" l] by (auto simp: label_fits_def)
    with False Cons show ?thesis unfolding tt by (simp add: normalize_target_name_def)
  qed
qed (simp add: normalize_target_name_def canon_def target_text_def)

section \<open>The answer as a graph\<close>

definition cname_edges :: "('n \<Rightarrow> string list) \<Rightarrow> 'n dns_record list \<Rightarrow> (string list \<times> string list) set" where
  "cname_edges labels records =
     {(canon labels (dr_name r), canon labels t) | r t. r \<in> set records \<and> dr_type r = RtCNAME \<and> dr_data r = RdCname t}"

fun cname_path :: "(string list \<times> string list) set \<Rightarrow> string list \<Rightarrow> string list list \<Rightarrow> bool" where
  "cname_path E x [] \<longleftrightarrow> E `` {x} = {}"
| "cname_path E x (t # ts) \<longleftrightarrow> E `` {x} = {t} \<and> cname_path E t ts"

text \<open>The chain from \<open>x\<close> ends, never forks, has at most \<open>n\<close> links and visits no name twice and no
  banned one, and every name on it passes \<open>ok\<close>.\<close>

definition clean_chain ::
  "(string list \<times> string list) set \<Rightarrow> (string list \<Rightarrow> bool) \<Rightarrow> string list set \<Rightarrow> nat \<Rightarrow> string list \<Rightarrow> bool"
where
  "clean_chain E ok banned n x \<longleftrightarrow>
     (\<exists>ts. cname_path E x ts \<and> length ts \<le> n \<and> distinct ts \<and> set ts \<inter> banned = {} \<and> (\<forall>t \<in> set ts. ok t))"

lemma clean_chain_end: "E `` {x} = {} \<Longrightarrow> clean_chain E ok banned n x"
  unfolding clean_chain_def by (rule exI [of _ "[]"]) simp

lemma clean_chain_step:
  assumes "E `` {x} = {t}"
  shows "clean_chain E ok banned n x \<longleftrightarrow>
    0 < n \<and> t \<notin> banned \<and> ok t \<and> clean_chain E ok (insert t banned) (n - 1) t"
proof
  assume "clean_chain E ok banned n x"
  then obtain ts where ts: "cname_path E x ts" "length ts \<le> n" "distinct ts" "set ts \<inter> banned = {}" "\<forall>t \<in> set ts. ok t"
    unfolding clean_chain_def by blast
  obtain ts' where ts': "ts = t # ts'" "cname_path E t ts'" using ts(1) assms by (cases ts) simp_all
  then have "clean_chain E ok (insert t banned) (n - 1) t"
    unfolding clean_chain_def using ts by (intro exI [of _ ts']) auto
  then show "0 < n \<and> t \<notin> banned \<and> ok t \<and> clean_chain E ok (insert t banned) (n - 1) t"
    using ts unfolding ts'(1) by simp
next
  assume r: "0 < n \<and> t \<notin> banned \<and> ok t \<and> clean_chain E ok (insert t banned) (n - 1) t"
  then obtain ts where ts: "cname_path E t ts" "length ts \<le> n - 1" "distinct ts" "set ts \<inter> insert t banned = {}" "\<forall>t \<in> set ts. ok t"
    unfolding clean_chain_def by blast
  moreover have "Suc (length ts) \<le> n" using ts(2) r by linarith
  ultimately show "clean_chain E ok banned n x"
    unfolding clean_chain_def using r assms by (intro exI [of _ "t # ts"]) simp
qed

lemma clean_chain_fork: "t \<in> E `` {x} \<Longrightarrow> t' \<in> E `` {x} \<Longrightarrow> t \<noteq> t' \<Longrightarrow> \<not> clean_chain E ok banned n x"
proof
  assume "t \<in> E `` {x}" "t' \<in> E `` {x}" "t \<noteq> t'" "clean_chain E ok banned n x"
  then obtain ts where "cname_path E x ts" unfolding clean_chain_def by blast
  with \<open>t \<in> E `` {x}\<close> \<open>t' \<in> E `` {x}\<close> \<open>t \<noteq> t'\<close> show False
    by (cases ts) (simp_all only: cname_path.simps singleton_iff empty_iff)
qed


section \<open>What the scans find\<close>

text \<open>The links at one owner: none, one (with its duplicates), or a fork.\<close>

definition branch_of :: "('n \<Rightarrow> 'n \<Rightarrow> bool) \<Rightarrow> 'n dns_record list \<Rightarrow> 'n dns_record option option" where
  "branch_of same_name cs =
     (case cs of
        [] \<Rightarrow> Some None
      | c # cs' \<Rightarrow> if list_all (cname_targets_match same_name c) cs' then Some (Some c) else None)"

lemma scan_following_Some:
  "scan_following same_name target (Some first) rs =
     (if list_all (cname_targets_match same_name first) (filter (\<lambda>r. is_cname_link r \<and> same_name (dr_name r) target) rs)
      then Some (Some first) else None)"
  by (induction rs) auto

lemma scan_following_eq:
  "scan_following same_name target None rs =
     branch_of same_name (filter (\<lambda>r. is_cname_link r \<and> same_name (dr_name r) target) rs)"
  by (induction rs) (auto simp: branch_of_def scan_following_Some)

definition owned_by :: "('n \<Rightarrow> string list) \<Rightarrow> string \<Rightarrow> 'n dns_record \<Rightarrow> bool" where
  "owned_by labels d r \<longleftrightarrow> is_cname_link r \<and> owner_matches labels (dr_name r) d"

lemma scan_start_original:
  "r \<in> set rs \<Longrightarrow> owned_by labels orig r \<Longrightarrow>
     \<exists>d. scan_start labels same_name qname (Some orig) start rs = Inl (malformed_qname_verdict d)"
  by (induction rs arbitrary: start) (auto simp: owned_by_def split: option.splits)

lemma scan_start_Cons:
  assumes "\<forall>orig. original = Some orig \<longrightarrow> \<not> owned_by labels orig r"
  shows "scan_start labels same_name qname original start (r # rs) =
     (if \<not> owned_by labels qname r then scan_start labels same_name qname original start rs
      else case start of
        None \<Rightarrow> scan_start labels same_name qname original (Some r) rs
      | Some first \<Rightarrow>
          if cname_targets_match same_name first r then scan_start labels same_name qname original start rs
          else Inl (malformed_qname_verdict qname))"
  using assms by (cases original) (auto simp: owned_by_def split: option.splits)

abbreviation not_at :: "('n \<Rightarrow> string list) \<Rightarrow> string option \<Rightarrow> 'n dns_record list \<Rightarrow> bool" where
  "not_at labels original rs \<equiv> \<forall>r \<in> set rs. \<forall>orig. original = Some orig \<longrightarrow> \<not> owned_by labels orig r"

lemma scan_start_Some:
  "not_at labels original rs \<Longrightarrow> scan_start labels same_name qname original (Some first) rs =
     (if list_all (cname_targets_match same_name first) (filter (owned_by labels qname) rs)
      then Inr (Some first) else Inl (malformed_qname_verdict qname))"
  by (induction rs) (simp_all add: scan_start_Cons del: scan_start.simps(2))

lemma scan_start_eq:
  "not_at labels original rs \<Longrightarrow> scan_start labels same_name qname original None rs =
     (case branch_of same_name (filter (owned_by labels qname) rs) of
        Some start \<Rightarrow> Inr start | None \<Rightarrow> Inl (malformed_qname_verdict qname))"
  by (induction rs) (simp_all add: scan_start_Cons scan_start_Some branch_of_def del: scan_start.simps(2))

lemma is_cname_link_iff: "is_cname_link r \<longleftrightarrow> dr_type r = RtCNAME \<and> (\<exists>t. dr_data r = RdCname t)"
  by (auto simp: is_cname_link_def split: rdata.splits)

lemma branch_of_cases:
  assumes lib: "name_library labels same_name"
    and mem: "\<And>r. r \<in> set cs \<longleftrightarrow> r \<in> set records \<and> is_cname_link r \<and> canon labels (dr_name r) = x"
  obtains (ended) "branch_of same_name cs = Some None" "cname_edges labels records `` {x} = {}"
  | (single) r t where "branch_of same_name cs = Some (Some r)" "dr_data r = RdCname t"
      "cname_edges labels records `` {x} = {canon labels t}"
  | (fork) t t' where "branch_of same_name cs = None" "t \<in> cname_edges labels records `` {x}"
      "t' \<in> cname_edges labels records `` {x}" "t \<noteq> t'"
proof (cases cs)
  case Nil
  then have "cname_edges labels records `` {x} = {}"
    using mem by (auto simp: cname_edges_def is_cname_link_iff)
  then show thesis using ended Nil by (simp add: branch_of_def)
next
  case (Cons c cs')
  have link: "\<exists>t. dr_data r = RdCname t \<and> canon labels t \<in> cname_edges labels records `` {x}" if "r \<in> set cs" for r
    using that mem [of r] by (auto simp: cname_edges_def is_cname_link_iff)
  have inv: "\<exists>r \<in> set cs. \<exists>t. dr_data r = RdCname t \<and> y = canon labels t" if "y \<in> cname_edges labels records `` {x}" for y
    using that mem by (auto simp: cname_edges_def is_cname_link_iff)
  obtain t where t: "dr_data c = RdCname t" "canon labels t \<in> cname_edges labels records `` {x}"
    using link [of c] Cons by auto
  have match: "cname_targets_match same_name c r \<longleftrightarrow> canon labels t = canon labels u" if "dr_data r = RdCname u" for r u
    using that t(1) same_name_iff [OF lib] by (simp add: cname_targets_match_def)
  show thesis
  proof (cases "list_all (cname_targets_match same_name c) cs'")
    case True
    have "y = canon labels t" if "y \<in> cname_edges labels records `` {x}" for y
    proof -
      from inv [OF that] obtain r u where r: "r \<in> set cs" "dr_data r = RdCname u" "y = canon labels u" by blast
      show ?thesis
      proof (cases "r = c")
        case False
        then have "cname_targets_match same_name c r" using True r(1) Cons by (simp add: list_all_iff)
        then show ?thesis using match [OF r(2)] r(3) by simp
      qed (use r t(1) in simp)
    qed
    then have "cname_edges labels records `` {x} = {canon labels t}" using t(2) by blast
    moreover have "branch_of same_name cs = Some (Some c)" using True Cons by (simp add: branch_of_def)
    ultimately show thesis using single t(1) by blast
  next
    case False
    then obtain r where r: "r \<in> set cs'" "\<not> cname_targets_match same_name c r" by (auto simp: list_all_iff)
    obtain u where u: "dr_data r = RdCname u" "canon labels u \<in> cname_edges labels records `` {x}"
      using link [of r] r(1) Cons by auto
    have "branch_of same_name cs = None" "canon labels t \<noteq> canon labels u"
      using False Cons match [OF u(1)] r(2) by (simp_all add: branch_of_def)
    then show thesis using fork t(2) u(2) by blast
  qed
qed


section \<open>What the walk allows\<close>

abbreviation original_labels :: "string option \<Rightarrow> string list set" where
  "original_labels original \<equiv> dotted_labels ` set_option original"

definition hop_ok :: "(string \<Rightarrow> cname_verdict option) \<Rightarrow> string list \<Rightarrow> bool" where
  "hop_ok hop t \<longleftrightarrow> (\<exists>s. target_text t = Some s \<and> hop s = Some CnameAllow)"

lemma walk_hops_allow:
  assumes lib: "name_library labels same_name" and q: "well_dotted qname" "\<forall>d \<in> set_option original. well_dotted d"
    and enter: "next_record = None \<and> cname_edges labels records `` {x} = {}
      \<or> (\<exists>r t. next_record = Some r \<and> dr_data r = RdCname t \<and> cname_edges labels records `` {x} = {canon labels t})"
    and "hops \<le> cap"
  shows "walk_hops labels same_name hop records qname original cap visited hops next_record = Some CnameAllow \<longleftrightarrow>
    clean_chain (cname_edges labels records) (hop_ok hop)
      (insert (dotted_labels qname) (original_labels original \<union> canon labels ` set visited)) (cap - hops) x"
  using enter \<open>hops \<le> cap\<close>
proof (induction "cap - hops" arbitrary: hops visited next_record x rule: less_induct)
  case less
  let ?E = "cname_edges labels records" and ?ok = "hop_ok hop"
  let ?B = "insert (dotted_labels qname) (original_labels original \<union> canon labels ` set visited)"
  note walk = walk_hops.simps [of labels same_name hop records qname original cap visited hops next_record]
  show ?case
  proof (cases next_record)
    case None
    with less.prems(1) show ?thesis unfolding walk by (simp add: clean_chain_end)
  next
    case (Some r)
    with less.prems(1) obtain t where t: "dr_data r = RdCname t" "?E `` {x} = {canon labels t}" by auto
    have vis: "list_ex (\<lambda>seen. same_name seen t) visited \<longleftrightarrow> canon labels t \<in> canon labels ` set visited"
      unfolding list_ex_iff same_name_iff [OF lib] image_iff by metis
    have loop: "owner_matches labels t qname \<or> (case original of Some name \<Rightarrow> owner_matches labels t name | None \<Rightarrow> False)
        \<or> list_ex (\<lambda>seen. same_name seen t) visited \<longleftrightarrow> canon labels t \<in> ?B"
      unfolding vis using owner_matches_iff [OF lib] q by (cases original) auto
    note step = clean_chain_step [OF t(2), of ?ok ?B "cap - hops"]
    note walk' = walk [unfolded Some option.case t(1) rdata.case normalize_target_name_eq loop]
    show ?thesis
    proof (cases "target_text (canon labels t)")
      case None
      then show ?thesis unfolding walk' step Some by (simp add: hop_ok_def malformed_name_verdict_def)
    next
      case tx: (Some s)
      show ?thesis
      proof (cases "cap \<le> hops \<or> canon labels t \<in> ?B")
        case True
        then show ?thesis unfolding walk' step Some tx by auto
      next
        case False
        let ?cs = "filter (\<lambda>r. is_cname_link r \<and> same_name (dr_name r) t) records"
        have mem: "r' \<in> set ?cs \<longleftrightarrow> r' \<in> set records \<and> is_cname_link r' \<and> canon labels (dr_name r') = canon labels t" for r'
          using same_name_iff [OF lib] by auto
        have lt: "cap - Suc hops < cap - hops" "Suc hops \<le> cap" using False by auto
        have goal: ?thesis if "branch_of same_name ?cs = Some nxt"
          "nxt = None \<and> ?E `` {canon labels t} = {}
            \<or> (\<exists>r t'. nxt = Some r \<and> dr_data r = RdCname t' \<and> ?E `` {canon labels t} = {canon labels t'})" for nxt
        proof -
          have ih: "walk_hops labels same_name hop records qname original cap (visited @ [t]) (Suc hops) nxt = Some CnameAllow \<longleftrightarrow>
              clean_chain ?E ?ok (insert (canon labels t) ?B) (cap - hops - 1) (canon labels t)"
            using less.hyps [of "Suc hops" nxt "canon labels t" "visited @ [t]", OF lt(1) that(2) lt(2)]
            by (simp add: insert_commute)
          show ?thesis
            unfolding step walk' Some tx scan_following_eq that(1) option.case
            using False ih tx by (auto simp: hop_ok_def split: option.splits cname_verdict.splits)
        qed
        from mem show ?thesis
        proof (rule branch_of_cases [OF lib])
          assume "branch_of same_name ?cs = Some None" "?E `` {canon labels t} = {}"
          then show ?thesis using goal by blast
        next
          fix r' t' assume "branch_of same_name ?cs = Some (Some r')" "dr_data r' = RdCname t'"
            "?E `` {canon labels t} = {canon labels t'}"
          then show ?thesis using goal by blast
        next
          fix a b assume "branch_of same_name ?cs = None" "a \<in> ?E `` {canon labels t}" "b \<in> ?E `` {canon labels t}" "a \<noteq> b"
          then show ?thesis
            unfolding walk' step Some tx scan_following_eq using clean_chain_fork [of a ?E "canon labels t" b] False
            by (auto simp: malformed_name_verdict_def)
        qed
      qed
    qed
  qed
qed


abbreviation rewrite_hops :: "string option \<Rightarrow> nat" where
  "rewrite_hops original \<equiv> if original = None then 0 else 1"

text \<open>The answer is allowed exactly when the chain from the served name is clean and no link
  starts at the rewritten name.\<close>

lemma walk_allow_iff:
  fixes records :: "'n dns_record list" and max_depth :: nat
  assumes lib: "name_library labels same_name" and q: "well_dotted qname" "\<forall>d \<in> set_option original. well_dotted d"
  defines "E \<equiv> cname_edges labels records" and "cap \<equiv> min max_depth MAX_HOPS"
  shows "walk_response_with_rewrite labels same_name hash op_is_match eng profile grant records qname original max_depth =
      Some CnameAllow \<longleftrightarrow>
    rp_operator_rules profile \<noteq> None \<and> rewrite_hops original \<le> cap \<and> E `` original_labels original = {}
    \<and> clean_chain E (hop_ok (evaluate_synthetic_cname_hop hash op_is_match eng profile grant))
        (insert (dotted_labels qname) (original_labels original)) (cap - rewrite_hops original) (dotted_labels qname)"
proof (cases "rp_operator_rules profile = None \<or> \<not> rewrite_hops original \<le> cap")
  case True
  then show ?thesis by (auto simp: walk_response_with_rewrite_def cap_def Let_def split: if_splits)
next
  case False
  let ?hop = "evaluate_synthetic_cname_hop hash op_is_match eng profile grant"
  have owned: "owned_by labels d r \<longleftrightarrow> is_cname_link r \<and> canon labels (dr_name r) = dotted_labels d" if "well_dotted d" for d r
    using owner_matches_iff [OF lib that] by (simp add: owned_by_def)
  have walk: "walk_response_with_rewrite labels same_name hash op_is_match eng profile grant records qname original max_depth =
      (case scan_start labels same_name qname original None records of
         Inl v \<Rightarrow> Some v
       | Inr start \<Rightarrow> walk_hops labels same_name ?hop records qname original (cap - rewrite_hops original) [] 0 start)"
    using False unfolding walk_response_with_rewrite_def cap_def Let_def by auto
  show ?thesis
  proof (cases "not_at labels original records")
    case True
    then have "E `` original_labels original = {}"
      using owned q by (auto simp: E_def cname_edges_def is_cname_link_iff)
    note scan = scan_start_eq [OF True, of same_name qname]
    have goal: ?thesis if "branch_of same_name (filter (owned_by labels qname) records) = Some nxt"
      "nxt = None \<and> E `` {dotted_labels qname} = {}
        \<or> (\<exists>r t. nxt = Some r \<and> dr_data r = RdCname t \<and> E `` {dotted_labels qname} = {canon labels t})" for nxt
      using walk_hops_allow [OF lib q that(2) [unfolded E_def], of 0 "cap - rewrite_hops original" ?hop "[]"] False
        \<open>E `` original_labels original = {}\<close>
      unfolding walk scan that(1) by (simp add: E_def)
    have "r \<in> set (filter (owned_by labels qname) records) \<longleftrightarrow>
        r \<in> set records \<and> is_cname_link r \<and> canon labels (dr_name r) = dotted_labels qname" for r
      using owned [OF q(1)] by auto
    then show ?thesis
    proof (rule branch_of_cases [OF lib, of _ records])
      fix a b assume "branch_of same_name (filter (owned_by labels qname) records) = None"
        "a \<in> cname_edges labels records `` {dotted_labels qname}" "b \<in> cname_edges labels records `` {dotted_labels qname}" "a \<noteq> b"
      then show ?thesis
        unfolding walk scan using clean_chain_fork [of a E "dotted_labels qname" b]
        by (simp add: E_def malformed_qname_verdict_def)
    qed (use goal in \<open>auto simp: E_def\<close>)
  next
    case False
    then obtain r d where r: "r \<in> set records" "original = Some d" "owned_by labels d r" by blast
    then obtain t where "dr_type r = RtCNAME" "dr_data r = RdCname t" "canon labels (dr_name r) = dotted_labels d"
      using owned [of d r] q by (auto simp: is_cname_link_iff)
    with r(1) have "(dotted_labels d, canon labels t) \<in> E" unfolding E_def cname_edges_def by force
    then have "E `` original_labels original \<noteq> {}" using r(2) by auto
    moreover obtain d' where "scan_start labels same_name qname original None records = Inl (malformed_qname_verdict d')"
      using scan_start_original [OF r(1,3)] r(2) by blast
    ultimately show ?thesis unfolding walk by (simp add: malformed_qname_verdict_def)
  qed
qed


section \<open>Only the served branch counts\<close>

lemma cname_path_cong:
  assumes "cname_path E x ts" "(q, x) \<in> E\<^sup>*" "\<forall>y. (q, y) \<in> E\<^sup>* \<longrightarrow> E `` {y} = E' `` {y}"
  shows "cname_path E' x ts"
  using assms
proof (induction ts arbitrary: x)
  case (Cons t ts)
  then have "(x, t) \<in> E" by auto
  then have "(q, t) \<in> E\<^sup>*" using Cons.prems(2) by (rule rtrancl_into_rtrancl [rotated])
  with Cons show ?case by simp
qed simp

lemma clean_chain_cong:
  assumes agree: "\<forall>y. (q, y) \<in> E\<^sup>* \<longrightarrow> E `` {y} = E' `` {y}"
  shows "clean_chain E ok banned n q \<longleftrightarrow> clean_chain E' ok banned n q"
proof -
  have reach: "(q, y) \<in> E\<^sup>*" if "(q, y) \<in> E'\<^sup>*" for y
    using that
  proof (induction rule: rtrancl_induct)
    case (step y z)
    then have "(y, z) \<in> E" using agree by blast
    with step.IH show ?case by (rule rtrancl_into_rtrancl)
  qed simp
  have "\<forall>y. (q, y) \<in> E'\<^sup>* \<longrightarrow> E' `` {y} = E `` {y}" using agree reach by blast
  then show ?thesis
    unfolding clean_chain_def using cname_path_cong [of E q _ q E'] cname_path_cong [of E' q _ q E] agree by blast
qed

text \<open>C6. An answer cannot steer the check: two answers with the same CNAME links on the names
  reachable from the served name, and no link at the rewritten name in one exactly if in the
  other, are both allowed or both blocked.  The order of the records, repeated records,
  letter case, unrelated branches and records of other types make no difference.\<close>

theorem answer_branch_decides:
  assumes "name_library labels same_name" "well_dotted qname" "\<forall>d \<in> set_option original. well_dotted d"
    and "\<forall>y. (dotted_labels qname, y) \<in> (cname_edges labels records)\<^sup>* \<longrightarrow>
      cname_edges labels records `` {y} = cname_edges labels records' `` {y}"
    and "cname_edges labels records `` original_labels original = {} \<longleftrightarrow>
      cname_edges labels records' `` original_labels original = {}"
  shows "walk_response_with_rewrite labels same_name hash op_is_match eng profile grant records qname original max_depth =
      Some CnameAllow \<longleftrightarrow>
    walk_response_with_rewrite labels same_name hash op_is_match eng profile grant records' qname original max_depth =
      Some CnameAllow"
  unfolding walk_allow_iff [OF assms(1-3)] assms(5) clean_chain_cong [OF assms(4)] ..

section \<open>Grants\<close>

abbreviation malformation :: "block_source \<Rightarrow> bool" where
  "malformation src \<equiv> src \<in> {SrcCnameLoop, SrcCnameDepthExceeded, SrcCnameMalformed}"

lemma hop_source:
  assumes "evaluate_synthetic_cname_hop hash op_is_match eng profile grant target = Some (CnameBlock off src)"
  shows "\<not> malformation src"
proof -
  obtain ext s where e: "external_matches_attributed hash eng target profile = (ext, s)" by fastforce
  then have s: "s = None \<or> (\<exists>b. s = Some (SrcList b))"
    by (auto simp: external_matches_attributed_def Let_def split: if_splits)
  then have "\<not> malformation (unwrap_or SrcAdminBlock (if ext = EDeny then s else None))" by auto
  then show ?thesis
    using assms e by (auto simp: evaluate_synthetic_cname_hop_def Let_def split: option.splits if_splits)
qed

text \<open>Past the checks on form, only the policy decides.\<close>

lemma walk_hops_allowed_step:
  assumes "walk_hops labels same_name hop' records qname original cap visited hops (Some r) = Some CnameAllow"
    and "dr_data r = RdCname t"
  obtains s nxt where "hops < cap"
    "walk_hops labels same_name hop' records qname original cap (visited @ [t]) (Suc hops) nxt = Some CnameAllow"
    "\<And>hop. walk_hops labels same_name hop records qname original cap visited hops (Some r) =
       (case hop s of
          Some CnameAllow \<Rightarrow> walk_hops labels same_name hop records qname original cap (visited @ [t]) (Suc hops) nxt
        | v \<Rightarrow> v)"
proof -
  note walk = walk_hops.simps [of labels same_name _ records qname original cap visited hops "Some r", unfolded option.case assms(2) rdata.case]
  obtain s where s: "normalize_target_name labels t = Some s" "hops < cap"
    using assms(1) unfolding walk by (auto simp: malformed_name_verdict_def split: option.splits if_splits)
  have "\<not> (owner_matches labels t qname \<or> (case original of Some name \<Rightarrow> owner_matches labels t name | None \<Rightarrow> False)
      \<or> list_ex (\<lambda>seen. same_name seen t) visited)"
    using assms(1) s unfolding walk by (simp split: if_splits)
  moreover from this obtain nxt where "scan_following same_name t None records = Some nxt"
    using assms(1) s unfolding walk
    by (cases "scan_following same_name t None records") (simp_all add: malformed_name_verdict_def)
  ultimately have eq: "walk_hops labels same_name hop records qname original cap visited hops (Some r) =
       (case hop s of
          Some CnameAllow \<Rightarrow> walk_hops labels same_name hop records qname original cap (visited @ [t]) (Suc hops) nxt
        | v \<Rightarrow> v)" for hop
    using s unfolding walk by simp
  then show thesis using that s(2) assms(1) by (simp split: option.splits cname_verdict.splits)
qed

lemma walk_hops_other_policy:
  assumes "walk_hops labels same_name hop' records qname original cap visited hops nxt = Some CnameAllow"
  shows "walk_hops labels same_name hop records qname original cap visited hops nxt = Some CnameAllow
    \<or> (\<exists>s. walk_hops labels same_name hop records qname original cap visited hops nxt = hop s)"
  using assms
proof (induction "cap - hops" arbitrary: hops visited nxt rule: less_induct)
  case less
  show ?case
  proof (cases "\<exists>r t. nxt = Some r \<and> dr_data r = RdCname t")
    case True
    then obtain r t where r: "nxt = Some r" "dr_data r = RdCname t" by blast
    from less.prems [unfolded r(1)] r(2) show ?thesis
    proof (rule walk_hops_allowed_step)
      fix s nxt'
      assume step: "hops < cap" "walk_hops labels same_name hop' records qname original cap (visited @ [t]) (Suc hops) nxt' = Some CnameAllow"
        and eq: "\<And>hop. walk_hops labels same_name hop records qname original cap visited hops (Some r) =
           (case hop s of
              Some CnameAllow \<Rightarrow> walk_hops labels same_name hop records qname original cap (visited @ [t]) (Suc hops) nxt'
            | v \<Rightarrow> v)"
      have "cap - Suc hops < cap - hops" using step(1) by simp
      with less.hyps step(2) have "walk_hops labels same_name hop records qname original cap (visited @ [t]) (Suc hops) nxt' = Some CnameAllow
          \<or> (\<exists>s. walk_hops labels same_name hop records qname original cap (visited @ [t]) (Suc hops) nxt' = hop s)" by blast
      moreover have "(case hop s of Some CnameAllow \<Rightarrow> w | v \<Rightarrow> v) = w \<or> (case hop s of Some CnameAllow \<Rightarrow> w | v \<Rightarrow> v) = hop s" for w
        by (simp split: option.splits cname_verdict.splits)
      ultimately show ?thesis unfolding r(1) eq by metis
    qed
  next
    case False
    then show ?thesis by (subst (1) walk_hops.simps) (auto split: option.splits rdata.splits)
  qed
qed

text \<open>C7. No grant lifts a malformation: an answer blocked as a loop, as too deep or as malformed
  under one grant is allowed under none.\<close>

theorem malformation_never_granted:
  assumes "walk_response_with_rewrite labels same_name hash op_is_match eng profile grant records qname original max_depth =
      Some (CnameBlock off src)" "malformation src"
  shows "walk_response_with_rewrite labels same_name hash op_is_match eng profile grant' records qname original max_depth \<noteq>
      Some CnameAllow"
proof
  assume "walk_response_with_rewrite labels same_name hash op_is_match eng profile grant' records qname original max_depth =
      Some CnameAllow"
  with assms show False
    using hop_source [of hash op_is_match eng profile grant _ off src]
    by (auto simp: walk_response_with_rewrite_def Let_def malformed_qname_verdict_def
        dest!: walk_hops_other_policy [of _ _ "evaluate_synthetic_cname_hop hash op_is_match eng profile grant'" _ _ _ _ _ _ _
            "evaluate_synthetic_cname_hop hash op_is_match eng profile grant"]
        split: if_splits sum.splits)
qed


section \<open>A hop by the rows\<close>

text \<open>What the rows say about a name in the answer: with no grant they decide it as they decide
  a queried name; a grant from the queried name yields only to a deny row of a higher tier.\<close>

definition target_verdict :: "rule_tier set \<Rightarrow> grant_tier option \<Rightarrow> bool \<Rightarrow> external_matches \<Rightarrow> verdict" where
  "target_verdict T g block_all external =
     (case g of
        None \<Rightarrow> verdict_by_tier T block_all external
      | Some t \<Rightarrow> if T \<noteq> {} \<and> grant_rule_tier t < Max T \<and> \<not> tier_is_allow (Max T) then VBlock else VForward)"

text \<open>The grant the rows give a queried name: that of an allow row of the top tier.\<close>

definition granted_tier :: "rule_tier set \<Rightarrow> grant_tier option" where
  "granted_tier T =
     (case top_tier T of
        None \<Rightarrow> None
      | Some t \<Rightarrow> if tier_is_allow t then Some (if tier_is_important t then Important else Ordinary) else None)"

lemma target_with_grant_verdict:
  assumes "map_option rh_tier (lookup_hit op_is_match compiled d) = top_tier T"
    and "\<forall>g. grant = Some g \<longrightarrow> is_issued_by g compiled"
  shows "rd_verdict (evaluate_target_with_grant op_is_match compiled d grant external True) =
    target_verdict T (map_option (\<lambda>g. ag_tier (rg_grant g)) grant) (cp_block_all compiled) external"
proof (cases "lookup_hit op_is_match compiled d")
  case None
  with assms(1) have "T = {}" by (simp add: top_tier_def split: if_splits)
  with None assms(2) show ?thesis
    by (cases grant) (simp_all add: evaluate_target_with_grant_def reduce_target_def reduce_def target_verdict_def verdict_by_tier_def)
next
  case (Some h)
  with assms(1) have "T \<noteq> {}" "Max T = rh_tier h" by (simp_all add: top_tier_def split: if_splits)
  with Some assms(2) show ?thesis
    by (cases grant) (simp_all add: evaluate_target_with_grant_def reduce_target_def reduce_def target_verdict_def verdict_by_tier_def)
qed

lemma hop_by_tiers:
  assumes "rp_operator_rules p = Some b" "binding_profile b = Some compiled"
    and "map_option rh_tier (lookup_hit op_is_match compiled d) = top_tier T"
    and "\<forall>g. grant = Some g \<longrightarrow> is_issued_by g compiled"
  shows "evaluate_synthetic_cname_hop hash op_is_match eng p grant d = Some CnameAllow \<longleftrightarrow>
    target_verdict T (map_option (\<lambda>g. ag_tier (rg_grant g)) grant) (cp_block_all compiled) (external_matches_of hash eng d p) = VForward"
proof -
  obtain ext s where e: "external_matches_attributed hash eng d p = (ext, s)" by fastforce
  have "evaluate_synthetic_cname_hop hash op_is_match eng p grant d = Some CnameAllow \<longleftrightarrow>
      rd_verdict (evaluate_target_with_grant op_is_match compiled d grant ext True) \<noteq> VBlock"
    using assms(1,2) e by (simp add: evaluate_synthetic_cname_hop_def Let_def)
  also have "\<dots> \<longleftrightarrow> rd_verdict (evaluate_target_with_grant op_is_match compiled d grant ext True) = VForward"
    by (cases "rd_verdict (evaluate_target_with_grant op_is_match compiled d grant ext True)") simp_all
  finally show ?thesis
    unfolding target_with_grant_verdict [OF assms(3,4)] external_matches_of_def e fst_conv .
qed

lemma active_policy_grant:
  assumes "rp_operator_rules p = Some b" "binding_profile b = Some compiled"
    and "evaluate_active_operator_policy hash op_is_match eng d p = Some dec"
    and "map_option rh_tier (lookup_hit op_is_match compiled d) = top_tier T"
  shows "map_option (\<lambda>g. ag_tier (rg_grant g)) (apd_grant dec) = granted_tier T"
    and "\<forall>g. apd_grant dec = Some g \<longrightarrow> is_issued_by g compiled"
proof -
  obtain ext s where e: "external_matches_attributed hash eng d p = (ext, s)" by fastforce
  have "apd_grant dec = decision_grant compiled (evaluate_attributed op_is_match compiled d ext)"
    using assms(1-3) e by (auto simp: evaluate_active_operator_policy_def Let_def split: if_splits)
  then show "map_option (\<lambda>g. ag_tier (rg_grant g)) (apd_grant dec) = granted_tier T"
    and "\<forall>g. apd_grant dec = Some g \<longrightarrow> is_issued_by g compiled"
    using assms(4) by (cases "lookup_hit op_is_match compiled d";
        auto simp: evaluate_attributed_def reduce_def decision_grant_def granted_tier_def is_issued_by_def split: option.splits)+
qed


section \<open>The prefetch check\<close>

text \<open>The prefetch worker lets an answer into the cache exactly when it has at most the cap of
  CNAME records, wherever they point, and no target of one is blocked.\<close>

lemma chain_scan_None:
  "checked \<le> cap \<Longrightarrow> chain_scan to_ascii cap blocked checked rs = None \<longleftrightarrow>
     checked + length (filter is_cname_link rs) \<le> cap
     \<and> (\<forall>r \<in> set rs. \<forall>t. dr_type r = RtCNAME \<and> dr_data r = RdCname t \<longrightarrow>
          \<not> blocked (to_ascii_lowercase (ascii_domain to_ascii t)))"
proof (induction rs arbitrary: checked)
  case (Cons r rs)
  show ?case
  proof (cases "is_cname_link r")
    case True
    then obtain t where t: "dr_type r = RtCNAME" "dr_data r = RdCname t" by (auto simp: is_cname_link_iff)
    show ?thesis
    proof (cases "cap \<le> checked")
      case True
      then show ?thesis using t Cons.prems by (simp add: is_cname_link_iff)
    next
      case False
      then show ?thesis using t Cons.IH [of "Suc checked"] by (auto simp: is_cname_link_iff Let_def)
    qed
  next
    case False
    then have "chain_scan to_ascii cap blocked checked (r # rs) = chain_scan to_ascii cap blocked checked rs"
      by (auto simp: is_cname_link_def split: rdata.splits)
    with False show ?thesis using Cons.IH [OF Cons.prems] by (auto simp: is_cname_link_iff)
  qed
qed simp

lemma cname_chain_blocked_None:
  "cname_chain_blocked to_ascii rs max_depth blocked = None \<longleftrightarrow>
     length (filter is_cname_link rs) \<le> min max_depth MAX_HOPS
     \<and> (\<forall>r \<in> set rs. \<forall>t. dr_type r = RtCNAME \<and> dr_data r = RdCname t \<longrightarrow>
          \<not> blocked (to_ascii_lowercase (ascii_domain to_ascii t)))"
  unfolding cname_chain_blocked_def using chain_scan_None [of 0 "min max_depth MAX_HOPS" to_ascii blocked rs] by simp

section \<open>Sample answers\<close>

text \<open>A name library over label lists, and records in it.\<close>

definition plain_labels :: "string list \<Rightarrow> string list" where
  "plain_labels n = filter (\<lambda>l. l \<noteq> []) n"

definition plain_same :: "string list \<Rightarrow> string list \<Rightarrow> bool" where
  "plain_same a b \<longleftrightarrow> canon plain_labels a = canon plain_labels b"

lemma plain_library: "name_library plain_labels plain_same"
  by (simp add: name_library_def plain_labels_def plain_same_def)

definition link :: "string list \<Rightarrow> string list \<Rightarrow> string list dns_record" where
  "link owner target = \<lparr>dr_name = owner, dr_type = RtCNAME, dr_ttl = 60, dr_data = RdCname target\<rparr>"

lemma cname_edges_link:
  "cname_edges labels [] = {}"
  "cname_edges labels (link own t # rs) = insert (canon labels own, canon labels t) (cname_edges labels rs)"
  by (auto simp: cname_edges_def link_def) (metis dns_record.select_convs)+

definition sample_profile :: "unit compiled_operator_rules \<Rightarrow> (unit, unit) resolved_profile" where
  "sample_profile c = bind_operator_rules (permissive_default\<lparr>rp_name := ''kids''\<rparr>) c"

abbreviation sample_walk ::
  "unit compiled_operator_rules \<Rightarrow> request_grant option \<Rightarrow> string list dns_record list \<Rightarrow> cname_verdict option" where
  "sample_walk c g rs \<equiv>
     walk_response_with_rewrite plain_labels plain_same (\<lambda>_. 0) (\<lambda>_ _. False) engine_new (sample_profile c) g rs ''w.x'' None 16"

lemma sample_served: "well_dotted ''w.x''" "\<forall>d \<in> set_option None. well_dotted d"
  by code_simp simp

text \<open>The served chain \<open>w.x\<close> to \<open>y.z\<close>, with a decoy in front and in other letters.\<close>

theorem answer_branch_decides_witness:
  "\<exists>c adm'. sample_compile = (Inr c, adm')
     \<and> sample_walk c None [link [''w'', ''x''] [''y'', ''z'']] = Some CnameAllow
     \<and> sample_walk c None [link [''d''] [''a'', ''b''], link [''W'', ''x''] [''Y'', ''z'']] = Some CnameAllow"
proof (rule sample_compile_Inr)
  fix c adm' assume c: "sample_compile = (Inr c, adm')"
  let ?rs = "[link [''w'', ''x''] [''y'', ''z'']]"
  let ?rs' = "[link [''d''] [''a'', ''b''], link [''W'', ''x''] [''Y'', ''z'']]"
  have "sample_walk sample_snapshot None ?rs = Some CnameAllow" by code_simp
  then have allow: "sample_walk c None ?rs = Some CnameAllow" by (simp only: sample_compileD [OF c])
  have e: "cname_edges plain_labels ?rs = {([''w'', ''x''], [''y'', ''z''])}"
    unfolding cname_edges_link by code_simp
  have e': "cname_edges plain_labels ?rs' = {([''w'', ''x''], [''y'', ''z'']), ([''d''], [''a'', ''b''])}"
    unfolding cname_edges_link by code_simp
  have q: "dotted_labels ''w.x'' = [''w'', ''x'']" by code_simp
  have agree: "cname_edges plain_labels ?rs `` {y} = cname_edges plain_labels ?rs' `` {y}"
    if "(dotted_labels ''w.x'', y) \<in> (cname_edges plain_labels ?rs)\<^sup>*" for y
    using that unfolding q e e' by (cases rule: rtranclE) auto
  have "sample_walk c None ?rs = Some CnameAllow \<longleftrightarrow> sample_walk c None ?rs' = Some CnameAllow"
    by (rule answer_branch_decides [OF plain_library sample_served]) (use agree in auto)
  with allow c show ?thesis by blast
qed

theorem malformation_never_granted_witness:
  "\<exists>c adm'. sample_compile = (Inr c, adm')
     \<and> sample_walk c None [link [''w'', ''x''] [''y''], link [''y''] [''W'', ''X'']] = Some (CnameBlock ''w.x'' SrcCnameLoop)
     \<and> (\<forall>g. sample_walk c g [link [''w'', ''x''] [''y''], link [''y''] [''W'', ''X'']] \<noteq> Some CnameAllow)"
proof (rule sample_compile_Inr)
  fix c adm' assume c: "sample_compile = (Inr c, adm')"
  let ?rs = "[link [''w'', ''x''] [''y''], link [''y''] [''W'', ''X'']]"
  have "sample_walk sample_snapshot None ?rs = Some (CnameBlock ''w.x'' SrcCnameLoop)" by code_simp
  then have loop: "sample_walk c None ?rs = Some (CnameBlock ''w.x'' SrcCnameLoop)" by (simp only: sample_compileD [OF c])
  with malformation_never_granted [OF loop] c show ?thesis by simp
qed

end
