(* ===== verification/Query_Handler.thy ===== *)
theory Query_Handler
  imports Security_Layer Network_Names Answer_Cache Cname_Walk
begin

text \<open>
  The query handler, \<open>dns/handler.rs\<close>, with the response check of \<open>filter/ip_filter.rs\<close>: from a
  request to the message sent, in the order of \<open>handle_inner\<close>.  The model is the default build,
  without the \<open>dnssec\<close> feature.  What the handler gets from libraries, clocks and the upstream is
  the record \<open>env\<close>; what it writes to statistics is the list of outcomes; what it sends upstream
  is recorded in \<open>hr_asked\<close>.  \<open>ev_prefetches\<close> stands for the floating-point threshold of the
  prefetch and the free permit it needs.  \<^term>\<open>None\<close> is the panic of a profile binding that does not point
  into its snapshot.
\<close>

section \<open>State\<close>

record 'n upstream_response =
  ur_records :: "'n dns_record list"
  ur_response_code :: response_code
  ur_generation :: "u64 option"
  ur_soa_minimum_ttl :: "u32 option"

type_synonym 'n upstream_query = "string \<times> 'n \<times> record_type \<times> edns_client_subnet option"

record ('n, 'p, 'f) env =
  ev_labels :: "'n \<Rightarrow> string list"
  ev_same_name :: "'n \<Rightarrow> 'n \<Rightarrow> bool"
  ev_parse_name :: "string \<Rightarrow> 'n option"
  ev_to_ascii :: "'n \<Rightarrow> string"
  ev_hash :: "string \<Rightarrow> u64"
  ev_op_is_match :: "'p \<Rightarrow> string \<Rightarrow> bool"
  ev_limiters :: "'f limiter_env"
  ev_arp :: "(ip_addr \<times> string) list"
  ev_held :: "'n cache_entry \<Rightarrow> bool"
  ev_prefetches :: "'n cache_entry \<Rightarrow> bool"
  ev_now :: duration
  ev_generation :: u64
  ev_upstream :: "'n upstream_query \<Rightarrow> (string, 'n upstream_response) result"

text \<open>\<open>fh_profile_records\<close> is the field \<open>local_records\<close> of the profile of that name.\<close>

record ('c, 'p, 'n, 'f) forward_handler =
  fh_filter :: filter_engine
  fh_cache :: "'n dns_cache"
  fh_profiles :: "('c, 'p) resolver_map option"
  fh_profile_records :: "string \<Rightarrow> 'n profile_local_records"
  fh_security :: "'f security_layer option"
  fh_local_records :: "'n local_data option"
  fh_ip_filter :: "ip_addr set option"
  fh_allow_from :: "cidr list option"
  fh_blocked_ttl :: u32
  fh_cname_max_depth :: nat
  fh_dynamic_ttl_secs :: u32
  fh_nodata_network_name :: bool
  fh_filter_ready :: bool

record 'n request =
  rq_src :: ip_addr
  rq_query :: "('n \<times> record_type \<times> dns_class) option"

record 'n message =
  ms_code :: response_code
  ms_truncated :: bool
  ms_answers :: "'n dns_record list"
  ms_soa :: "u32 option"

record outcome =
  oc_domain :: string
  oc_outcome :: string
  oc_blocked :: bool
  oc_cached :: bool
  oc_cname_chain_via :: "string option"
  oc_rewrote_from :: "string option"
  oc_block_list_bit :: "u8 option"

text \<open>What came of a request.  No message is a dropped response; \<open>hr_entry\<close> is the cache entry the
  answer was made from, if it was; \<open>hr_prefetch\<close> says that a refresh was spawned and \<open>hr_error\<close>
  is the error \<open>handle_inner\<close> returned.\<close>

record ('c, 'p, 'n, 'f) handled =
  hr_message :: "'n message option"
  hr_outcomes :: "outcome list"
  hr_asked :: "'n upstream_query list"
  hr_entry :: "'n cache_entry option"
  hr_prefetch :: bool
  hr_error :: "string option"
  hr_handler :: "('c, 'p, 'n, 'f) forward_handler"

section \<open>Messages\<close>

definition send_code :: "response_code \<Rightarrow> 'n message" where
  "send_code rc = \<lparr>ms_code = rc, ms_truncated = False, ms_answers = [], ms_soa = None\<rparr>"

definition send_truncated :: "'n message" where
  "send_truncated = \<lparr>ms_code = NoError, ms_truncated = True, ms_answers = [], ms_soa = None\<rparr>"

definition send_local :: "'n dns_record list \<Rightarrow> 'n message" where
  "send_local records = \<lparr>ms_code = NoError, ms_truncated = False, ms_answers = records, ms_soa = None\<rparr>"

definition send_soa_nodata :: "u32 \<Rightarrow> 'n message" where
  "send_soa_nodata ttl = \<lparr>ms_code = NoError, ms_truncated = False, ms_answers = [], ms_soa = Some ttl\<rparr>"

definition send_rfc8482 :: "'n \<Rightarrow> u32 \<Rightarrow> 'n message" where
  "send_rfc8482 qname ttl = send_local [from_rdata qname ttl (RdOther RtHINFO ''RFC8482'')]"

definition send_blocked :: "'n \<Rightarrow> record_type \<Rightarrow> u32 \<Rightarrow> 'n message" where
  "send_blocked qname rt ttl =
     (if rt = RtA then send_local [from_rdata qname ttl (RdA 0)]
      else if rt = RtAAAA then send_local [from_rdata qname ttl (RdAAAA 0)]
      else send_soa_nodata ttl)"

definition send_block_response :: "'n \<Rightarrow> record_type \<Rightarrow> u32 \<Rightarrow> block_response_v1 \<Rightarrow> 'n message" where
  "send_block_response qname rt ttl response =
     (case response of
        RespZero \<Rightarrow> send_blocked qname rt ttl
      | RespNxdomain \<Rightarrow> send_code NXDomain
      | RespRefused \<Rightarrow> send_code RcRefused
      | RespSoaNodata \<Rightarrow> send_soa_nodata ttl)"

definition REWRITE_CNAME_TTL_SECS :: u32 where
  "REWRITE_CNAME_TTL_SECS = 300"

definition prepend_rewrite_cname ::
  "('n \<Rightarrow> 'n \<Rightarrow> bool) \<Rightarrow> 'n \<Rightarrow> 'n \<Rightarrow> u32 \<Rightarrow> 'n dns_record list \<Rightarrow> 'n dns_record list"
where
  "prepend_rewrite_cname same_name original target remaining_ttl_secs records =
     (if records = [] then []
      else if same_name original target then records
      else from_rdata original (min remaining_ttl_secs REWRITE_CNAME_TTL_SECS) (RdCname target) # records)"

definition send_cached ::
  "('n \<Rightarrow> 'n \<Rightarrow> bool) \<Rightarrow> duration \<Rightarrow> 'n \<Rightarrow> 'n cache_entry \<Rightarrow> 'n option \<Rightarrow> 'n message"
where
  "send_cached same_name now qname entry rewrite_target =
     (let records = records_with_remaining_ttl now entry;
          records = (case rewrite_target of
                       Some target \<Rightarrow> prepend_rewrite_cname same_name qname target (remaining_secs now entry) records
                     | None \<Rightarrow> records)
      in if is_negative entry
         then \<lparr>ms_code = ce_response_code entry, ms_truncated = False, ms_answers = records,
               ms_soa = Some (remaining_secs now entry)\<rparr>
         else send_local records)"

definition fwd_name_for :: "(string \<Rightarrow> 'n option) \<Rightarrow> string \<Rightarrow> bool \<Rightarrow> 'n \<Rightarrow> 'n" where
  "fwd_name_for parse_name domain rewrote name = (if rewrote then unwrap_or name (parse_name (domain @ ''.'')) else name)"

section \<open>The response check\<close>

fun first_blocked_ip :: "ip_addr set \<Rightarrow> 'n dns_record list \<Rightarrow> ip_addr option" where
  "first_blocked_ip ips [] = None"
| "first_blocked_ip ips (record # rs) =
     (case (dr_type record, dr_data record) of
        (RtA, RdA a) \<Rightarrow> if V4 a \<in> ips then Some (V4 a) else first_blocked_ip ips rs
      | (RtAAAA, RdAAAA a) \<Rightarrow> if V6 a \<in> ips then Some (V6 a) else first_blocked_ip ips rs
      | _ \<Rightarrow> first_blocked_ip ips rs)"

definition check_response_for_profile_with_grant ::
  "ip_addr set \<Rightarrow> 'n dns_record list \<Rightarrow> 'p compiled_profile option \<Rightarrow> request_grant option \<Rightarrow> ip_addr option"
where
  "check_response_for_profile_with_grant ips records profile grant =
     (if (case (grant, profile) of (Some g, Some p) \<Rightarrow> is_issued_by g p | _ \<Rightarrow> False) then None
      else if ips = {} then None
      else first_blocked_ip ips records)"

text \<open>What the handler knows of a query once the policy has let it pass.\<close>

record ('c, 'p, 'n) query_ctx =
  qc_client_ip :: ip_addr
  qc_name :: 'n
  qc_type :: record_type
  qc_class :: dns_class
  qc_profile :: "('c, 'p) resolved_profile"
  qc_grant :: "request_grant option"
  qc_domain :: string
  qc_rewrote_from :: "string option"
  qc_ecs :: "edns_client_subnet option"

definition ctx_key :: "('c, 'p, 'n) query_ctx \<Rightarrow> cache_key" where
  "ctx_key q = (qc_domain q, qc_type q, qc_class q, Option.bind (qc_ecs q) as_cache_prefix)"

datatype answer_block = ByCname string block_source | ByIp ip_addr

text \<open>The two checks every answer passes before it is sent, at the three places that send one.\<close>

definition check_answer ::
  "('n, 'p, 'f) env \<Rightarrow> ('c, 'p, 'n, 'f) forward_handler \<Rightarrow> ('c, 'p, 'n) query_ctx \<Rightarrow> 'n dns_record list
     \<Rightarrow> answer_block option option"
where
  "check_answer env h q records =
     (case walk_response_with_rewrite (ev_labels env) (ev_same_name env) (ev_hash env) (ev_op_is_match env) (fh_filter h)
             (qc_profile q) (qc_grant q) records (qc_domain q) (qc_rewrote_from q) (fh_cname_max_depth h) of
        None \<Rightarrow> None
      | Some (CnameBlock offending source) \<Rightarrow> Some (Some (ByCname offending source))
      | Some CnameAllow \<Rightarrow>
          (case fh_ip_filter h of
             None \<Rightarrow> Some None
           | Some ips \<Rightarrow>
               Some (map_option ByIp (check_response_for_profile_with_grant ips records
                 (Option.bind (rp_operator_rules (qc_profile q)) binding_profile) (qc_grant q)))))"

section \<open>Outcomes\<close>

definition outcome_of :: "('c, 'p, 'n) query_ctx \<Rightarrow> string \<Rightarrow> bool \<Rightarrow> bool \<Rightarrow> outcome" where
  "outcome_of q what blocked cached =
     \<lparr>oc_domain = qc_domain q, oc_outcome = what, oc_blocked = blocked, oc_cached = cached, oc_cname_chain_via = None,
      oc_rewrote_from = qc_rewrote_from q, oc_block_list_bit = None\<rparr>"

definition early_outcome :: "string \<Rightarrow> string \<Rightarrow> bool \<Rightarrow> outcome" where
  "early_outcome domain what blocked =
     \<lparr>oc_domain = domain, oc_outcome = what, oc_blocked = blocked, oc_cached = False, oc_cname_chain_via = None,
      oc_rewrote_from = None, oc_block_list_bit = None\<rparr>"

definition list_bit :: "block_source option \<Rightarrow> u8 option" where
  "list_bit source = (case source of Some (SrcList b) \<Rightarrow> Some b | _ \<Rightarrow> None)"

definition reply :: "('c, 'p, 'n, 'f) forward_handler \<Rightarrow> outcome list \<Rightarrow> 'n message \<Rightarrow> ('c, 'p, 'n, 'f) handled" where
  "reply h outcomes m = \<lparr>hr_message = Some m, hr_outcomes = outcomes, hr_asked = [], hr_entry = None,
     hr_prefetch = False, hr_error = None, hr_handler = h\<rparr>"

text \<open>\<open>dispatch_cname_block\<close> and \<open>dispatch_ip_block\<close>.\<close>

definition dispatch_block ::
  "('c, 'p, 'n, 'f) forward_handler \<Rightarrow> ('c, 'p, 'n) query_ctx \<Rightarrow> answer_block \<Rightarrow> ('c, 'p, 'n, 'f) handled"
where
  "dispatch_block h q b =
     (let h' = h\<lparr>fh_cache := invalidate_key (fh_cache h) (ctx_key q)\<rparr>;
          oc = outcome_of q ''BLOCKED'' True False;
          oc = (case b of
                  ByCname offending source \<Rightarrow>
                    oc\<lparr>oc_cname_chain_via := Some offending, oc_block_list_bit := list_bit (Some source)\<rparr>
                | ByIp _ \<Rightarrow> oc)
      in reply h' [oc] (send_block_response (qc_name q) (qc_type q) (rp_blocked_ttl_secs (qc_profile q))
           (rp_block_response (qc_profile q))))"

section \<open>Answering from the cache and the upstream\<close>

definition serve_entry ::
  "('n, 'p, 'f) env \<Rightarrow> ('c, 'p, 'n, 'f) forward_handler \<Rightarrow> ('c, 'p, 'n) query_ctx \<Rightarrow> 'n cache_entry \<Rightarrow> ('c, 'p, 'n, 'f) handled"
where
  "serve_entry env h q entry =
     (let rewrite_target = map_option (\<lambda>_. fwd_name_for (ev_parse_name env) (qc_domain q) True (qc_name q)) (qc_rewrote_from q)
      in (reply h [] (send_cached (ev_same_name env) (ev_now env) (qc_name q) entry rewrite_target))\<lparr>hr_entry := Some entry\<rparr>)"

definition upstream_query :: "('n, 'p, 'f) env \<Rightarrow> ('c, 'p, 'n) query_ctx \<Rightarrow> 'n upstream_query" where
  "upstream_query env q =
     (qc_domain q, fwd_name_for (ev_parse_name env) (qc_domain q) (qc_rewrote_from q \<noteq> None) (qc_name q), qc_type q, qc_ecs q)"

definition fetch_upstream :: "('n, 'p, 'f) env \<Rightarrow> ('c, 'p, 'n) query_ctx \<Rightarrow> (fetch_error, 'n fetched) result" where
  "fetch_upstream env q =
     (case ev_upstream env (upstream_query env q) of
        Inl e \<Rightarrow> Inl (FetchFailed e)
      | Inr resp \<Rightarrow>
          (if ur_response_code resp = ServFail \<or> ur_response_code resp = RcRefused
           then Inl (Uncacheable (ur_response_code resp))
           else Inr (ur_records resp, ur_response_code resp, ur_soa_minimum_ttl resp, ur_generation resp)))"

definition forward_query ::
  "('n, 'p, 'f) env \<Rightarrow> ('c, 'p, 'n, 'f) forward_handler \<Rightarrow> ('c, 'p, 'n) query_ctx \<Rightarrow> 'n cache_entry option
     \<Rightarrow> ('c, 'p, 'n, 'f) handled option"
where
  "forward_query env h0 q stale_prior =
     (let (lookup_result, cache, ran) =
            fetch_with_keyed_state (ev_held env) (ev_now env) (ev_generation env) (fh_cache h0) (ctx_key q) stale_prior
              (fetch_upstream env q);
          h = h0\<lparr>fh_cache := cache\<rparr>;
          finish = (\<lambda>extra r. r\<lparr>hr_asked := (if ran then [upstream_query env q] else []),
                               hr_outcomes := outcome_of q ''ALLOWED'' False False # extra @ hr_outcomes r\<rparr>)
      in case lookup_result of
           Inr entry \<Rightarrow>
             (if ce_records entry = [] then Some (finish [] (serve_entry env h q entry))
              else case check_answer env h q (ce_records entry) of
                     None \<Rightarrow> None
                   | Some (Some b) \<Rightarrow> Some (finish [] (dispatch_block h q b))
                   | Some None \<Rightarrow> Some (finish [] (serve_entry env h q entry)))
         | Inl (stale, Uncacheable rc) \<Rightarrow> Some (finish [] (reply h [] (send_code rc)))
         | Inl (Some entry, FetchFailed e) \<Rightarrow>
             (case check_answer env h q (ce_records entry) of
                None \<Rightarrow> None
              | Some (Some b) \<Rightarrow> Some (finish [] (dispatch_block h q b))
              | Some None \<Rightarrow> Some (finish [outcome_of q ''STALE'' False True] (serve_entry env h q entry)))
         | Inl (None, FetchFailed e) \<Rightarrow>
             Some (finish [] ((reply h [] (send_code ServFail))\<lparr>hr_message := None, hr_error := Some e\<rparr>)))"

definition tunneling_gate ::
  "('n, 'p, 'f) env \<Rightarrow> ('c, 'p, 'n, 'f) forward_handler \<Rightarrow> ('c, 'p, 'n) query_ctx \<Rightarrow> 'n cache_lookup
     \<Rightarrow> bool \<times> ('c, 'p, 'n, 'f) forward_handler"
where
  "tunneling_gate env h q looked_up =
     (case fh_security h of
        Some sec \<Rightarrow>
          (if looked_up = Miss \<and> tunneling_rate_gate_applies (qc_type q = RtPTR) (qc_domain q)
           then (let (over, sec') = check_tunneling_rate (ev_limiters env) sec (qc_client_ip q) (qc_domain q)
                 in (over, h\<lparr>fh_security := Some sec'\<rparr>))
           else (False, h))
      | None \<Rightarrow> (False, h))"

definition answer_query ::
  "('n, 'p, 'f) env \<Rightarrow> ('c, 'p, 'n, 'f) forward_handler \<Rightarrow> ('c, 'p, 'n) query_ctx \<Rightarrow> ('c, 'p, 'n, 'f) handled option"
where
  "answer_query env h q =
     (let looked_up = lookup_keyed (ev_held env) (ev_now env) (fh_cache h) (ctx_key q)
      in case looked_up of
           Fresh entry \<Rightarrow>
             (case check_answer env h q (ce_records entry) of
                None \<Rightarrow> None
              | Some (Some b) \<Rightarrow> Some (dispatch_block h q b)
              | Some None \<Rightarrow>
                  Some ((serve_entry env h q entry)\<lparr>hr_outcomes := [outcome_of q ''CACHED'' False True],
                                                    hr_prefetch := ev_prefetches env entry\<rparr>))
         | _ \<Rightarrow>
             (if qc_type q = RtANY
              then Some (reply h [outcome_of q ''HINFO'' False False] (send_rfc8482 (qc_name q) (fh_blocked_ttl h)))
              else
                (let (over, h') = tunneling_gate env h q looked_up
                 in if over then Some (reply h' [outcome_of q ''REFUSED'' True False] (send_code RcRefused))
                    else forward_query env h' q (case looked_up of Stale entry \<Rightarrow> Some entry | _ \<Rightarrow> None))))"

text \<open>The refresh a cache hit near its expiry spawns; it knows no client.\<close>

definition prefetch_refresh ::
  "('n, 'p, 'f) env \<Rightarrow> ('c, 'p, 'n, 'f) forward_handler \<Rightarrow> ('c, 'p, 'n) query_ctx \<Rightarrow> ('c, 'p, 'n, 'f) forward_handler"
where
  "prefetch_refresh env h q =
     (case ev_upstream env (upstream_query env q) of
        Inl _ \<Rightarrow> h
      | Inr resp \<Rightarrow>
          (if ur_response_code resp \<noteq> NoError \<or> ur_records resp = [] then h
           else
             (let has_blocked_cname =
                    cname_chain_blocked (ev_to_ascii env) (ur_records resp) (fh_cname_max_depth h)
                      (\<lambda>t. is_blocked (ev_hash env) (fh_filter h) t) \<noteq> None;
                  has_blocked_ip =
                    (case fh_ip_filter h of
                       None \<Rightarrow> False
                     | Some ips \<Rightarrow> check_response_for_profile_with_grant ips (ur_records resp) (None :: 'p compiled_profile option) None \<noteq> None)
              in if has_blocked_cname \<or> has_blocked_ip then h
                 else h\<lparr>fh_cache := insert_with_upstream_generation (ev_held env) (ev_now env) (ev_generation env)
                          (fh_cache h) (ctx_key q) (ur_records resp, NoError, None, ur_generation resp)\<rparr>)))"

section \<open>Local answers\<close>

definition answer_profile_records ::
  "('n, 'p, 'f) env \<Rightarrow> ('c, 'p, 'n, 'f) forward_handler \<Rightarrow> ('c, 'p) resolved_profile option \<Rightarrow> string \<Rightarrow> record_type
     \<Rightarrow> 'n message option"
where
  "answer_profile_records env h profile domain rt =
     Option.bind profile (\<lambda>p. map_option (\<lambda>(records, apex). send_local records)
       (lookup_with_apex (ev_parse_name env) (ev_to_ascii env) (fh_profile_records h (rp_name p)) domain rt))"

definition answer_local_records ::
  "('n, 'p, 'f) env \<Rightarrow> ('c, 'p, 'n, 'f) forward_handler \<Rightarrow> string \<Rightarrow> record_type \<Rightarrow> 'n message option"
where
  "answer_local_records env h domain rt =
     Option.bind (fh_local_records h) (\<lambda>data.
       case local_lookup (ev_parse_name env) (ev_to_ascii env) data domain rt of
         LocalHit records apex \<Rightarrow> Some (send_local records)
       | NodataSynthesis ttl \<Rightarrow> Some (send_soa_nodata ttl)
       | LocalMiss \<Rightarrow> None)"

definition answer_network_name ::
  "('n, 'p, 'f) env \<Rightarrow> ('c, 'p, 'n, 'f) forward_handler \<Rightarrow> 'n \<Rightarrow> string \<Rightarrow> record_type \<Rightarrow> 'n message option"
where
  "answer_network_name env h name domain rt =
     Option.bind (fh_profiles h) (\<lambda>m.
       if \<not> network_name_is_configured m domain then None
       else if rt = RtA
       then (case resolve_network_name m (ev_arp env) domain of
               Some (V4 ip) \<Rightarrow> Some (send_local [from_rdata name (fh_dynamic_ttl_secs h) (RdA ip)])
             | Some (V6 _) \<Rightarrow> None
             | None \<Rightarrow> Some (send_code NXDomain))
       else if fh_nodata_network_name h then Some (send_soa_nodata (fh_dynamic_ttl_secs h))
       else None)"

definition answer_locally ::
  "('n, 'p, 'f) env \<Rightarrow> ('c, 'p, 'n, 'f) forward_handler \<Rightarrow> ('c, 'p) resolved_profile option \<Rightarrow> 'n \<Rightarrow> string \<Rightarrow> record_type
     \<Rightarrow> 'n message option"
where
  "answer_locally env h profile name domain rt =
     (case answer_profile_records env h profile domain rt of
        Some m \<Rightarrow> Some m
      | None \<Rightarrow>
          (case answer_local_records env h domain rt of
             Some m \<Rightarrow> Some m
           | None \<Rightarrow> answer_network_name env h name domain rt))"

section \<open>The handler\<close>

text \<open>The security gate: a result that ends the request, or the handler to go on with.\<close>

definition security_gate ::
  "('n, 'p, 'f) env \<Rightarrow> ('c, 'p, 'n, 'f) forward_handler \<Rightarrow> ip_addr \<Rightarrow> string \<Rightarrow> record_type
     \<Rightarrow> (('c, 'p, 'n, 'f) handled, ('c, 'p, 'n, 'f) forward_handler) result"
where
  "security_gate env h client_ip domain rt =
     (case fh_security h of
        None \<Rightarrow> Inr h
      | Some sec \<Rightarrow>
          (let (refusal, sec1) = check_pre_query (ev_limiters env) sec client_ip domain rt;
               h1 = h\<lparr>fh_security := Some sec1\<rparr>
           in if refusal \<noteq> None then Inl (reply h1 [early_outcome domain ''REFUSED'' True] (send_code RcRefused))
              else
                (let (action, sec2) = check_response (ev_limiters env) sec1 client_ip (rrl_per_client client_ip (fh_allow_from h));
                     h2 = h\<lparr>fh_security := Some sec2\<rparr>
                 in case action of
                      RrlAllow \<Rightarrow> Inr h2
                    | RrlDrop \<Rightarrow> Inl ((reply h2 [early_outcome domain ''RRL_DROP'' True] (send_code ServFail))\<lparr>hr_message := None\<rparr>)
                    | RrlSlip \<Rightarrow> Inl (reply h2 [early_outcome domain ''RRL_SLIP'' False] send_truncated))))"

text \<open>Rewriting, after the policy has let the queried name pass.\<close>

definition rewrite_and_answer ::
  "('n, 'p, 'f) env \<Rightarrow> ('c, 'p, 'n, 'f) forward_handler \<Rightarrow> ('c, 'p, 'n) query_ctx \<Rightarrow> ('c, 'p, 'n, 'f) handled option"
where
  "rewrite_and_answer env h q =
     (case rewrite_apply (rp_rewrite_rules (qc_profile q)) (qc_domain q) of
        None \<Rightarrow> answer_query env h q
      | Some new_domain \<Rightarrow>
          (let q' = q\<lparr>qc_domain := new_domain, qc_rewrote_from := Some (qc_domain q)\<rparr>
           in case evaluate_synthetic_cname_hop (ev_hash env) (ev_op_is_match env) (fh_filter h) (qc_profile q) (qc_grant q) new_domain of
                None \<Rightarrow> None
              | Some (CnameBlock offending source) \<Rightarrow> Some (dispatch_block h q' (ByCname offending source))
              | Some CnameAllow \<Rightarrow> answer_query env h q'))"

definition decide_query ::
  "('n, 'p, 'f) env \<Rightarrow> ('c, 'p, 'n, 'f) forward_handler \<Rightarrow> ip_addr \<Rightarrow> 'n \<Rightarrow> record_type \<Rightarrow> dns_class \<Rightarrow> string
     \<Rightarrow> ('c, 'p) resolved_profile \<Rightarrow> ('c, 'p, 'n, 'f) handled option"
where
  "decide_query env h client_ip name rt cls domain profile =
     (case evaluate_active_operator_policy (ev_hash env) (ev_op_is_match env) (fh_filter h) domain profile of
        None \<Rightarrow> None
      | Some decision \<Rightarrow>
          (if apd_blocked decision
           then Some (reply h [(early_outcome domain ''BLOCKED'' True)\<lparr>oc_block_list_bit := list_bit (apd_source decision)\<rparr>]
                  (send_block_response name rt (rp_blocked_ttl_secs profile) (rp_block_response profile)))
           else
             rewrite_and_answer env h
               \<lparr>qc_client_ip = client_ip, qc_name = name, qc_type = rt, qc_class = cls, qc_profile = profile,
                qc_grant = apd_grant decision, qc_domain = domain, qc_rewrote_from = None,
                qc_ecs = build_option (rp_ecs_policy profile) client_ip\<rparr>))"

definition handle_inner ::
  "('n, 'p, 'f) env \<Rightarrow> ('c, 'p, 'n, 'f) forward_handler \<Rightarrow> 'n request \<Rightarrow> ('c, 'p, 'n, 'f) handled option"
where
  "handle_inner env h0 request =
     (let client_ip = rq_src request
      in if \<not> source_allowed client_ip (fh_allow_from h0) then Some (reply h0 [] (send_code RcRefused))
         else if \<not> fh_filter_ready h0 then Some (reply h0 [] (send_code ServFail))
         else case rq_query request of
           None \<Rightarrow> Some (reply h0 [] (send_code ServFail))
         | Some (name, rt, cls) \<Rightarrow>
             (if isl (validate_query (ev_labels env name = []) (ev_labels env name = []) (ev_labels env name))
              then Some (reply h0 [] (send_code ServFail))
              else
                (let domain = ascii_domain (ev_to_ascii env) name
                 in case security_gate env h0 client_ip domain rt of
                      Inl r \<Rightarrow> Some r
                    | Inr h \<Rightarrow>
                        (let profile = Option.bind (fh_profiles h) (\<lambda>m. re_profile (resolve m (map_of (ev_arp env)) client_ip))
                         in case answer_locally env h profile name domain rt of
                              Some m \<Rightarrow> Some (reply h [early_outcome domain ''LOCAL'' False] m)
                            | None \<Rightarrow>
                                (case profile of
                                   None \<Rightarrow> Some (reply h [early_outcome domain ''REFUSED'' True] (send_code RcRefused))
                                 | Some p \<Rightarrow> decide_query env h client_ip name rt cls domain p)))))"

definition handle_request ::
  "('n, 'p, 'f) env \<Rightarrow> ('c, 'p, 'n, 'f) forward_handler \<Rightarrow> 'n request \<Rightarrow> ('c, 'p, 'n, 'f) handled option"
where
  "handle_request env h request =
     map_option (\<lambda>r. if hr_error r \<noteq> None then r\<lparr>hr_message := Some (send_code ServFail)\<rparr> else r) (handle_inner env h request)"

end
