(* ===== verification/Resolver_Facts.thy ===== *)
theory Resolver_Facts
  imports Profile_Resolver
begin

text \<open>
  What a built resolver map serves: where every profile it can return comes from, which MAC
  addresses identify a device, which subnet wins, and how \<open>unfiltered\<close> reaches every level.
\<close>

section \<open>Maps built by folds\<close>

lemma foldl_upd_Some:
  assumes "foldl (\<lambda>m e. case f e of None \<Rightarrow> m | Some (k, v) \<Rightarrow> m(k \<mapsto> v)) m0 es k = Some v"
  shows "m0 k = Some v \<or> (\<exists>e \<in> set es. f e = Some (k, v))"
  using assms
proof (induction es arbitrary: m0)
  case (Cons e es)
  show ?case
    using Cons.IH [of "case f e of None \<Rightarrow> m0 | Some (k, v) \<Rightarrow> m0(k \<mapsto> v)"] Cons.prems
    by (auto split: option.splits prod.splits if_splits)
qed simp

lemma foldl_upd_map_of:
  "foldl (\<lambda>m x. m(key x \<mapsto> f x)) m0 xs = m0 ++ map_of (rev (map (\<lambda>x. (key x, f x)) xs))"
  by (induction xs arbitrary: m0) (auto simp: map_add_def fun_eq_iff split: option.splits)

lemma collect_by_map_of: "collect_by key xs = map_of (rev (map (\<lambda>x. (key x, x)) xs))"
  by (simp add: collect_by_def foldl_upd_map_of)

lemma collect_by_Some: "collect_by key xs k = Some x \<Longrightarrow> x \<in> set xs \<and> key x = k"
  by (auto simp: collect_by_map_of dest!: map_of_SomeD)

lemma collect_by_distinct:
  assumes "distinct (map key xs)" "x \<in> set xs"
  shows "collect_by key xs (key x) = Some x"
proof -
  have "distinct (map fst (rev (map (\<lambda>x. (key x, x)) xs)))"
    using assms(1) by (simp add: rev_map o_def flip: rev_map)
  then show ?thesis using assms(2) by (simp add: collect_by_map_of map_of_eq_Some_iff)
qed

lemma push_entry_Some:
  "push_entry m k x j = Some ys \<longleftrightarrow> (if j = k then ys = unwrap_or [] (m k) @ [x] else m j = Some ys)"
  by (auto simp: push_entry_def)

section \<open>Profiles\<close>

lemma resolve_profiles_Some:
  assumes "resolve_profiles re_build cfg store rules i = Some q"
  obtains profile where "(i, profile) \<in> set (cg_profiles cfg)"
    "resolve_profile re_build cfg store rules (i, profile) = Some (i, q)"
proof -
  have "\<exists>e \<in> set (cg_profiles cfg). resolve_profile re_build cfg store rules e = Some (i, q)"
    using foldl_upd_Some [of "resolve_profile re_build cfg store rules" Map.empty] assms
    unfolding resolve_profiles_def by fastforce
  then obtain raw profile where e: "(raw, profile) \<in> set (cg_profiles cfg)"
      "resolve_profile re_build cfg store rules (raw, profile) = Some (i, q)" by auto
  then have "raw = i"
    by (auto simp: resolve_profile_def id_new_def warden_ok Let_def split: sum.splits option.splits if_splits)
  then show thesis using that e by blast
qed

lemma resolve_profile_fields:
  assumes "resolve_profile re_build cfg store rules (i, profile) = Some (i, q)"
  shows "rp_name q = i" "\<not> rp_unfiltered q" "rp_block_all q = cf_block_all profile"
    "rp_ecs_policy q = from_profile_and_upstream (cf_ecs profile) (cg_upstream_ecs cfg)"
    "rules = Some c \<Longrightarrow> \<exists>b. rp_operator_rules q = Some b \<and> profile_binding_new c i = Some b"
    "rules = Some c \<Longrightarrow> rp_rules q = [] \<and> rp_allow_domains q = {} \<and> rp_deny_domains q = {}"
  using assms
  by (auto simp: resolve_profile_def bind_operator_rules_def build_v1_fields Let_def split: sum.splits option.splits if_splits)

section \<open>Devices\<close>

definition maps_ok ::
  "(string \<rightharpoonup> ('c, 'p) resolved_profile) \<Rightarrow> device list \<Rightarrow> ('c, 'p) device_maps \<Rightarrow> bool"
where
  "maps_ok profiles ds st \<longleftrightarrow>
     (\<forall>ip idx. dm_by_ip st ip = Some idx \<longrightarrow> (\<exists>d \<in> set ds. idx = index_device profiles d))
     \<and> (\<forall>mac idx. dm_by_mac st mac = Some idx \<longrightarrow>
          (\<exists>d \<in> set ds. idx = index_device profiles d) \<and> mac \<in> set (device_macs idx))
     \<and> (\<forall>i idx. dm_by_id st i = Some idx \<longrightarrow> (\<exists>d \<in> set ds. idx = index_device profiles d \<and> dv_id d = i))
     \<and> (\<forall>d \<in> set ds. dm_by_id st (dv_id d) \<noteq> None)"

lemma register_arp_Some:
  assumes "register_arp_ips arp idx by_ip mac ip = Some x"
  shows "by_ip ip = Some x \<or> x = idx \<and> (\<exists>a. (a, mac) \<in> set arp \<and> canonical_ip a = ip)"
proof -
  have "foldl (\<lambda>m arp_ip. let ip = canonical_ip arp_ip in if m ip \<noteq> None then m else m(ip \<mapsto> idx)) m0 ips ip = Some x
      \<Longrightarrow> m0 ip = Some x \<or> x = idx \<and> ip \<in> canonical_ip ` set ips" for m0 ips
  proof (induction ips arbitrary: m0)
    case (Cons a ips)
    show ?case
      using Cons.IH [of "if m0 (canonical_ip a) \<noteq> None then m0 else m0(canonical_ip a \<mapsto> idx)"] Cons.prems
      by (auto simp: Let_def split: if_splits)
  qed simp
  from this [OF assms [unfolded register_arp_ips_def]] show ?thesis by auto
qed

lemma register_macs_Some:
  "foldl (register_arp_ips arp idx) by_ip macs ip = Some x \<Longrightarrow>
     by_ip ip = Some x \<or> x = idx \<and> (\<exists>mac \<in> set macs. \<exists>a. (a, mac) \<in> set arp \<and> canonical_ip a = ip)"
  by (induction macs arbitrary: by_ip) (auto dest!: register_arp_Some)

lemma foldl_macs_Some:
  "foldl (\<lambda>m mac. m(mac \<mapsto> idx)) m0 macs k = Some x \<Longrightarrow> m0 k = Some x \<or> x = idx \<and> k \<in> set macs"
  using foldl_upd_map_of [of "\<lambda>mac. mac" "\<lambda>_. idx" m0 macs]
  by (auto simp: map_add_Some_iff dest!: map_of_SomeD)

lemma add_device_ok:
  assumes "maps_ok profiles ds st"
  shows "maps_ok profiles (ds @ [d]) (add_device profiles arp st d)"
proof -
  let ?idx = "index_device profiles d" and ?st = "add_device profiles arp st d"
  have ip: "dm_by_ip ?st k = Some x \<Longrightarrow> dm_by_ip st k = Some x \<or> x = ?idx" for k x
    using register_macs_Some [of arp ?idx]
    by (fastforce simp: add_device_def Let_def case_prod_beta split: option.splits if_splits)
  have mac: "dm_by_mac ?st k = Some x \<Longrightarrow> dm_by_mac st k = Some x \<or> x = ?idx \<and> k \<in> set (device_macs ?idx)" for k x
    using foldl_macs_Some [of ?idx] by (fastforce simp: add_device_def Let_def case_prod_beta)
  have "dm_by_id ?st = (dm_by_id st)(dv_id d \<mapsto> ?idx)" by (simp add: add_device_def Let_def case_prod_beta)
  then show ?thesis using assms ip mac unfolding maps_ok_def by (auto split: if_splits) blast+
qed

lemma build_devices_ok: "maps_ok profiles ds (build_devices profiles arp ds)"
proof -
  have "maps_ok profiles (as @ ds) (foldl (add_device profiles arp) st ds)" if "maps_ok profiles as st" for as st
    using that
  proof (induction ds arbitrary: as st)
    case (Cons d ds)
    from Cons.IH [OF add_device_ok [OF Cons.prems]] show ?case by simp
  qed simp
  from this [of "[]" "\<lparr>dm_by_ip = Map.empty, dm_by_mac = Map.empty, dm_by_id = Map.empty, dm_names = Map.empty, dm_wildcards = []\<rparr>"]
  have "maps_ok profiles ds (foldl (add_device profiles arp)
      \<lparr>dm_by_ip = Map.empty, dm_by_mac = Map.empty, dm_by_id = Map.empty, dm_names = Map.empty, dm_wildcards = []\<rparr> ds)"
    by (simp add: maps_ok_def)
  then show ?thesis unfolding build_devices_def Let_def by (simp add: maps_ok_def)
qed

section \<open>Groups and schedules\<close>

text \<open>The profile a device gets from a base profile: the unfiltered variant when the device
  is marked so.\<close>

definition variant_of ::
  "(string \<rightharpoonup> ('c, 'p) resolved_profile) \<Rightarrow> device list \<Rightarrow> string \<Rightarrow> ('c, 'p) resolved_profile \<Rightarrow> bool"
where
  "variant_of profiles ds i p \<longleftrightarrow>
     (\<exists>d \<in> set ds. \<exists>slug prof. dv_id d = i \<and> profiles slug = Some prof \<and> p = unfiltered_variant d prof)"

lemma variant_ofI:
  "d \<in> set ds \<Longrightarrow> profiles slug = Some prof \<Longrightarrow> variant_of profiles ds (dv_id d) (unfiltered_variant d prof)"
  by (auto simp: variant_of_def)

lemma collect_by_None: "collect_by key xs k = None \<longleftrightarrow> (\<forall>x \<in> set xs. key x \<noteq> k)"
  by (auto simp: collect_by_map_of map_of_eq_None_iff image_iff)

definition matches_ok ::
  "(string \<rightharpoonup> ('c, 'p) resolved_profile) \<Rightarrow> device list \<Rightarrow> (string \<rightharpoonup> ('c, 'p) group_match list) \<Rightarrow> bool"
where
  "matches_ok profiles ds m \<longleftrightarrow>
     (\<forall>d \<in> set ds. \<forall>gms. m (dv_id d) = Some gms \<longrightarrow> (\<forall>g \<in> set gms. variant_of profiles ds (dv_id d) (gm_profile g)))"

lemma matches_ok_push:
  "matches_ok profiles ds m \<Longrightarrow> (\<And>d. d \<in> set ds \<Longrightarrow> dv_id d = i \<Longrightarrow> variant_of profiles ds i (gm_profile g))
     \<Longrightarrow> matches_ok profiles ds (push_entry m i g)"
  unfolding matches_ok_def push_entry_Some by (cases "m i") (auto split: if_splits)

lemma foldl_invariant: "P s \<Longrightarrow> (\<And>s x. x \<in> set xs \<Longrightarrow> P s \<Longrightarrow> P (f s x)) \<Longrightarrow> P (foldl f s xs)"
  by (induction xs arbitrary: s) auto

lemma groups_from_devices_ok: "matches_ok profiles ds (groups_from_devices profiles gs ds)"
  unfolding groups_from_devices_def
proof (intro foldl_invariant [where P = "matches_ok profiles ds"])
  show "matches_ok profiles ds Map.empty" by (simp add: matches_ok_def)
  fix m and d gid assume "d \<in> set ds" and m: "matches_ok profiles ds m"
  then show "matches_ok profiles ds (case collect_by gr_id gs gid of None \<Rightarrow> m
      | Some g \<Rightarrow> (case profiles (gr_profile g) of None \<Rightarrow> m
        | Some prof \<Rightarrow> push_entry m (dv_id d)
            \<lparr>gm_id = gr_id g, gm_priority = gr_priority g, gm_profile = unfiltered_variant d prof\<rparr>))"
    by (auto simp: matches_ok_push variant_ofI split: option.splits)
qed

lemma add_group_members_ok:
  assumes "matches_ok profiles ds m"
  shows "matches_ok profiles ds (add_group_members profiles ds m g)"
proof (cases "profiles (gr_profile g)")
  case (Some prof)
  have "variant_of profiles ds i (case collect_by dv_id ds i of Some d \<Rightarrow> unfiltered_variant d prof | None \<Rightarrow> prof)"
    if "d \<in> set ds" "dv_id d = i" for i d
    using that Some
    by (cases "collect_by dv_id ds i") (auto simp: collect_by_None variant_of_def dest!: collect_by_Some)
  then show ?thesis
    unfolding add_group_members_def using Some assms
    by (simp, intro foldl_invariant [where P = "matches_ok profiles ds"]) (simp_all add: matches_ok_push)
qed (simp add: add_group_members_def assms)

lemma build_device_groups_ok: "matches_ok profiles ds (build_device_groups profiles gs ds)"
proof -
  have "matches_ok profiles ds (foldl (add_group_members profiles ds) (groups_from_devices profiles gs ds) gs)"
    by (intro foldl_invariant [where P = "matches_ok profiles ds"] groups_from_devices_ok add_group_members_ok)
  then show ?thesis by (auto simp: build_device_groups_def matches_ok_def)
qed

definition schedules_ok ::
  "(string \<rightharpoonup> ('c, 'p) resolved_profile) \<Rightarrow> (string \<rightharpoonup> ('c, 'p) schedule_match list) \<Rightarrow> bool"
where
  "schedules_ok profiles m \<longleftrightarrow>
     (\<forall>i shs. m i = Some shs \<longrightarrow> (\<forall>s \<in> set shs. \<exists>slug. profiles slug = Some (sh_profile s)))"

lemma schedules_ok_push:
  "schedules_ok profiles m \<Longrightarrow> profiles slug = Some (sh_profile s) \<Longrightarrow> schedules_ok profiles (push_entry m i s)"
  unfolding schedules_ok_def push_entry_def by (cases "m i") auto

lemma schedules_for_ok: "schedules_ok profiles (schedules_for profiles target scs)"
  unfolding schedules_for_def
proof (rule foldl_invariant [where P = "schedules_ok profiles"])
  show "schedules_ok profiles Map.empty" by (simp add: schedules_ok_def)
next
  fix m sc assume "schedules_ok profiles m"
  then show "schedules_ok profiles (case profiles (sv_profile sc) of None \<Rightarrow> m | Some prof \<Rightarrow> (case parse_v1 sc of None \<Rightarrow> m
      | Some parsed \<Rightarrow> if sv_target_type sc = target
          then push_entry m (sv_target_id sc) \<lparr>sh_id = sv_id sc, sh_parsed = parsed, sh_profile = prof\<rparr> else m))"
    by (simp add: schedules_ok_push split: option.split)
qed

lemma active_schedule_profile:
  assumes "schedules_ok profiles by" "Option.bind (by j) (find P) = Some s"
  shows "\<exists>slug. profiles slug = Some (sh_profile s)"
proof -
  obtain shs where shs: "by j = Some shs" "find P shs = Some s" using assms(2) by (auto simp: bind_eq_Some_conv)
  from shs(2) have "s \<in> set shs" by (auto simp: find_Some_iff)
  then show ?thesis using assms(1) shs(1) by (auto simp: schedules_ok_def)
qed

lemma compute_active_profile:
  assumes "compute_active_schedule now groups by_dev by_grp time i = Some s"
    and "schedules_ok profiles by_dev" "schedules_ok profiles by_grp"
  shows "\<exists>slug. profiles slug = Some (sh_profile s)"
proof -
  obtain j P where "Option.bind (by_dev j) (find P) = Some s \<or> Option.bind (by_grp j) (find P) = Some s"
    using assms(1) unfolding compute_active_schedule_def Let_def
    by (cases "groups i") (auto split: prod.splits option.splits)
  then show ?thesis using active_schedule_profile assms(2,3) by blast
qed

section \<open>What a resolution returns\<close>

lemma resolve_cases:
  fixes m :: "('c, 'p) resolver_map" and arp ip0
  defines "cand \<equiv> device_candidate m arp (canonical_ip ip0)" and "r \<equiv> resolve m arp ip0"
  obtains
    (Schedule) dev hit where "cand = Some dev" "rm_active_schedule_by_device m (di_id dev) = Some hit"
      "re_profile r = Some (sh_profile hit)" "re_device_id r = Some (di_id dev)" "re_level r = Some LevelSchedule"
  | (Direct) dev p where "cand = Some dev" "di_direct_profile dev = Some p" "re_profile r = Some p"
      "re_device_id r = Some (di_id dev)" "re_level r = Some LevelDeviceDirect"
  | (Group) dev g gs where "cand = Some dev" "rm_device_groups m (di_id dev) = Some (g # gs)"
      "re_profile r = Some (gm_profile g)" "re_device_id r = Some (di_id dev)" "re_level r = Some LevelGroup"
      "re_matched_group r = Some (gm_id g)"
  | (Subnet) sn where "find (\<lambda>sn. cidr_contains (sm_cidr sn) (canonical_ip ip0)) (rm_subnets m) = Some sn"
      "re_profile r = Some (pair_pick (sm_profile sn) (case cand of Some d \<Rightarrow> di_unfiltered d | None \<Rightarrow> False))"
      "re_device_id r = map_option di_id cand" "re_level r = Some LevelSubnet" "re_matched_subnet r = Some (sm_id sn)"
  | (Default) pair where "find (\<lambda>sn. cidr_contains (sm_cidr sn) (canonical_ip ip0)) (rm_subnets m) = None"
      "rm_default_profile m = Some pair"
      "re_profile r = Some (pair_pick pair (case cand of Some d \<Rightarrow> di_unfiltered d | None \<Rightarrow> False))"
      "re_device_id r = map_option di_id cand" "re_level r = Some LevelGlobalDefault"
  | (Refused) "find (\<lambda>sn. cidr_contains (sm_cidr sn) (canonical_ip ip0)) (rm_subnets m) = None"
      "rm_default_profile m = None" "re_profile r = None" "re_device_id r = None" "re_level r = None"
proof -
  let ?fb = "resolve_fallback m cand (canonical_ip ip0)"
  show thesis
  proof (cases "Option.bind cand (resolve_device m)")
    case None
    then have r: "r = ?fb" by (simp add: r_def resolve_def cand_def Let_def)
    show thesis
    proof (cases "find (\<lambda>sn. cidr_contains (sm_cidr sn) (canonical_ip ip0)) (rm_subnets m)")
      case find: None
      show thesis
      proof (cases "rm_default_profile m")
        case None
        then show thesis using find by (intro Refused) (simp_all add: r resolve_fallback_def refused_def Let_def)
      next
        case (Some pair)
        then show thesis using find by (intro Default) (simp_all add: r resolve_fallback_def Let_def)
      qed
    next
      case (Some sn)
      then show thesis by (intro Subnet) (simp_all add: r resolve_fallback_def Let_def)
    qed
  next
    case (Some x)
    then obtain dev where dev: "cand = Some dev" "resolve_device m dev = Some r"
      by (cases cand) (auto simp: r_def resolve_def cand_def Let_def)
    note dev(2) [unfolded resolve_device_def Let_def]
    then show thesis
      by (auto split: option.split_asm list.split_asm intro: Schedule [OF dev(1)] Direct [OF dev(1)] Group [OF dev(1)])
  qed
qed

lemma build_resolver_map_fields:
  fixes re_build :: "string \<Rightarrow> (string, 'c) result" and cfg store ident arp now time
    and rules :: "'p compiled_operator_rules option"
  defines "profiles \<equiv> resolve_profiles re_build cfg store rules"
    and "m \<equiv> build_resolver_map re_build cfg store rules ident arp now time"
  shows "rm_devices_by_ip m = dm_by_ip (build_devices profiles arp (cg_devices cfg))"
    "rm_devices_by_mac m = dm_by_mac (build_devices profiles arp (cg_devices cfg))"
    "rm_device_groups m = build_device_groups profiles (cg_groups cfg) (cg_devices cfg)"
    "rm_subnets m = build_subnets profiles (cg_subnets cfg)"
    "rm_default_profile m = map_option pair_new (Option.bind (sg_default_profile (cg_server cfg)) profiles)"
    "rm_enforce_mac m = sg_enforce_device_mac (cg_server cfg)"
    "rm_policy_identity m = ident" "rm_profiles m = profiles"
    "rm_slug_to_id m = build_slug_to_id_map (cg_blocklists cfg)"
  by (simp_all add: m_def profiles_def build_resolver_map_def Let_def)

text \<open>The device a built map identifies is a device of the configuration.\<close>

lemma candidate_device:
  assumes "device_candidate (build_resolver_map re_build cfg store rules ident arp0 now time) arp ip = Some dev"
  shows "\<exists>d \<in> set (cg_devices cfg). dev = index_device (resolve_profiles re_build cfg store rules) d"
proof -
  let ?m = "build_resolver_map re_build cfg store rules ident arp0 now time"
  consider "rm_devices_by_ip ?m ip = Some dev" | mac where "rm_devices_by_mac ?m mac = Some dev"
    using assms by (auto simp: device_candidate_def bind_eq_Some_conv split: option.splits if_splits)
  then show ?thesis
    using build_devices_ok [of "resolve_profiles re_build cfg store rules" "cg_devices cfg" arp0]
    unfolding maps_ok_def by cases (simp_all add: build_resolver_map_fields)
qed

lemma active_schedule_variant:
  assumes "rm_active_schedule_by_device (build_resolver_map re_build cfg store rules ident arp now time) i = Some hit"
    and "d \<in> set (cg_devices cfg)" "dv_id d = i"
  shows "variant_of (resolve_profiles re_build cfg store rules) (cg_devices cfg) i (sh_profile hit)"
proof -
  let ?p = "resolve_profiles re_build cfg store rules"
  obtain d' where d': "collect_by dv_id (cg_devices cfg) i = Some d'"
    using assms(2,3) by (cases "collect_by dv_id (cg_devices cfg) i") (auto simp: collect_by_None)
  then obtain s groups where
      s: "compute_active_schedule now groups (schedules_for ?p TargetDevice (cg_schedules cfg))
            (schedules_for ?p TargetGroup (cg_schedules cfg)) time i = Some s"
      and hit: "hit = s\<lparr>sh_profile := unfiltered_variant d' (sh_profile s)\<rparr>"
    using assms(1) by (auto simp: build_resolver_map_def Let_def split: if_splits)
  obtain slug where "?p slug = Some (sh_profile s)"
    using compute_active_profile [OF s schedules_for_ok schedules_for_ok] by blast
  then show ?thesis using collect_by_Some [OF d'] variant_ofI hit by auto
qed

lemma set_map_filter: "y \<in> set (List.map_filter f xs) \<longleftrightarrow> (\<exists>x \<in> set xs. f x = Some y)"
  by (induction xs) (auto simp: map_filter_simps split: option.split)

lemma set_build_subnets:
  "x \<in> set (build_subnets profiles sns) \<longleftrightarrow>
     (\<exists>sn \<in> set sns. \<exists>base. \<exists>c \<in> set (sn_cidrs sn). \<exists>cidr.
        profiles (sn_profile sn) = Some base \<and> cidr_parse c = Inr cidr
        \<and> x = \<lparr>sm_id = sn_id sn, sm_cidr = cidr, sm_prefix = cidr_prefix_len cidr,
               sm_priority = sn_priority sn, sm_profile = pair_new base\<rparr>)"
proof -
  have parsed: "(case cidr_parse c of Inl _ \<Rightarrow> None | Inr cidr \<Rightarrow> Some (f cidr)) = Some y
      \<longleftrightarrow> (\<exists>cidr. cidr_parse c = Inr cidr \<and> y = f cidr)" for c y and f :: "cidr \<Rightarrow> ('a, 'b) subnet_match"
    by (cases "cidr_parse c") auto
  show ?thesis by (simp add: build_subnets_def set_map_filter parsed) metis
qed

lemma pick_variant: "pair_pick (pair_new base) (dv_unfiltered d) = unfiltered_variant d base"
  by (simp add: pair_pick_def pair_new_def unfiltered_variant_def)

lemma device_profile_variant:
  fixes re_build :: "string \<Rightarrow> (string, 'c) result" and cfg store ident arp0 now time
    and rules :: "'p compiled_operator_rules option"
  defines "m \<equiv> build_resolver_map re_build cfg store rules ident arp0 now time"
  assumes "re_device_id (resolve m arp ip) = Some i" "re_profile (resolve m arp ip) = Some p"
  shows "variant_of (resolve_profiles re_build cfg store rules) (cg_devices cfg) i p"
proof -
  let ?p = "resolve_profiles re_build cfg store rules" and ?ds = "cg_devices cfg"
  have identified: "\<exists>d \<in> set ?ds. dev = index_device ?p d \<and> dv_id d = di_id dev \<and> dv_unfiltered d = di_unfiltered dev"
    if "device_candidate m arp (canonical_ip ip) = Some dev" for dev
    using candidate_device [OF that [unfolded m_def]] by (auto simp: index_device_def)
  have fallback: "variant_of ?p ?ds i (pair_pick (pair_new base) (case cand of Some d \<Rightarrow> di_unfiltered d | None \<Rightarrow> False))"
    if "?p slug = Some base" "map_option di_id cand = Some i" "cand = device_candidate m arp (canonical_ip ip)" for slug base cand
  proof -
    note fb = that
    obtain dev where dev: "cand = Some dev" "di_id dev = i" using fb(2) by (cases cand) auto
    with identified [of dev] fb(3) obtain d where "d \<in> set ?ds" "dv_id d = i" "dv_unfiltered d = di_unfiltered dev" by auto
    then show ?thesis using variant_ofI [of d ?ds ?p slug base] fb(1) dev(1) pick_variant [of base d] by simp
  qed
  show ?thesis
  proof (cases m arp ip rule: resolve_cases)
    case (Schedule dev hit)
    then show ?thesis using identified [of dev] assms(2,3) active_schedule_variant [of re_build cfg store rules ident arp0 now time i hit]
      by (auto simp: m_def)
  next
    case (Direct dev q)
    then show ?thesis using identified [OF Direct(1)] assms(2,3)
      by (auto simp: index_device_def bind_eq_Some_conv intro: variant_ofI)
  next
    case (Group dev g gs)
    then obtain d where "d \<in> set ?ds" "dv_id d = i" using identified [OF Group(1)] assms(2) by auto
    then show ?thesis
      using Group assms(2,3) build_device_groups_ok [of ?p ?ds "cg_groups cfg"]
      by (auto simp: matches_ok_def m_def build_resolver_map_fields)
  next
    case (Subnet sn)
    then have "sn \<in> set (build_subnets ?p (cg_subnets cfg))"
      by (auto simp: find_Some_iff m_def build_resolver_map_fields)
    then obtain base slug where "sm_profile sn = pair_new base" "?p slug = Some base" by (auto simp: set_build_subnets)
    then show ?thesis using Subnet(2,3) assms(2,3) fallback [of slug base] by simp
  next
    case (Default pair)
    then obtain base slug where "pair = pair_new base" "?p slug = Some base"
      by (auto simp: m_def build_resolver_map_fields bind_eq_Some_conv)
    then show ?thesis using Default(3,4) assms(2,3) fallback [of slug base] by simp
  next
    case Refused
    then show ?thesis using assms(3) by simp
  qed
qed

lemma anonymous_profile:
  fixes re_build :: "string \<Rightarrow> (string, 'c) result" and cfg store ident arp0 now time
    and rules :: "'p compiled_operator_rules option"
  defines "m \<equiv> build_resolver_map re_build cfg store rules ident arp0 now time"
  assumes "re_device_id (resolve m arp ip) = None" "re_profile (resolve m arp ip) = Some p"
  shows "\<exists>slug. resolve_profiles re_build cfg store rules slug = Some p"
proof (cases m arp ip rule: resolve_cases)
  case (Subnet sn)
  then have "sn \<in> set (build_subnets (resolve_profiles re_build cfg store rules) (cg_subnets cfg))"
    by (auto simp: find_Some_iff m_def build_resolver_map_fields)
  then show ?thesis using Subnet(2,3) assms(2,3)
    by (auto simp: set_build_subnets pair_pick_def pair_new_def)
next
  case (Default pair)
  then show ?thesis using assms(2,3)
    by (auto simp: m_def build_resolver_map_fields bind_eq_Some_conv pair_pick_def pair_new_def)
qed (use assms(2,3) in auto)

lemma served_profile:
  fixes re_build :: "string \<Rightarrow> (string, 'c) result" and cfg store ident arp0 now time
    and rules :: "'p compiled_operator_rules option"
  defines "m \<equiv> build_resolver_map re_build cfg store rules ident arp0 now time"
  assumes "re_profile (resolve m arp ip) = Some p"
  shows "\<exists>slug q. resolve_profiles re_build cfg store rules slug = Some q \<and> (p = q \<or> p = as_unfiltered q)"
proof (cases "re_device_id (resolve m arp ip)")
  case None
  then show ?thesis using anonymous_profile assms(2) unfolding m_def by blast
next
  case (Some i)
  have "variant_of (resolve_profiles re_build cfg store rules) (cg_devices cfg) i p"
    using device_profile_variant Some assms(2) unfolding m_def by blast
  then show ?thesis unfolding variant_of_def unfiltered_variant_def by metis
qed

section \<open>The contract of resolution\<close>

text \<open>The MAC addresses of a device in the spelling of the neighbour table, and the addresses the
  map files for it.\<close>

definition macs_of :: "device \<Rightarrow> string set" where
  "macs_of d = to_ascii_uppercase ` (set_option (dv_mac d) \<union> set (dv_mac_aliases d))"

definition filed_for :: "(ip_addr \<times> string) list \<Rightarrow> device \<Rightarrow> ip_addr \<Rightarrow> bool" where
  "filed_for arp d ip \<longleftrightarrow> map_option canonical_ip (dv_ip d) = Some ip
     \<or> (\<exists>(a, mac) \<in> set arp. canonical_ip a = ip \<and> mac \<in> macs_of d)"

lemma set_device_macs: "set (device_macs (index_device profiles d)) = macs_of d"
  by (cases "dv_mac d") (auto simp: device_macs_def index_device_def macs_of_def)

lemma add_device_filed:
  assumes "dm_by_ip (add_device profiles arp st d) ip = Some x"
  shows "dm_by_ip st ip = Some x \<or> x = index_device profiles d \<and> filed_for arp d ip"
proof -
  let ?idx = "index_device profiles d"
  have "foldl (register_arp_ips arp ?idx) (case dv_ip d of None \<Rightarrow> dm_by_ip st | Some a \<Rightarrow> (dm_by_ip st)(canonical_ip a \<mapsto> ?idx))
      (device_macs ?idx) ip = Some x"
    using assms by (simp add: add_device_def Let_def case_prod_beta)
  from register_macs_Some [OF this] show ?thesis
    unfolding set_device_macs by (auto simp: filed_for_def split: option.splits if_splits)
qed

lemma build_devices_filed:
  assumes "dm_by_ip (build_devices profiles arp ds) ip = Some x"
  shows "\<exists>d \<in> set ds. x = index_device profiles d \<and> filed_for arp d ip"
proof -
  have "dm_by_ip st ip = Some x \<or> (\<exists>d \<in> set ds. x = index_device profiles d \<and> filed_for arp d ip)"
    if "dm_by_ip (foldl (add_device profiles arp) st ds) ip = Some x" for st
    using that
  proof (induction ds arbitrary: st)
    case (Cons d ds)
    from Cons.IH [of "add_device profiles arp st d"] Cons.prems add_device_filed [of profiles arp st d ip x]
    show ?case by auto
  qed simp
  from this [of "\<lparr>dm_by_ip = Map.empty, dm_by_mac = Map.empty, dm_by_id = Map.empty, dm_names = Map.empty, dm_wildcards = []\<rparr>"] assms
  show ?thesis unfolding build_devices_def Let_def by simp
qed

text \<open>C22. With MAC enforcement on, a resolution names a device only on evidence of its MAC.  If the
  neighbour table knows the address, the MAC it shows is the device's pin or one of its aliases.
  If it does not, the device has a pin and the address is filed for it: it is the address the
  configuration gives it, or one the neighbour table showed for one of its MACs when the map was
  built.  A device without a MAC is never named.\<close>

theorem device_needs_its_mac:
  fixes re_build :: "string \<Rightarrow> (string, 'c) result" and rules :: "'p compiled_operator_rules option"
  assumes "sg_enforce_device_mac (cg_server cfg)"
    and "re_device_id (resolve (build_resolver_map re_build cfg store rules ident arp0 now time) arp ip) = Some i"
  shows "\<exists>d \<in> set (cg_devices cfg). dv_id d = i
    \<and> (case arp (canonical_ip ip) of
         Some mac \<Rightarrow> mac \<in> macs_of d
       | None \<Rightarrow> dv_mac d \<noteq> None
           \<and> filed_for arp0 d (canonical_ip ip))"
proof -
  let ?m = "build_resolver_map re_build cfg store rules ident arp0 now time"
    and ?p = "resolve_profiles re_build cfg store rules" and ?ip = "canonical_ip ip"
  obtain dev where dev: "device_candidate ?m arp ?ip = Some dev" "di_id dev = i"
    using assms(2) by (cases ?m arp ip rule: resolve_cases) auto
  show ?thesis
  proof (cases "arp ?ip")
    case (Some mac)
    have by_mac: "mac \<in> set (device_macs x)" if "rm_devices_by_mac ?m mac = Some x" for x
      using that build_devices_ok [of ?p "cg_devices cfg" arp0] by (simp add: maps_ok_def build_resolver_map_fields)
    have "mac \<in> set (device_macs dev)"
      using dev(1) assms(1) Some by_mac
      by (auto simp: device_candidate_def device_macs_def build_resolver_map_fields(6) split: option.splits if_splits)
    moreover obtain d where d: "d \<in> set (cg_devices cfg)" "dev = index_device ?p d" using candidate_device [OF dev(1)] by blast
    ultimately have "mac \<in> macs_of d" by (simp add: set_device_macs)
    then show ?thesis using d dev(2) Some by (intro bexI [of _ d]) (simp_all add: index_device_def)
  next
    case None
    have filed: "rm_devices_by_ip ?m ?ip = Some dev" and pin: "di_mac_pin dev \<noteq> None"
      using dev(1) assms(1) None
      by (auto simp: device_candidate_def build_resolver_map_fields(6) split: option.splits if_splits)
    obtain d where "d \<in> set (cg_devices cfg)" "dev = index_device ?p d" "filed_for arp0 d ?ip"
      using build_devices_filed [of ?p arp0 "cg_devices cfg" ?ip dev] filed by (auto simp: build_resolver_map_fields)
    then show ?thesis using dev(2) pin None by (intro bexI [of _ d]) (simp_all add: index_device_def)
  qed
qed

text \<open>A small network: one device known by MAC, one subnet, a default profile.\<close>

definition sample_device :: device where
  "sample_device =
     \<lparr>dv_id = ''lap'', dv_display_name = ''Laptop'', dv_ip = None, dv_mac = Some ''aa'', dv_mac_aliases = [''bb''],
      dv_profile = None, dv_groups = [], dv_allow_rules = [], dv_deny_rules = [], dv_override_profile_deny = False,
      dv_unfiltered = True, dv_network_name = None, dv_network_name_wildcard = False\<rparr>"

definition sample_network :: config_v1 where
  "sample_network =
     \<lparr>cg_profiles = [(''kids'', sample_config)], cg_admin_rules = [], cg_devices = [sample_device], cg_groups = [],
      cg_subnets = [\<lparr>sn_id = ''wide'', sn_cidrs = [''10.0.0.0/8''], sn_profile = ''kids'', sn_priority = 9\<rparr>,
                    \<lparr>sn_id = ''lan'', sn_cidrs = [''10.1.0.0/16''], sn_profile = ''kids'', sn_priority = 0\<rparr>],
      cg_schedules = [], cg_blocklists = [],
      cg_server = sample_server\<lparr>sg_default_profile := Some ''kids''\<rparr>,
      cg_upstream_ecs = \<lparr>ec_enabled = False, ec_mode = EcsOff, ec_source_prefix_v4 = 24, ec_source_prefix_v6 = 56\<rparr>\<rparr>"

definition sample_identity :: policy_identity where
  "sample_identity = \<lparr>pi_config_revision = [], pi_operator_policy_hash = [], pi_resolver_generation = 1\<rparr>"

abbreviation sample_resolve ::
  "'p compiled_operator_rules option \<Rightarrow> (ip_addr \<rightharpoonup> string) \<Rightarrow> ip_addr \<Rightarrow> (unit, 'p) resolution"
where
  "sample_resolve rules \<equiv>
     resolve (build_resolver_map (\<lambda>_. Inr ()) sample_network Map.empty rules sample_identity [] 0 (0, 0, 0))"

lemma sample_resolves:
  shows "re_device_id (sample_resolve (None :: unit compiled_operator_rules option) [V4 0x0A010001 \<mapsto> ''AA''] (V4 0x0A010001)) = Some ''lap''"
    and "re_level (sample_resolve (None :: unit compiled_operator_rules option) [V4 0x0A010001 \<mapsto> ''AA''] (V4 0x0A010001)) = Some LevelSubnet"
    and "re_profile (sample_resolve (None :: unit compiled_operator_rules option) [V4 0x0A010001 \<mapsto> ''AA''] (V4 0x0A010001)) \<noteq> None"
proof -
  have "let r = sample_resolve (None :: unit compiled_operator_rules option) [V4 0x0A010001 \<mapsto> ''AA''] (V4 0x0A010001)
    in re_device_id r = Some ''lap'' \<and> re_level r = Some LevelSubnet \<and> re_profile r \<noteq> None"
    by code_simp
  then show "re_device_id (sample_resolve (None :: unit compiled_operator_rules option) [V4 0x0A010001 \<mapsto> ''AA''] (V4 0x0A010001)) = Some ''lap''"
    "re_level (sample_resolve (None :: unit compiled_operator_rules option) [V4 0x0A010001 \<mapsto> ''AA''] (V4 0x0A010001)) = Some LevelSubnet"
    "re_profile (sample_resolve (None :: unit compiled_operator_rules option) [V4 0x0A010001 \<mapsto> ''AA''] (V4 0x0A010001)) \<noteq> None"
    unfolding Let_def by blast+
qed

theorem device_needs_its_mac_witness:
  "re_device_id (sample_resolve (None :: unit compiled_operator_rules option) [V4 0x0A010001 \<mapsto> ''AA''] (V4 0x0A010001)) = Some ''lap''
   \<and> (\<exists>d \<in> set (cg_devices sample_network). dv_id d = ''lap''
        \<and> ''AA'' \<in> macs_of d)"
  using device_needs_its_mac [OF _ sample_resolves(1)] sample_resolves(1)
  by (simp add: sample_network_def sample_server_def canonical_ip_def)

lemma find_first_least:
  assumes "sorted (map f xs)" "find P xs = Some x" "y \<in> set xs" "P y"
  shows "f x \<le> f y"
proof -
  obtain i where i: "i < length xs" "x = xs ! i" "\<forall>j < i. \<not> P (xs ! j)" using assms(2) by (auto simp: find_Some_iff)
  obtain j where j: "j < length xs" "y = xs ! j" using assms(3) by (auto simp: in_set_conv_nth)
  have "i \<le> j" using i(3) j(2) assms(4) by (meson not_le)
  then show ?thesis using sorted_nth_mono [OF assms(1), of i j] i j by simp
qed

text \<open>C23. Among subnets the longest prefix wins: a resolution at subnet level names a configured
  range that holds the address, and no range of a subnet with a usable profile that holds the
  address has a longer prefix.\<close>

theorem subnet_longest_prefix:
  fixes re_build :: "string \<Rightarrow> (string, 'c) result" and rules :: "'p compiled_operator_rules option"
    and cfg store ident arp0 now time arp ip
  defines "r \<equiv> resolve (build_resolver_map re_build cfg store rules ident arp0 now time) arp ip"
  assumes "re_level r = Some LevelSubnet"
  shows "\<exists>sn \<in> set (cg_subnets cfg). \<exists>c \<in> set (sn_cidrs sn). \<exists>cidr.
    cidr_parse c = Inr cidr \<and> cidr_contains cidr (canonical_ip ip) \<and> re_matched_subnet r = Some (sn_id sn)
    \<and> (\<forall>sn' \<in> set (cg_subnets cfg). \<forall>c' \<in> set (sn_cidrs sn'). \<forall>cidr'.
          resolve_profiles re_build cfg store rules (sn_profile sn') \<noteq> None \<and> cidr_parse c' = Inr cidr'
            \<and> cidr_contains cidr' (canonical_ip ip)
          \<longrightarrow> cidr_prefix_len cidr' \<le> cidr_prefix_len cidr)"
proof -
  let ?m = "build_resolver_map re_build cfg store rules ident arp0 now time"
    and ?p = "resolve_profiles re_build cfg store rules"
  let ?xs = "build_subnets ?p (cg_subnets cfg)"
  obtain x where x: "find (\<lambda>sn. cidr_contains (sm_cidr sn) (canonical_ip ip)) ?xs = Some x"
      "re_matched_subnet r = Some (sm_id x)"
    using assms(2) unfolding r_def by (cases ?m arp ip rule: resolve_cases) (auto simp: build_resolver_map_fields(4))
  have "x \<in> set ?xs" "cidr_contains (sm_cidr x) (canonical_ip ip)" using x(1) by (auto simp: find_Some_iff)
  have "sm_prefix y \<le> sm_prefix x"
    if "y \<in> set ?xs" "cidr_contains (sm_cidr y) (canonical_ip ip)" for y
  proof -
    have "sorted (map (\<lambda>x. (- int (unat (sm_prefix x)), - sm_priority x, sm_id x)) ?xs)"
      by (simp add: build_subnets_def)
    then have "(- int (unat (sm_prefix x)), - sm_priority x, sm_id x) \<le> (- int (unat (sm_prefix y)), - sm_priority y, sm_id y)"
      using find_first_least [OF _ x(1) that] by blast
    then show ?thesis by (auto simp: less_eq_prod_def word_le_def)
  qed
  then have longest: "cidr_prefix_len cidr' \<le> sm_prefix x"
    if "sn' \<in> set (cg_subnets cfg)" "c' \<in> set (sn_cidrs sn')" "?p (sn_profile sn') \<noteq> None" "cidr_parse c' = Inr cidr'"
      "cidr_contains cidr' (canonical_ip ip)" for sn' c' cidr'
    using that set_build_subnets [of _ ?p "cg_subnets cfg"]
    by (metis (no_types, lifting) not_None_eq subnet_match.select_convs(2,3))
  obtain sn c cidr where "sn \<in> set (cg_subnets cfg)" "c \<in> set (sn_cidrs sn)" "cidr_parse c = Inr cidr"
      "sm_cidr x = cidr" "sm_prefix x = cidr_prefix_len cidr" "sm_id x = sn_id sn"
    using \<open>x \<in> set ?xs\<close> by (auto simp: set_build_subnets)
  then show ?thesis using longest \<open>cidr_contains (sm_cidr x) _\<close> x(2) by (intro bexI exI conjI) auto
qed

theorem subnet_longest_prefix_witness:
  "\<exists>sn \<in> set (cg_subnets sample_network). \<exists>c \<in> set (sn_cidrs sn). \<exists>cidr.
     cidr_parse c = Inr cidr \<and> cidr_contains cidr (V4 0x0A010001)
     \<and> re_matched_subnet (sample_resolve (None :: unit compiled_operator_rules option) [V4 0x0A010001 \<mapsto> ''AA''] (V4 0x0A010001)) = Some (sn_id sn)
     \<and> (\<forall>sn' \<in> set (cg_subnets sample_network). \<forall>c' \<in> set (sn_cidrs sn'). \<forall>cidr'.
          resolve_profiles (\<lambda>_. Inr ()) sample_network Map.empty (None :: unit compiled_operator_rules option) (sn_profile sn') \<noteq> None
            \<and> cidr_parse c' = Inr cidr' \<and> cidr_contains cidr' (V4 0x0A010001)
          \<longrightarrow> cidr_prefix_len cidr' \<le> cidr_prefix_len cidr)"
  using subnet_longest_prefix [OF sample_resolves(2)] unfolding canonical_ip_def ip_addr.case by blast

text \<open>C24. \<open>unfiltered\<close> is honoured at every level: whatever level answers for a device, the
  profile it gets is exempt from the lists exactly when the device is marked unfiltered.\<close>

theorem unfiltered_at_every_level:
  fixes re_build :: "string \<Rightarrow> (string, 'c) result" and rules :: "'p compiled_operator_rules option"
    and cfg store ident arp0 now time arp ip
  defines "r \<equiv> resolve (build_resolver_map re_build cfg store rules ident arp0 now time) arp ip"
  assumes "distinct (map dv_id (cg_devices cfg))" "d \<in> set (cg_devices cfg)"
    and "re_device_id r = Some (dv_id d)" "re_profile r = Some p"
  shows "rp_unfiltered p \<longleftrightarrow> dv_unfiltered d"
proof -
  have "variant_of (resolve_profiles re_build cfg store rules) (cg_devices cfg) (dv_id d) p"
    using device_profile_variant assms(4,5) unfolding r_def by blast
  then obtain d' slug q where q: "d' \<in> set (cg_devices cfg)" "dv_id d' = dv_id d"
      "resolve_profiles re_build cfg store rules slug = Some q" "p = unfiltered_variant d' q"
    unfolding variant_of_def by blast
  have "d' = d" using assms(2,3) q(1,2) by (auto simp: distinct_map inj_on_def)
  moreover have "\<not> rp_unfiltered q" using resolve_profiles_Some [OF q(3)] resolve_profile_fields(2) by metis
  ultimately show ?thesis using q(4) by (simp add: unfiltered_variant_def as_unfiltered_def)
qed

theorem unfiltered_at_every_level_witness:
  "\<exists>p. re_profile (sample_resolve (None :: unit compiled_operator_rules option) [V4 0x0A010001 \<mapsto> ''AA''] (V4 0x0A010001)) = Some p
     \<and> rp_unfiltered p = dv_unfiltered sample_device"
proof -
  obtain p where p: "re_profile (sample_resolve (None :: unit compiled_operator_rules option) [V4 0x0A010001 \<mapsto> ''AA''] (V4 0x0A010001)) = Some p"
    using sample_resolves(3) by blast
  have d: "distinct (map dv_id (cg_devices sample_network))" "sample_device \<in> set (cg_devices sample_network)" "dv_id sample_device = ''lap''"
    by (simp_all add: sample_network_def sample_device_def)
  from unfiltered_at_every_level [OF d(1,2) _ p] sample_resolves(1) d(3) p show ?thesis by simp
qed

lemma served_profile_binding:
  fixes re_build :: "string \<Rightarrow> (string, 'c) result" and c :: "'p compiled_operator_rules"
  assumes "re_profile (resolve (build_resolver_map re_build cfg store (Some c) ident arp0 now time) arp ip) = Some p"
  shows "rp_name p \<in> fst ` set (cg_profiles cfg)
    \<and> (\<exists>b. rp_operator_rules p = Some b \<and> profile_binding_new c (rp_name p) = Some b)
    \<and> rp_rules p = [] \<and> rp_allow_domains p = {} \<and> rp_deny_domains p = {}"
proof -
  obtain slug q where q: "resolve_profiles re_build cfg store (Some c) slug = Some q" "p = q \<or> p = as_unfiltered q"
    using served_profile [OF assms] by blast
  obtain profile where e: "(slug, profile) \<in> set (cg_profiles cfg)"
      "resolve_profile re_build cfg store (Some c) (slug, profile) = Some (slug, q)"
    using resolve_profiles_Some [OF q(1)] by blast
  note fields = resolve_profile_fields [OF e(2)]
  have "rp_name q \<in> fst ` set (cg_profiles cfg)" using e(1) fields(1) by force
  moreover have "rp_name p = rp_name q" "rp_operator_rules p = rp_operator_rules q" "rp_rules p = rp_rules q"
      "rp_allow_domains p = rp_allow_domains q" "rp_deny_domains p = rp_deny_domains q"
    using q(2) by (auto simp: as_unfiltered_def)
  ultimately show ?thesis using fields(1) fields(5,6) [OF refl] by simp
qed

text \<open>Once an operator snapshot is installed no client falls back to the older evaluator:
  every profile a resolution returns is one of the configuration, bound to the snapshot's
  profile of the same name, with its own rule vector and domain sets empty.\<close>

theorem served_profile_is_bound:
  fixes re_build :: "string \<Rightarrow> (string, 'c) result" and c :: "'p compiled_operator_rules"
  assumes "re_profile (resolve (build_resolver_map re_build cfg store (Some c) ident arp0 now time) arp ip) = Some p"
  shows "rp_name p \<in> fst ` set (cg_profiles cfg)
    \<and> (\<exists>b. rp_operator_rules p = Some b \<and> profile_binding_new c (rp_name p) = Some b)
    \<and> rp_rules p = [] \<and> rp_allow_domains p = {} \<and> rp_deny_domains p = {}"
  using assms by (rule served_profile_binding)

theorem served_profile_is_bound_witness:
  "\<exists>c adm' p b. sample_compile = (Inr c, adm') \<and> re_profile (sample_resolve (Some c) Map.empty (V4 1)) = Some p
     \<and> rp_operator_rules p = Some b \<and> profile_binding_new c (rp_name p) = Some b"
proof (rule sample_compile_Inr)
  fix c adm' assume c: "sample_compile = (Inr c, adm')"
  have "re_profile (sample_resolve (Some sample_snapshot) Map.empty (V4 1)) \<noteq> None" by code_simp
  then obtain p where p: "re_profile (sample_resolve (Some c) Map.empty (V4 1)) = Some p" by (auto simp: sample_compileD [OF c])
  then show ?thesis using served_profile_is_bound [OF p] c by blast
qed

lemma register_alias:
  "mac \<in> set macs \<or> by_ip ip = Some idx \<Longrightarrow> by_ip ip = None \<or> by_ip ip = Some idx \<Longrightarrow> canonical_ip ip = ip
     \<Longrightarrow> foldl (register_arp_ips [(ip, mac)] idx) by_ip macs ip = Some idx"
proof (induction macs arbitrary: by_ip)
  case (Cons m macs)
  show ?case using Cons.prems Cons.IH [of "register_arp_ips [(ip, mac)] idx by_ip m"]
    by (auto simp: register_arp_ips_def)
qed simp

lemma foldl_macs_mem:
  assumes "mac \<in> set macs"
  shows "foldl (\<lambda>m mac. m(mac \<mapsto> idx)) m0 macs mac = Some idx"
proof -
  let ?l = "rev (map (\<lambda>x. (x, idx)) macs)"
  obtain y where "map_of ?l mac = Some y" using assms weak_map_of_SomeI [of mac idx ?l] by auto
  moreover from this have "y = idx" by (auto dest: map_of_SomeD)
  ultimately show ?thesis using foldl_upd_map_of [of "\<lambda>mac. mac" "\<lambda>_. idx" m0 macs] by simp
qed

lemma register_no_arp: "foldl (register_arp_ips [] idx) by_ip macs = by_ip"
  by (induction macs) (simp_all add: register_arp_ips_def)

text \<open>C25. A second address of a device is accepted or refused depending on when the resolver map
  was built.  With enforcement on, a device that answers from a MAC alias is identified if the
  neighbour table did not yet show it when the map was built, and is not identified if it did:
  the address was then filed under the device, and a filed address is compared with the pin only.\<close>

theorem alias_identified_only_before_rebuild:
  fixes re_build :: "string \<Rightarrow> (string, 'c) result" and rules :: "'p compiled_operator_rules option"
  assumes "sg_enforce_device_mac (cg_server cfg)" "cg_devices cfg = [d]" "dv_ip d = None" "canonical_ip ip = ip"
    and "mac \<in> to_ascii_uppercase ` set (dv_mac_aliases d)" "map_option to_ascii_uppercase (dv_mac d) \<noteq> Some mac"
  shows "device_candidate (build_resolver_map re_build cfg store rules ident [(ip, mac)] now time) [ip \<mapsto> mac] ip = None
    \<and> device_candidate (build_resolver_map re_build cfg store rules ident [] now time) [ip \<mapsto> mac] ip
      = Some (index_device (resolve_profiles re_build cfg store rules) d)"
proof
  let ?idx = "index_device (resolve_profiles re_build cfg store rules) d"
  have mac: "mac \<in> set (device_macs ?idx)" "di_mac_pin ?idx \<noteq> Some mac"
    using assms(5,6) by (auto simp: device_macs_def index_device_def)
  have "dm_by_ip (build_devices (resolve_profiles re_build cfg store rules) [(ip, mac)] [d]) ip = Some ?idx"
    using register_alias [of mac "device_macs ?idx" Map.empty ip ?idx] mac(1) assms(3,4)
    by (simp add: build_devices_def add_device_def Let_def case_prod_beta)
  then show "device_candidate (build_resolver_map re_build cfg store rules ident [(ip, mac)] now time) [ip \<mapsto> mac] ip = None"
    using mac(2) assms(1,2)
    by (simp add: device_candidate_def build_resolver_map_fields split: option.split)
  have "dm_by_ip (build_devices (resolve_profiles re_build cfg store rules) [] [d]) ip = None"
    "dm_by_mac (build_devices (resolve_profiles re_build cfg store rules) [] [d]) mac = Some ?idx"
    using assms(3) foldl_macs_mem [OF mac(1), of ?idx Map.empty]
    by (simp_all add: build_devices_def add_device_def Let_def case_prod_beta register_no_arp)
  then show "device_candidate (build_resolver_map re_build cfg store rules ident [] now time) [ip \<mapsto> mac] ip = Some ?idx"
    using assms(2) by (simp add: device_candidate_def build_resolver_map_fields)
qed

theorem alias_identified_only_before_rebuild_witness:
  "device_candidate (build_resolver_map (\<lambda>_. Inr ()) sample_network Map.empty (None :: unit compiled_operator_rules option)
       sample_identity [(V4 1, ''BB'')] 0 (0, 0, 0)) [V4 1 \<mapsto> ''BB''] (V4 1) = None
   \<and> device_candidate (build_resolver_map (\<lambda>_. Inr ()) sample_network Map.empty (None :: unit compiled_operator_rules option)
       sample_identity [] 0 (0, 0, 0)) [V4 1 \<mapsto> ''BB''] (V4 1)
     = Some (index_device (resolve_profiles (\<lambda>_. Inr ()) sample_network Map.empty None) sample_device)"
proof -
  have "''BB'' \<in> to_ascii_uppercase ` set (dv_mac_aliases sample_device)"
    "map_option to_ascii_uppercase (dv_mac sample_device) \<noteq> Some ''BB''" by code_simp+
  then show ?thesis
    using alias_identified_only_before_rebuild [of sample_network sample_device "V4 1" "''BB''" "\<lambda>_. Inr ()" Map.empty
        "None :: unit compiled_operator_rules option" sample_identity 0 "(0, 0, 0)"]
    by (simp add: sample_network_def sample_server_def sample_device_def canonical_ip_def)
qed

end
