(* ===== verification/Handler_Facts.thy ===== *)
theory Handler_Facts
  imports Query_Handler Resolver_Facts
begin

text \<open>
  What the query handler guarantees: nothing is asked or served before every check has passed,
  every answer is checked again wherever it comes from, and no request panics.
\<close>

section \<open>The answering stage\<close>

lemma reply_fields [simp]:
  "hr_asked (reply h ocs m) = []" "hr_entry (reply h ocs m) = None" "hr_message (reply h ocs m) = Some m"
  "hr_error (reply h ocs m) = None" "hr_outcomes (reply h ocs m) = ocs" "hr_handler (reply h ocs m) = h"
  by (simp_all add: reply_def)

lemma dispatch_block_fields [simp]:
  "hr_asked (dispatch_block h q b) = []" "hr_entry (dispatch_block h q b) = None" "hr_error (dispatch_block h q b) = None"
  by (simp_all add: dispatch_block_def Let_def)

lemma serve_entry_fields [simp]:
  "hr_asked (serve_entry env h q e) = []" "hr_entry (serve_entry env h q e) = Some e" "hr_error (serve_entry env h q e) = None"
  by (simp_all add: serve_entry_def Let_def)

text \<open>What the two checks of an answer establish: its CNAME chain is allowed under the grant of the
  queried name, and it has no address of the address list, unless the grant lifts that list.\<close>

definition answer_passed ::
  "('n, 'p, 'f) env \<Rightarrow> ('c, 'p, 'n, 'f) forward_handler \<Rightarrow> ('c, 'p, 'n) query_ctx \<Rightarrow> 'n dns_record list \<Rightarrow> bool"
where
  "answer_passed env h q records \<longleftrightarrow>
     walk_response_with_rewrite (ev_labels env) (ev_same_name env) (ev_hash env) (ev_op_is_match env) (fh_filter h)
       (qc_profile q) (qc_grant q) records (qc_domain q) (qc_rewrote_from q) (fh_cname_max_depth h) = Some CnameAllow
     \<and> (\<forall>ips. fh_ip_filter h = Some ips \<longrightarrow>
          check_response_for_profile_with_grant ips records
            (Option.bind (rp_operator_rules (qc_profile q)) binding_profile) (qc_grant q) = None)"

lemma check_answer_state [simp]:
  "check_answer env (h\<lparr>fh_cache := c\<rparr>) q rs = check_answer env h q rs"
  by (simp add: check_answer_def cong: option.case_cong cname_verdict.case_cong)

lemma check_answer_passed: "check_answer env h q records = Some None \<longleftrightarrow> answer_passed env h q records"
  by (auto simp: check_answer_def answer_passed_def split: option.splits cname_verdict.splits)

lemma answer_passed_state [simp]:
  "answer_passed env (h\<lparr>fh_cache := c\<rparr>) q rs = answer_passed env h q rs"
  "answer_passed env (h\<lparr>fh_security := s\<rparr>) q rs = answer_passed env h q rs"
  by (simp_all add: answer_passed_def)

text \<open>A message without records of an answer: at most the sinkhole address.\<close>

definition sinkholed :: "'n message \<Rightarrow> bool" where
  "sinkholed m \<longleftrightarrow> dr_data ` set (ms_answers m) \<subseteq> {RdA 0, RdAAAA 0}"

lemma sinkholed_code [simp]: "sinkholed (send_code rc)"
  by (simp add: sinkholed_def send_code_def)

lemma dispatch_block_message:
  "\<exists>m. hr_message (dispatch_block h q b) = Some m \<and> sinkholed m"
  by (auto simp: dispatch_block_def Let_def sinkholed_def send_block_response_def send_blocked_def send_local_def
      send_soa_nodata_def send_code_def from_rdata_def split: block_response_v1.split)

text \<open>The records of a response come from one entry, which is empty or has passed the checks.\<close>

definition answer_checked ::
  "('n, 'p, 'f) env \<Rightarrow> ('c, 'p, 'n, 'f) forward_handler \<Rightarrow> ('c, 'p, 'n) query_ctx \<Rightarrow> ('c, 'p, 'n, 'f) handled \<Rightarrow> bool"
where
  "answer_checked env h q r \<longleftrightarrow>
     (case hr_entry r of
        Some e \<Rightarrow> (ce_records e = [] \<or> answer_passed env h q (ce_records e)) \<and> hr_error r = None
          \<and> (\<exists>target. hr_message r = Some (send_cached (ev_same_name env) (ev_now env) (qc_name q) e target))
      | None \<Rightarrow> hr_asked r = [] \<or> (\<forall>m. hr_message r = Some m \<longrightarrow> sinkholed m))"

lemma answer_checked_state [simp]:
  "answer_checked env (h\<lparr>fh_security := s\<rparr>) q r = answer_checked env h q r"
  by (simp add: answer_checked_def cong: option.case_cong)

lemma serve_checked:
  assumes "ce_records e = [] \<or> answer_passed env h q (ce_records e)"
  shows "answer_checked env h q ((serve_entry env h' q e)\<lparr>hr_asked := as, hr_outcomes := ocs\<rparr>)"
    "answer_checked env h q ((serve_entry env h' q e)\<lparr>hr_outcomes := ocs, hr_prefetch := pf\<rparr>)"
  using assms by (auto simp: answer_checked_def serve_entry_def Let_def reply_def)

lemma dispatch_checked: "answer_checked env h q ((dispatch_block h' q b)\<lparr>hr_asked := as, hr_outcomes := ocs\<rparr>)"
  using dispatch_block_message [of h' q b] by (auto simp: answer_checked_def)

lemma code_checked: "answer_checked env h q ((reply h' ocs (send_code rc))\<lparr>hr_asked := as, hr_outcomes := ocs'\<rparr>)"
  by (simp add: answer_checked_def)

lemma forward_query_checked:
  assumes "forward_query env h q stale = Some r"
  shows "hr_asked r \<in> {[], [upstream_query env q]} \<and> answer_checked env h q r"
proof -
  obtain res cache ran where f: "fetch_with_keyed_state (ev_held env) (ev_now env) (ev_generation env) (fh_cache h) (ctx_key q)
      stale (fetch_upstream env q) = (res, cache, ran)"
    by (metis prod_cases3)
  let ?h = "h\<lparr>fh_cache := cache\<rparr>"
  note u = assms [unfolded forward_query_def f Let_def prod.case]
  have passed: "check_answer env ?h q rs = Some None \<Longrightarrow> answer_passed env h q rs" for rs
    by (simp add: check_answer_passed)
  show ?thesis
  proof (cases res)
    case (Inr entry)
    show ?thesis
      using u passed [of "ce_records entry"] serve_checked(1) [where e = entry and env = env and h = h and q = q and h' = ?h]
        dispatch_checked [where env = env and h = h and q = q and h' = ?h]
      unfolding Inr by (auto split: option.splits if_splits)
  next
    case (Inl err)
    obtain st e where err: "err = (st, e)" by (cases err) auto
    show ?thesis
    proof (cases st)
      case None
      then show ?thesis using u unfolding Inl err by (cases e) (auto simp: answer_checked_def)
    next
      case (Some entry)
      show ?thesis
        using u passed [of "ce_records entry"] serve_checked(1) [where e = entry and env = env and h = h and q = q and h' = ?h]
          dispatch_checked [where env = env and h = h and q = q and h' = ?h]
          code_checked [where env = env and h = h and q = q and h' = ?h]
        unfolding Inl err Some by (cases e) (auto split: option.splits)
    qed
  qed
qed

text \<open>The count of distinct names: a query the cache knows nothing of is within the client's budget.\<close>

definition rate_passed ::
  "('n, 'p, 'f) env \<Rightarrow> ('c, 'p, 'n, 'f) forward_handler \<Rightarrow> ('c, 'p, 'n) query_ctx \<Rightarrow> bool"
where
  "rate_passed env h q \<longleftrightarrow>
     (\<forall>sec. fh_security h = Some sec \<and> lookup_keyed (ev_held env) (ev_now env) (fh_cache h) (ctx_key q) = Miss
        \<and> tunneling_rate_gate_applies (qc_type q = RtPTR) (qc_domain q)
      \<longrightarrow> \<not> fst (check_tunneling_rate (ev_limiters env) sec (qc_client_ip q) (qc_domain q)))"

lemma tunneling_gate_state:
  assumes "tunneling_gate env h q l = (over, h')"
  shows "h' = h \<or> (\<exists>s. h' = h\<lparr>fh_security := s\<rparr>)"
  using assms by (auto simp: tunneling_gate_def Let_def split: option.splits if_splits prod.splits)

lemma tunneling_gate_passed:
  assumes "tunneling_gate env h q (lookup_keyed (ev_held env) (ev_now env) (fh_cache h) (ctx_key q)) = (False, h')"
  shows "rate_passed env h q"
  using assms by (auto simp: tunneling_gate_def rate_passed_def Let_def split: option.splits if_splits prod.splits)

text \<open>A result of the answering stage asks at most the one question, only within the budget, and
  serves checked records only.\<close>

definition checked_result ::
  "('n, 'p, 'f) env \<Rightarrow> ('c, 'p, 'n, 'f) forward_handler \<Rightarrow> ('c, 'p, 'n) query_ctx \<Rightarrow> ('c, 'p, 'n, 'f) handled \<Rightarrow> bool"
where
  "checked_result env h q r \<longleftrightarrow>
     (hr_asked r \<noteq> [] \<longrightarrow> hr_asked r = [upstream_query env q] \<and> qc_type q \<noteq> RtANY \<and> rate_passed env h q)
     \<and> answer_checked env h q r"

lemma unasked_checked: "hr_asked r = [] \<Longrightarrow> hr_entry r = None \<Longrightarrow> checked_result env h q r"
  by (simp add: checked_result_def answer_checked_def)

lemma forwarded_checked:
  assumes "tunneling_gate env h q (lookup_keyed (ev_held env) (ev_now env) (fh_cache h) (ctx_key q)) = (over, h')"
    and "(hr_asked r = [] \<and> hr_entry r = None) \<or> (qc_type q \<noteq> RtANY \<and> \<not> over \<and> forward_query env h' q st = Some r)"
  shows "checked_result env h q r"
  using assms(2)
proof
  assume f: "qc_type q \<noteq> RtANY \<and> \<not> over \<and> forward_query env h' q st = Some r"
  then have "rate_passed env h q" using assms(1) tunneling_gate_passed by auto
  with f forward_query_checked [of env h' q st r] tunneling_gate_state [OF assms(1)] show ?thesis
    by (auto simp: checked_result_def)
qed (simp add: unasked_checked)

lemma answer_query_checked:
  assumes "answer_query env h q = Some r"
  shows "checked_result env h q r"
proof -
  let ?l = "lookup_keyed (ev_held env) (ev_now env) (fh_cache h) (ctx_key q)"
  obtain over h' where g: "tunneling_gate env h q ?l = (over, h')" by (cases "tunneling_gate env h q ?l")
  show ?thesis
  proof (cases ?l)
    case (Fresh entry)
    have "check_answer env h q (ce_records entry) = Some None \<Longrightarrow> checked_result env h q
        ((serve_entry env h q entry)\<lparr>hr_outcomes := ocs, hr_prefetch := pf\<rparr>)" for ocs pf
      using serve_checked(2) [where e = entry and env = env and h = h and q = q and h' = h]
      by (simp add: check_answer_passed checked_result_def)
    moreover have "checked_result env h q (dispatch_block h q b)" for b by (simp add: unasked_checked)
    ultimately show ?thesis
      using assms by (auto simp: answer_query_def Fresh Let_def split: option.splits)
  next
    case l: (Stale entry)
    show ?thesis
      by (rule forwarded_checked [OF g, where st = "Some entry"])
        (use assms g in \<open>auto simp: answer_query_def l Let_def split: if_splits\<close>)
  next
    case l: Miss
    show ?thesis
      by (rule forwarded_checked [OF g, where st = None])
        (use assms g in \<open>auto simp: answer_query_def l Let_def split: if_splits\<close>)
  qed
qed

section \<open>Admission of a query\<close>

definition asked_domain :: "('n, 'p, 'f) env \<Rightarrow> 'n \<Rightarrow> string" where
  "asked_domain env name = ascii_domain (ev_to_ascii env) name"

text \<open>The limiters let the query and its response pass and leave the handler \<open>h'\<close>.\<close>

definition limiters_passed ::
  "('n, 'p, 'f) env \<Rightarrow> ('c, 'p, 'n, 'f) forward_handler \<Rightarrow> ip_addr \<Rightarrow> string \<Rightarrow> record_type
     \<Rightarrow> ('c, 'p, 'n, 'f) forward_handler \<Rightarrow> bool"
where
  "limiters_passed env h ip d rt h' \<longleftrightarrow>
     (case fh_security h of
        None \<Rightarrow> h' = h
      | Some sec \<Rightarrow>
          (\<exists>sec1 sec2. check_pre_query (ev_limiters env) sec ip d rt = (None, sec1)
             \<and> check_response (ev_limiters env) sec1 ip (rrl_per_client ip (fh_allow_from h)) = (RrlAllow, sec2)
             \<and> h' = h\<lparr>fh_security := Some sec2\<rparr>))"

text \<open>All checks a query passes before anything is asked or served: the source, the lists, the
  name, the limiters, the three tables of local names, the policy of the client's profile on the
  queried name, and on the name it is rewritten to.\<close>

definition admitted ::
  "('n, 'p, 'f) env \<Rightarrow> ('c, 'p, 'n, 'f) forward_handler \<Rightarrow> 'n request \<Rightarrow> ('c, 'p, 'n, 'f) forward_handler
     \<Rightarrow> ('c, 'p, 'n) query_ctx \<Rightarrow> bool"
where
  "admitted env h rq h' q \<longleftrightarrow>
     source_allowed (rq_src rq) (fh_allow_from h) \<and> fh_filter_ready h
     \<and> rq_query rq = Some (qc_name q, qc_type q, qc_class q) \<and> qc_client_ip q = rq_src rq
     \<and> validate_query False False (ev_labels env (qc_name q)) = Inr ()
     \<and> limiters_passed env h (rq_src rq) (asked_domain env (qc_name q)) (qc_type q) h'
     \<and> answer_profile_records env h (Some (qc_profile q)) (asked_domain env (qc_name q)) (qc_type q) = None
     \<and> answer_local_records env h (asked_domain env (qc_name q)) (qc_type q) = None
     \<and> answer_network_name env h (qc_name q) (asked_domain env (qc_name q)) (qc_type q) = None
     \<and> (\<exists>m. fh_profiles h = Some m \<and> re_profile (resolve m (map_of (ev_arp env)) (rq_src rq)) = Some (qc_profile q))
     \<and> (\<exists>dec. evaluate_active_operator_policy (ev_hash env) (ev_op_is_match env) (fh_filter h)
                (asked_domain env (qc_name q)) (qc_profile q) = Some dec
          \<and> \<not> apd_blocked dec \<and> qc_grant q = apd_grant dec)
     \<and> qc_ecs q = build_option (rp_ecs_policy (qc_profile q)) (rq_src rq)
     \<and> (case rewrite_apply (rp_rewrite_rules (qc_profile q)) (asked_domain env (qc_name q)) of
          None \<Rightarrow> qc_domain q = asked_domain env (qc_name q) \<and> qc_rewrote_from q = None
        | Some target \<Rightarrow>
            qc_domain q = target \<and> qc_rewrote_from q = Some (asked_domain env (qc_name q))
            \<and> evaluate_synthetic_cname_hop (ev_hash env) (ev_op_is_match env) (fh_filter h) (qc_profile q) (qc_grant q) target
                = Some CnameAllow)"

lemma security_gate_passed:
  assumes "security_gate env h ip d rt = Inr h'"
  shows "limiters_passed env h ip d rt h'"
  using assms unfolding security_gate_def limiters_passed_def Let_def
  by (auto split: option.splits prod.splits rrl_action.splits if_splits)

lemma answer_locally_None:
  "answer_locally env h p name d rt = None \<longleftrightarrow>
     answer_profile_records env h p d rt = None \<and> answer_local_records env h d rt = None \<and> answer_network_name env h name d rt = None"
  by (auto simp: answer_locally_def split: option.split)

lemma security_gate_state:
  assumes "security_gate env h ip d rt = res"
  shows "case res of Inl r \<Rightarrow> hr_asked r = [] \<and> hr_entry r = None | Inr h' \<Rightarrow> h' = h \<or> (\<exists>s. h' = h\<lparr>fh_security := s\<rparr>)"
  unfolding assms [symmetric] security_gate_def Let_def
  by (auto split: option.splits prod.splits rrl_action.splits)

lemma security_state [simp]:
  "answer_locally env (h\<lparr>fh_security := s\<rparr>) p name d rt = answer_locally env h p name d rt"
  by (simp add: answer_locally_def answer_profile_records_def answer_local_records_def answer_network_name_def
      cong: option.case_cong if_cong ip_addr.case_cong)

lemma validate_query_ne: "\<not> isl (validate_query (ls = []) (ls = []) ls) \<longleftrightarrow> ls \<noteq> [] \<and> validate_query False False ls = Inr ()"
  by (cases "validate_query False False ls") (auto simp: validate_query_def)

lemma rewrite_and_answer_admits:
  assumes "rewrite_and_answer env h q = Some r" "hr_asked r \<noteq> [] \<or> hr_entry r \<noteq> None" "qc_rewrote_from q = None"
  shows "\<exists>q'. answer_query env h q' = Some r
    \<and> qc_client_ip q' = qc_client_ip q \<and> qc_name q' = qc_name q \<and> qc_type q' = qc_type q \<and> qc_class q' = qc_class q
    \<and> qc_profile q' = qc_profile q \<and> qc_grant q' = qc_grant q \<and> qc_ecs q' = qc_ecs q
    \<and> (case rewrite_apply (rp_rewrite_rules (qc_profile q)) (qc_domain q) of
         None \<Rightarrow> qc_domain q' = qc_domain q \<and> qc_rewrote_from q' = None
       | Some target \<Rightarrow>
           qc_domain q' = target \<and> qc_rewrote_from q' = Some (qc_domain q)
           \<and> evaluate_synthetic_cname_hop (ev_hash env) (ev_op_is_match env) (fh_filter h) (qc_profile q) (qc_grant q) target
               = Some CnameAllow)"
proof (cases "rewrite_apply (rp_rewrite_rules (qc_profile q)) (qc_domain q)")
  case None
  then show ?thesis using assms by (intro exI [of _ q]) (simp add: rewrite_and_answer_def)
next
  case (Some target)
  let ?q = "q\<lparr>qc_domain := target, qc_rewrote_from := Some (qc_domain q)\<rparr>"
  let ?hop = "evaluate_synthetic_cname_hop (ev_hash env) (ev_op_is_match env) (fh_filter h) (qc_profile q) (qc_grant q) target"
  have "?hop = Some CnameAllow \<and> answer_query env h ?q = Some r"
    using assms(1,2) by (auto simp: rewrite_and_answer_def Some Let_def split: option.splits cname_verdict.splits)
  then show ?thesis using Some by (intro exI [of _ ?q]) simp
qed

lemma decide_query_admits:
  assumes "decide_query env h ip name rt cls d p = Some r" "hr_asked r \<noteq> [] \<or> hr_entry r \<noteq> None"
  shows "\<exists>q dec. answer_query env h q = Some r \<and> qc_client_ip q = ip \<and> qc_name q = name \<and> qc_type q = rt \<and> qc_class q = cls
    \<and> qc_profile q = p \<and> qc_ecs q = build_option (rp_ecs_policy p) ip
    \<and> evaluate_active_operator_policy (ev_hash env) (ev_op_is_match env) (fh_filter h) d p = Some dec
    \<and> \<not> apd_blocked dec \<and> qc_grant q = apd_grant dec
    \<and> (case rewrite_apply (rp_rewrite_rules p) d of
         None \<Rightarrow> qc_domain q = d \<and> qc_rewrote_from q = None
       | Some target \<Rightarrow>
           qc_domain q = target \<and> qc_rewrote_from q = Some d
           \<and> evaluate_synthetic_cname_hop (ev_hash env) (ev_op_is_match env) (fh_filter h) p (qc_grant q) target = Some CnameAllow)"
proof -
  obtain dec where dec: "evaluate_active_operator_policy (ev_hash env) (ev_op_is_match env) (fh_filter h) d p = Some dec"
    using assms(1) by (auto simp: decide_query_def split: option.splits)
  let ?q = "\<lparr>qc_client_ip = ip, qc_name = name, qc_type = rt, qc_class = cls, qc_profile = p, qc_grant = apd_grant dec,
      qc_domain = d, qc_rewrote_from = None, qc_ecs = build_option (rp_ecs_policy p) ip\<rparr>"
  have nb: "\<not> apd_blocked dec" and ra: "rewrite_and_answer env h ?q = Some r"
    using assms by (auto simp: decide_query_def dec split: if_splits)
  have "qc_rewrote_from ?q = None" by simp
  from rewrite_and_answer_admits [OF ra assms(2) this] show ?thesis
    by (rule ex_forward, intro exI [of _ dec]) (simp add: dec nb cong: option.case_cong)
qed

lemma handle_request_inner:
  assumes "handle_request env h rq = Some r"
  obtains r0 where "handle_inner env h rq = Some r0" "hr_asked r = hr_asked r0" "hr_entry r = hr_entry r0"
    "hr_error r = hr_error r0" "hr_message r = (if hr_error r0 \<noteq> None then Some (send_code ServFail) else hr_message r0)"
proof -
  from assms obtain r0 where r0: "handle_inner env h rq = Some r0"
    and r: "r = (if hr_error r0 \<noteq> None then r0\<lparr>hr_message := Some (send_code ServFail)\<rparr> else r0)"
    unfolding handle_request_def by (cases "handle_inner env h rq") simp_all
  show thesis by (rule that [OF r0]) (simp_all add: r)
qed

text \<open>The stages up to the policy, for a result that asks or serves something.\<close>

lemma handle_inner_reaches_policy:
  assumes "handle_inner env h rq = Some r" "hr_asked r \<noteq> [] \<or> hr_entry r \<noteq> None"
  obtains name rt cls h' m p
  where "source_allowed (rq_src rq) (fh_allow_from h)" "fh_filter_ready h" "rq_query rq = Some (name, rt, cls)"
    "validate_query False False (ev_labels env name) = Inr ()"
    "security_gate env h (rq_src rq) (asked_domain env name) rt = Inr h'" "fh_profiles h = Some m"
    "re_profile (resolve m (map_of (ev_arp env)) (rq_src rq)) = Some p"
    "answer_locally env h (Some p) name (asked_domain env name) rt = None"
    "decide_query env h' (rq_src rq) name rt cls (asked_domain env name) p = Some r"
proof -
  have 1: "source_allowed (rq_src rq) (fh_allow_from h)" "fh_filter_ready h"
    using assms by (auto simp: handle_inner_def Let_def split: if_splits)
  obtain name rt cls where 2: "rq_query rq = Some (name, rt, cls)"
    using assms 1 by (auto simp: handle_inner_def Let_def split: option.splits)
  have 3: "\<not> isl (validate_query (ev_labels env name = []) (ev_labels env name = []) (ev_labels env name))"
    using assms 1 2 by (auto simp: handle_inner_def Let_def split: if_splits)
  obtain h' where 4: "security_gate env h (rq_src rq) (asked_domain env name) rt = Inr h'"
    using assms 1 2 3 security_gate_state [of env h "rq_src rq" "asked_domain env name" rt]
    by (cases "security_gate env h (rq_src rq) (asked_domain env name) rt")
      (auto simp: handle_inner_def Let_def asked_domain_def)
  have h': "fh_profiles h' = fh_profiles h" "answer_locally env h' p0 name (asked_domain env name) rt =
      answer_locally env h p0 name (asked_domain env name) rt" for p0
    using security_gate_state [OF 4] by auto
  let ?p = "Option.bind (fh_profiles h) (\<lambda>m. re_profile (resolve m (map_of (ev_arp env)) (rq_src rq)))"
  have inner: "handle_inner env h rq =
      (case answer_locally env h ?p name (asked_domain env name) rt of
         Some m \<Rightarrow> Some (reply h' [early_outcome (asked_domain env name) ''LOCAL'' False] m)
       | None \<Rightarrow>
           (case ?p of
              None \<Rightarrow> Some (reply h' [early_outcome (asked_domain env name) ''REFUSED'' True] (send_code RcRefused))
            | Some p \<Rightarrow> decide_query env h' (rq_src rq) name rt cls (asked_domain env name) p))"
    using 1 2 3 4 h' by (simp add: handle_inner_def Let_def asked_domain_def cong: option.case_cong)
  have "answer_locally env h ?p name (asked_domain env name) rt = None"
    using assms unfolding inner by (cases "answer_locally env h ?p name (asked_domain env name) rt") auto
  moreover from this obtain p where p: "?p = Some p" "decide_query env h' (rq_src rq) name rt cls (asked_domain env name) p = Some r"
    using assms unfolding inner by (cases ?p) auto
  ultimately have local: "answer_locally env h (Some p) name (asked_domain env name) rt = None" by simp
  obtain m where m: "fh_profiles h = Some m" "re_profile (resolve m (map_of (ev_arp env)) (rq_src rq)) = Some p"
    using p(1) by (auto simp: bind_eq_Some_conv)
  have v: "validate_query False False (ev_labels env name) = Inr ()" using 3 by (simp add: validate_query_ne)
  show thesis by (rule that [OF 1 2 v 4 m local p(2)])
qed

lemma request_admitted:
  assumes "handle_request env h rq = Some r" "hr_asked r \<noteq> [] \<or> hr_entry r \<noteq> None"
  shows "\<exists>h' q. admitted env h rq h' q \<and> checked_result env h' q r"
proof -
  obtain r0 where r0: "handle_inner env h rq = Some r0" "hr_asked r = hr_asked r0" "hr_entry r = hr_entry r0"
      "hr_error r = hr_error r0" "hr_message r = (if hr_error r0 \<noteq> None then Some (send_code ServFail) else hr_message r0)"
    using handle_request_inner [OF assms(1)] .
  have ne: "hr_asked r0 \<noteq> [] \<or> hr_entry r0 \<noteq> None" using assms(2) r0 by simp
  obtain name rt cls h' m p where s: "source_allowed (rq_src rq) (fh_allow_from h)" "fh_filter_ready h"
    "rq_query rq = Some (name, rt, cls)" "validate_query False False (ev_labels env name) = Inr ()"
    "security_gate env h (rq_src rq) (asked_domain env name) rt = Inr h'" "fh_profiles h = Some m"
    "re_profile (resolve m (map_of (ev_arp env)) (rq_src rq)) = Some p"
    "answer_locally env h (Some p) name (asked_domain env name) rt = None"
    and d: "decide_query env h' (rq_src rq) name rt cls (asked_domain env name) p = Some r0"
    using handle_inner_reaches_policy [OF r0(1) ne] .
  have h': "fh_filter h' = fh_filter h" using security_gate_state [OF s(5)] by auto
  obtain q dec where q: "answer_query env h' q = Some r0" "qc_client_ip q = rq_src rq" "qc_name q = name" "qc_type q = rt"
    "qc_class q = cls" "qc_profile q = p" "qc_ecs q = build_option (rp_ecs_policy p) (rq_src rq)"
    and dec: "evaluate_active_operator_policy (ev_hash env) (ev_op_is_match env) (fh_filter h) (asked_domain env name) p = Some dec"
      "\<not> apd_blocked dec" "qc_grant q = apd_grant dec"
    and rw: "case rewrite_apply (rp_rewrite_rules p) (asked_domain env name) of
        None \<Rightarrow> qc_domain q = asked_domain env name \<and> qc_rewrote_from q = None
      | Some target \<Rightarrow>
          qc_domain q = target \<and> qc_rewrote_from q = Some (asked_domain env name)
          \<and> evaluate_synthetic_cname_hop (ev_hash env) (ev_op_is_match env) (fh_filter h) p (qc_grant q) target = Some CnameAllow"
    using decide_query_admits [OF d ne] unfolding h' by blast
  have "admitted env h rq h' q"
    unfolding admitted_def q(2-7) using s dec rw security_gate_passed [OF s(5)] by (auto simp: answer_locally_None)
  moreover have "checked_result env h' q r"
    using answer_query_checked [OF q(1)] by (auto simp: checked_result_def answer_checked_def r0(2-5) split: option.splits)
  ultimately show ?thesis by blast
qed

text \<open>C3. Nothing is asked upstream and no cached answer is sent before every check has passed: the
  source is allowed, a list generation is installed, the name is well formed, the limiters let the
  query and the response pass, no local table answers, and the policy of the client's profile
  blocks neither the queried name nor the name it is rewritten to.  Then at most the one question
  is asked, never one of type ANY, and on a cache miss only if the client's count of distinct
  names is within its budget.  Records are sent only from an entry whose CNAME chain and addresses passed the response
  check, whether it comes from the upstream, from the cache or is stale; without such an entry the response
  to a query that was asked holds at most a sinkhole address.\<close>

theorem answers_pass_every_check:
  assumes "handle_request env h rq = Some r" "hr_asked r \<noteq> [] \<or> hr_entry r \<noteq> None"
  shows "\<exists>h' q. admitted env h rq h' q \<and> checked_result env h' q r"
  using assms by (rule request_admitted)

section \<open>Every request is handled\<close>

text \<open>A policy binding that points into its snapshot.\<close>

definition policy_bound :: "('c, 'p) resolved_profile \<Rightarrow> bool" where
  "policy_bound p \<longleftrightarrow> (\<forall>b. rp_operator_rules p = Some b \<longrightarrow> binding_profile b \<noteq> None)"

definition answered :: "('c, 'p, 'n, 'f) handled \<Rightarrow> bool" where
  "answered r \<longleftrightarrow> hr_message r \<noteq> None \<or> hr_error r \<noteq> None"

lemma answered_simps [simp]:
  "answered (reply h ocs m)" "answered (serve_entry env h q e)" "answered (dispatch_block h q b)"
  "answered (r\<lparr>hr_asked := as\<rparr>) = answered r" "answered (r\<lparr>hr_outcomes := ocs\<rparr>) = answered r"
  "answered (r\<lparr>hr_prefetch := pf\<rparr>) = answered r" "answered (r\<lparr>hr_error := Some err\<rparr>)"
  by (simp_all add: answered_def reply_def serve_entry_def dispatch_block_def Let_def)

lemma policy_total:
  assumes "policy_bound p"
  shows "\<exists>dec. evaluate_active_operator_policy hash op_is_match eng d p = Some dec"
  using active_policy_eval [of p] assms
  by (cases "rp_operator_rules p") (fastforce simp: policy_bound_def evaluate_active_operator_policy_def)+

lemma hop_total:
  assumes "policy_bound p"
  shows "\<exists>v. evaluate_synthetic_cname_hop hash op_is_match eng p g t = Some v"
  using assms by (auto simp: policy_bound_def evaluate_synthetic_cname_hop_def Let_def split: option.splits prod.splits)

lemma walk_hops_total:
  assumes "\<And>t. \<exists>v. hop t = Some v"
  shows "\<exists>v. walk_hops labels same_name hop records qname original cap visited hops next_record = Some v"
proof (induction "cap - hops" arbitrary: visited hops next_record rule: less_induct)
  case less
  have "\<exists>f. \<forall>t. hop t = Some (f t)" by (rule choice) (simp add: assms)
  then obtain f where hop: "\<And>t. hop t = Some (f t)" by blast
  have "cap - Suc hops < cap - hops" if "hops < cap" using that by simp
  note ih = less [OF this]
  show ?case using ih
    by (subst walk_hops.simps) (auto simp: hop split: option.split rdata.split cname_verdict.split)
qed

lemma check_answer_total:
  assumes "policy_bound (qc_profile q)"
  shows "\<exists>v. check_answer env h q rs = Some v"
proof -
  let ?w = "walk_response_with_rewrite (ev_labels env) (ev_same_name env) (ev_hash env) (ev_op_is_match env) (fh_filter h)
      (qc_profile q) (qc_grant q) rs (qc_domain q) (qc_rewrote_from q) (fh_cname_max_depth h)"
  have "\<exists>v. ?w = Some v"
    unfolding walk_response_with_rewrite_def Let_def
    by (auto split: sum.split intro!: walk_hops_total hop_total assms)
  then show ?thesis by (auto simp: check_answer_def split: cname_verdict.split option.split)
qed

lemma forward_query_answered:
  assumes "policy_bound (qc_profile q)"
  shows "\<exists>r. forward_query env h q stale = Some r \<and> answered r"
proof -
  obtain res cache ran where f: "fetch_with_keyed_state (ev_held env) (ev_now env) (ev_generation env) (fh_cache h) (ctx_key q)
      stale (fetch_upstream env q) = (res, cache, ran)"
    by (metis prod_cases3)
  note defs = forward_query_def f Let_def prod.case
  show ?thesis
  proof (cases res)
    case (Inr entry)
    obtain v where "check_answer env h q (ce_records entry) = Some v" using check_answer_total [OF assms] by blast
    then show ?thesis unfolding defs Inr by (cases v) simp_all
  next
    case (Inl err)
    obtain st e where err: "err = (st, e)" by (cases err) auto
    show ?thesis
    proof (cases st)
      case None
      then show ?thesis unfolding defs Inl err by (cases e) simp_all
    next
      case (Some entry)
      obtain v where "check_answer env h q (ce_records entry) = Some v" using check_answer_total [OF assms] by blast
      then show ?thesis unfolding defs Inl err Some by (cases e; cases v) simp_all
    qed
  qed
qed

lemma answer_query_answered:
  assumes "policy_bound (qc_profile q)"
  shows "\<exists>r. answer_query env h q = Some r \<and> answered r"
proof -
  note fwd = forward_query_answered [OF assms]
  show ?thesis
  proof (cases "lookup_keyed (ev_held env) (ev_now env) (fh_cache h) (ctx_key q)")
    case (Fresh entry)
    obtain v where "check_answer env h q (ce_records entry) = Some v" using check_answer_total [OF assms] by blast
    then show ?thesis by (cases v) (simp_all add: answer_query_def Fresh)
  qed (simp_all add: answer_query_def Let_def fwd split: prod.split)
qed

lemma decide_query_answered:
  assumes "policy_bound p"
  shows "\<exists>r. decide_query env h ip name rt cls d p = Some r \<and> answered r"
proof -
  obtain dec where dec: "evaluate_active_operator_policy (ev_hash env) (ev_op_is_match env) (fh_filter h) d p = Some dec"
    using policy_total [OF assms] by blast
  let ?q = "\<lparr>qc_client_ip = ip, qc_name = name, qc_type = rt, qc_class = cls, qc_profile = p, qc_grant = apd_grant dec,
      qc_domain = d, qc_rewrote_from = None, qc_ecs = build_option (rp_ecs_policy p) ip\<rparr>"
  have "\<exists>r. rewrite_and_answer env h ?q = Some r \<and> answered r"
  proof (cases "rewrite_apply (rp_rewrite_rules p) d")
    case None
    then show ?thesis by (simp add: rewrite_and_answer_def answer_query_answered assms)
  next
    case (Some target)
    obtain v where "evaluate_synthetic_cname_hop (ev_hash env) (ev_op_is_match env) (fh_filter h) p (apd_grant dec) target = Some v"
      using hop_total [OF assms] by blast
    then show ?thesis by (cases v) (simp_all add: rewrite_and_answer_def Some answer_query_answered assms)
  qed
  then show ?thesis by (simp add: decide_query_def dec)
qed

lemma security_gate_answered:
  assumes "security_gate env h ip d rt = Inl r"
  shows "answered r \<or> (hr_error r = None \<and> hr_outcomes r = [early_outcome d ''RRL_DROP'' True])"
  using assms unfolding security_gate_def Let_def
  by (auto split: option.splits prod.splits rrl_action.splits if_splits)

lemma handle_inner_answered:
  assumes "\<And>m p. fh_profiles h = Some m \<Longrightarrow> re_profile (resolve m (map_of (ev_arp env)) (rq_src rq)) = Some p \<Longrightarrow> policy_bound p"
  shows "\<exists>r. handle_inner env h rq = Some r \<and> (answered r \<or> (\<exists>name rt cls. rq_query rq = Some (name, rt, cls)
    \<and> hr_error r = None \<and> hr_outcomes r = [early_outcome (asked_domain env name) ''RRL_DROP'' True]))"
proof (cases "rq_query rq")
  case None
  then show ?thesis by (simp add: handle_inner_def Let_def)
next
  case (Some query)
  obtain name rt cls where q: "query = (name, rt, cls)" by (metis prod_cases3)
  show ?thesis
  proof (cases "security_gate env h (rq_src rq) (asked_domain env name) rt")
    case (Inl r)
    then show ?thesis using security_gate_answered [OF Inl] by (simp add: handle_inner_def Let_def Some q asked_domain_def)
  next
    case (Inr h')
    then have h': "fh_profiles h' = fh_profiles h" using security_gate_state [OF Inr] by auto
    let ?p = "Option.bind (fh_profiles h) (\<lambda>m. re_profile (resolve m (map_of (ev_arp env)) (rq_src rq)))"
    have "?p = None \<or> (\<exists>p. ?p = Some p \<and> policy_bound p)" using assms by (auto simp: bind_eq_Some_conv split: Option.bind_splits)
    then have "\<exists>r. (case answer_locally env h' ?p name (asked_domain env name) rt of
           Some m \<Rightarrow> Some (reply h' [early_outcome (asked_domain env name) ''LOCAL'' False] m)
         | None \<Rightarrow> (case ?p of
               None \<Rightarrow> Some (reply h' [early_outcome (asked_domain env name) ''REFUSED'' True] (send_code RcRefused))
             | Some p \<Rightarrow> decide_query env h' (rq_src rq) name rt cls (asked_domain env name) p)) = Some r \<and> answered r"
      by (cases "answer_locally env h' ?p name (asked_domain env name) rt") (auto simp: decide_query_answered)
    then show ?thesis using Inr by (auto simp: handle_inner_def Let_def Some q h' asked_domain_def cong: option.case_cong)
  qed
qed

lemma request_answered:
  fixes re_build :: "string \<Rightarrow> (string, 'c) result" and c :: "'p compiled_operator_rules"
  assumes "fh_profiles h = Some (build_resolver_map re_build cfg store (Some c) ident arp0 now time)"
  shows "\<exists>r. handle_request env h rq = Some r
    \<and> (hr_message r = None \<longrightarrow> (\<exists>name rt cls. rq_query rq = Some (name, rt, cls)
         \<and> hr_outcomes r = [early_outcome (asked_domain env name) ''RRL_DROP'' True]))"
proof -
  have "policy_bound p" if m: "fh_profiles h = Some m" and p: "re_profile (resolve m (map_of (ev_arp env)) (rq_src rq)) = Some p" for m p
  proof -
    have "m = build_resolver_map re_build cfg store (Some c) ident arp0 now time" using m assms by simp
    then obtain b where b: "rp_operator_rules p = Some b" "profile_binding_new c (rp_name p) = Some b"
      using served_profile_binding [OF p [unfolded \<open>m = _\<close>]] by blast
    show ?thesis using binding_new_profile [OF b(2)] b(1) by (auto simp: policy_bound_def)
  qed
  note bound = this
  obtain r where r: "handle_inner env h rq = Some r" "answered r \<or> (\<exists>name rt cls. rq_query rq = Some (name, rt, cls)
    \<and> hr_error r = None \<and> hr_outcomes r = [early_outcome (asked_domain env name) ''RRL_DROP'' True])"
    using handle_inner_answered [of h env rq] bound by blast
  then show ?thesis by (auto simp: handle_request_def answered_def)
qed

text \<open>A sample handler: the profile \<open>kids\<close> of the sample configuration, which mounts the sample
  rule file, an empty cache and an upstream that answers every question with one address.\<close>

definition sample_env :: "(string list, unit, unit) env" where
  "sample_env =
     \<lparr>ev_labels = plain_labels, ev_same_name = plain_same, ev_parse_name = (\<lambda>_. None),
      ev_to_ascii = (\<lambda>n. concat (map (\<lambda>l. l @ ''.'') n)), ev_hash = (\<lambda>_. 0), ev_op_is_match = (\<lambda>_ _. False),
      ev_limiters = \<lparr>le_rate_iter = (\<lambda>_. []), le_rrl_iter = (\<lambda>_. []), le_tunnel_iter = (\<lambda>_. []), le_rate_now = 0, le_rrl_now = 0,
                     le_tunnel_now = 0, le_name_hash = (\<lambda>_. 0), le_entropy_reaches = (\<lambda>_ _. False)\<rparr>,
      ev_arp = [], ev_held = (\<lambda>_. True), ev_prefetches = (\<lambda>_. False), ev_now = 0, ev_generation = 0,
      ev_upstream = (\<lambda>(_, n, _, _). Inr \<lparr>ur_records = [from_rdata n 60 (RdA 7)], ur_response_code = NoError,
                                           ur_generation = None, ur_soa_minimum_ttl = None\<rparr>)\<rparr>"

abbreviation sample_map :: "unit compiled_operator_rules \<Rightarrow> (unit, unit) resolver_map" where
  "sample_map c \<equiv> build_resolver_map (\<lambda>_. Inr ()) sample_network Map.empty (Some c) sample_identity [] 0 (0, 0, 0)"

definition sample_handler :: "unit compiled_operator_rules \<Rightarrow> (unit, unit, string list, unit) forward_handler" where
  "sample_handler c =
     \<lparr>fh_filter = engine_new, fh_cache = dns_cache_new sample_cache_config, fh_profiles = Some (sample_map c),
      fh_profile_records = (\<lambda>_. profile_local_build (\<lambda>_. None) [] 300), fh_security = None, fh_local_records = None,
      fh_ip_filter = None, fh_allow_from = None, fh_blocked_ttl = 60, fh_cname_max_depth = 16, fh_dynamic_ttl_secs = 60,
      fh_nodata_network_name = False, fh_filter_ready = True\<rparr>"

definition sample_request :: "string list \<Rightarrow> string list request" where
  "sample_request n = \<lparr>rq_src = V4 1, rq_query = Some (n, RtA, 1)\<rparr>"

lemma sample_asks:
  "map_option hr_asked (handle_request sample_env (sample_handler sample_snapshot) (sample_request [''c'', ''a'', ''b''])) =
     Some [(''c.a.b'', [''c'', ''a'', ''b''], RtA, None)]"
  by code_simp

theorem answers_pass_every_check_witness:
  "\<exists>r h' q. handle_request sample_env (sample_handler sample_snapshot) (sample_request [''c'', ''a'', ''b'']) = Some r
     \<and> hr_asked r = [(''c.a.b'', [''c'', ''a'', ''b''], RtA, None)]
     \<and> admitted sample_env (sample_handler sample_snapshot) (sample_request [''c'', ''a'', ''b'']) h' q
     \<and> checked_result sample_env h' q r"
proof -
  obtain r where r: "handle_request sample_env (sample_handler sample_snapshot) (sample_request [''c'', ''a'', ''b'']) = Some r"
      "hr_asked r = [(''c.a.b'', [''c'', ''a'', ''b''], RtA, None)]"
    using sample_asks by (auto simp: map_option_case split: option.splits)
  then show ?thesis using answers_pass_every_check [OF r(1)] by auto
qed

lemma sample_handles:
  obtains r where "handle_request sample_env (sample_handler sample_snapshot) rq = Some r"
proof -
  have "fh_profiles (sample_handler sample_snapshot) = Some (sample_map sample_snapshot)" by (simp add: sample_handler_def)
  from request_answered [OF this] show thesis using that by blast
qed

text \<open>C4. On a resolver map built with a compiled snapshot no request panics, whatever the caches,
  limiters, lists and upstream hold, and every request gets a response, if only SERVFAIL, except
  the ones the response limiter drops.\<close>

theorem every_request_answered:
  fixes re_build :: "string \<Rightarrow> (string, 'c) result" and c :: "'p compiled_operator_rules"
  assumes "fh_profiles h = Some (build_resolver_map re_build cfg store (Some c) ident arp0 now time)"
  shows "\<exists>r. handle_request env h rq = Some r
    \<and> (hr_message r = None \<longrightarrow> (\<exists>name rt cls. rq_query rq = Some (name, rt, cls)
         \<and> hr_outcomes r = [early_outcome (asked_domain env name) ''RRL_DROP'' True]))"
  using assms by (rule request_answered)

theorem every_request_answered_witness:
  "\<exists>r. handle_request sample_env (sample_handler sample_snapshot) (sample_request [''c'', ''a'', ''b'']) = Some r
     \<and> (hr_message r = None \<longrightarrow> hr_outcomes r = [early_outcome ''c.a.b'' ''RRL_DROP'' True])"
proof -
  have "fh_profiles (sample_handler sample_snapshot) = Some (sample_map sample_snapshot)" by (simp add: sample_handler_def)
  moreover have "asked_domain sample_env [''c'', ''a'', ''b''] = ''c.a.b''" by code_simp
  ultimately show ?thesis
    using every_request_answered [of "sample_handler sample_snapshot" "\<lambda>_. Inr ()" sample_network Map.empty sample_snapshot
      sample_identity "[]" 0 "(0, 0, 0)" sample_env "sample_request [''c'', ''a'', ''b'']"]
    by (auto simp: sample_request_def)
qed

end
