(* ===== verification/Circuit_Breaker.thy ===== *)
theory Circuit_Breaker
  imports Warden_Prelude
begin

text \<open>
  The circuit breaker in front of an upstream resolver, \<open>upstream/circuit.rs\<close>.  The monotonic
  clock and the answer of the wrapped upstream are arguments.  A lookup is two steps, up to
  the call of the upstream and from its answer on, so that lookups overlap as the async code
  lets them; each step runs without interruption.
\<close>

section \<open>The breaker\<close>

datatype circuit_state = CircuitClosed | CircuitOpen | CircuitHalfOpen

record circuit =
  cb_failures :: u32
  cb_opened_at :: u64
  cb_state :: circuit_state

definition FAILURE_THRESHOLD :: u32 where
  "FAILURE_THRESHOLD = 10"

definition PROBE_INTERVAL_SECS :: u64 where
  "PROBE_INTERVAL_SECS = 10"

definition circuit_new :: circuit where
  "circuit_new = \<lparr>cb_failures = 0, cb_opened_at = 0, cb_state = CircuitClosed\<rparr>"

definition record_success :: "circuit \<Rightarrow> circuit" where
  "record_success c =
     (let c1 = if 0 < cb_failures c then c\<lparr>cb_failures := 0\<rparr> else c
      in if cb_state c1 \<noteq> CircuitClosed then c1\<lparr>cb_state := CircuitClosed\<rparr> else c1)"

definition record_failure :: "circuit \<Rightarrow> u64 \<Rightarrow> circuit" where
  "record_failure c now =
     (let count = cb_failures c + 1;
          c1 = c\<lparr>cb_failures := count\<rparr>
      in if FAILURE_THRESHOLD \<le> count then
           (let c2 = c1\<lparr>cb_opened_at := now, cb_state := CircuitOpen\<rparr>
            in if FAILURE_THRESHOLD * 2 < count then c2\<lparr>cb_failures := FAILURE_THRESHOLD\<rparr> else c2)
         else c1)"

definition should_probe :: "circuit \<Rightarrow> u64 \<Rightarrow> bool" where
  "should_probe c now \<longleftrightarrow> PROBE_INTERVAL_SECS \<le> sat_sub now (cb_opened_at c)"

text \<open>How a lookup enters: as an ordinary call, as the probe, or refused.\<close>

datatype circuit_call = CallNormal | CallProbe | CallRefused

definition begin_lookup :: "circuit \<Rightarrow> u64 \<Rightarrow> circuit_call \<times> circuit" where
  "begin_lookup c now =
     (case cb_state c of
        CircuitClosed \<Rightarrow> (CallNormal, c)
      | CircuitOpen \<Rightarrow> if should_probe c now then (CallProbe, c\<lparr>cb_state := CircuitHalfOpen\<rparr>) else (CallRefused, c)
      | CircuitHalfOpen \<Rightarrow> (CallRefused, c))"

definition finish_lookup :: "circuit \<Rightarrow> circuit_call \<Rightarrow> bool \<Rightarrow> u64 \<Rightarrow> circuit" where
  "finish_lookup c call ok now =
     (case call of
        CallNormal \<Rightarrow> if ok then record_success c else record_failure c now
      | CallProbe \<Rightarrow> if ok then record_success c else c\<lparr>cb_opened_at := now, cb_state := CircuitOpen\<rparr>
      | CallRefused \<Rightarrow> c)"

text \<open>A lookup that nothing overlaps: whether the upstream was asked, and the breaker after.\<close>

definition circuit_lookup :: "circuit \<Rightarrow> u64 \<Rightarrow> bool \<Rightarrow> u64 \<Rightarrow> bool \<times> circuit" where
  "circuit_lookup c now ok later =
     (let (call, c') = begin_lookup c now in (call \<noteq> CallRefused, finish_lookup c' call ok later))"

section \<open>Overlapping lookups\<close>

record circuit_sys =
  cs_circuit :: circuit
  cs_clock :: u64
  cs_normal :: nat
  cs_probes :: nat

definition circuit_sys_new :: circuit_sys where
  "circuit_sys_new = \<lparr>cs_circuit = circuit_new, cs_clock = 0, cs_normal = 0, cs_probes = 0\<rparr>"

inductive circuit_step :: "circuit_sys \<Rightarrow> circuit_sys \<Rightarrow> bool" where
  c_tick: "cs_clock s \<le> now \<Longrightarrow> circuit_step s (s\<lparr>cs_clock := now\<rparr>)"
| c_normal: "begin_lookup (cs_circuit s) (cs_clock s) = (CallNormal, c) \<Longrightarrow>
     circuit_step s (s\<lparr>cs_circuit := c, cs_normal := Suc (cs_normal s)\<rparr>)"
| c_probe: "begin_lookup (cs_circuit s) (cs_clock s) = (CallProbe, c) \<Longrightarrow>
     circuit_step s (s\<lparr>cs_circuit := c, cs_probes := Suc (cs_probes s)\<rparr>)"
| c_refused: "begin_lookup (cs_circuit s) (cs_clock s) = (CallRefused, c) \<Longrightarrow> circuit_step s (s\<lparr>cs_circuit := c\<rparr>)"
| c_normal_done: "cs_normal s = Suc n \<Longrightarrow>
     circuit_step s (s\<lparr>cs_circuit := finish_lookup (cs_circuit s) CallNormal ok (cs_clock s), cs_normal := n\<rparr>)"
| c_probe_done: "cs_probes s = Suc n \<Longrightarrow>
     circuit_step s (s\<lparr>cs_circuit := finish_lookup (cs_circuit s) CallProbe ok (cs_clock s), cs_probes := n\<rparr>)"

definition circuit_inv :: "circuit_sys \<Rightarrow> bool" where
  "circuit_inv s \<longleftrightarrow>
     (cb_state (cs_circuit s) = CircuitHalfOpen \<longrightarrow> 0 < cs_probes s)
     \<and> cb_opened_at (cs_circuit s) \<le> cs_clock s \<and> cb_failures (cs_circuit s) \<le> FAILURE_THRESHOLD * 2"

lemma record_success_eq: "record_success c = c\<lparr>cb_failures := 0, cb_state := CircuitClosed\<rparr>"
  by (cases c) (auto simp: record_success_def Let_def word_neq_0_conv [symmetric])

lemma record_failure_bound:
  assumes "cb_failures c \<le> FAILURE_THRESHOLD * 2"
  shows "cb_failures (record_failure c now) \<le> FAILURE_THRESHOLD * 2"
    and "cb_opened_at (record_failure c now) \<in> {cb_opened_at c, now}"
    and "cb_state (record_failure c now) \<in> {cb_state c, CircuitOpen}"
proof -
  have "x \<le> 20" if "\<not> 10 \<le> x" for x :: u32
  proof -
    have "x < 10" "(10 :: u32) \<le> 20" using that by (simp_all add: not_le)
    then show ?thesis by (rule order.strict_implies_order [OF order.strict_trans2])
  qed
  then show "cb_failures (record_failure c now) \<le> FAILURE_THRESHOLD * 2"
    by (auto simp: record_failure_def FAILURE_THRESHOLD_def Let_def not_less)
qed (auto simp: record_failure_def Let_def)

lemma finish_lookup_inv:
  assumes "cb_opened_at c \<le> now" "cb_failures c \<le> FAILURE_THRESHOLD * 2" "call \<noteq> CallRefused"
  shows "cb_opened_at (finish_lookup c call ok now) \<le> now"
    and "cb_failures (finish_lookup c call ok now) \<le> FAILURE_THRESHOLD * 2"
    and "cb_state (finish_lookup c call ok now) = CircuitHalfOpen \<Longrightarrow> call = CallNormal \<and> cb_state c = CircuitHalfOpen"
  using assms record_failure_bound [of c now]
  by (auto simp: finish_lookup_def record_success_eq split: circuit_call.splits if_splits)

lemma circuit_step_inv: "circuit_step s s' \<Longrightarrow> circuit_inv s \<Longrightarrow> circuit_inv s'"
proof (induction rule: circuit_step.induct)
  case (c_normal_done s n ok)
  then show ?case using finish_lookup_inv [of "cs_circuit s" "cs_clock s" CallNormal ok] by (auto simp: circuit_inv_def)
next
  case (c_probe_done s n ok)
  then show ?case using finish_lookup_inv [of "cs_circuit s" "cs_clock s" CallProbe ok] by (auto simp: circuit_inv_def)
qed (auto simp: circuit_inv_def begin_lookup_def split: circuit_state.splits if_splits)

lemma circuit_reach_inv: "circuit_step\<^sup>*\<^sup>* circuit_sys_new s \<Longrightarrow> circuit_inv s"
proof (induction rule: rtranclp_induct)
  case base
  show ?case by (simp add: circuit_inv_def circuit_sys_new_def circuit_new_def FAILURE_THRESHOLD_def)
qed (rule circuit_step_inv)

text \<open>C37. The breaker never wedges: in every reachable state of overlapping lookups, once no probe
  is outstanding and ten seconds have passed since it opened, the next lookup reaches the
  upstream, and one good answer closes the breaker with the failure count back at zero.
  A breaker that is half open always has a probe outstanding, and whatever that probe's
  answer, it leaves the half-open state.\<close>

theorem circuit_recovers:
  assumes "circuit_step\<^sup>*\<^sup>* circuit_sys_new s"
  shows "(cs_probes s = 0 \<and> 10 \<le> cs_clock s - cb_opened_at (cs_circuit s) \<longrightarrow>
      (\<exists>call c. begin_lookup (cs_circuit s) (cs_clock s) = (call, c) \<and> call \<noteq> CallRefused
         \<and> (\<forall>later. finish_lookup c call True later = c\<lparr>cb_failures := 0, cb_state := CircuitClosed\<rparr>)))
    \<and> (cb_state (cs_circuit s) = CircuitHalfOpen \<longrightarrow> 0 < cs_probes s
        \<and> (\<forall>ok now. cb_state (finish_lookup (cs_circuit s) CallProbe ok now) \<noteq> CircuitHalfOpen))"
proof -
  have inv: "circuit_inv s" by (rule circuit_reach_inv [OF assms])
  have sub: "sat_sub (cs_clock s) (cb_opened_at (cs_circuit s)) = cs_clock s - cb_opened_at (cs_circuit s)"
    using inv by (auto simp: circuit_inv_def sat_sub_def)
  have "\<exists>call c. begin_lookup (cs_circuit s) (cs_clock s) = (call, c) \<and> call \<noteq> CallRefused
         \<and> (\<forall>later. finish_lookup c call True later = c\<lparr>cb_failures := 0, cb_state := CircuitClosed\<rparr>)"
    if "cs_probes s = 0" "10 \<le> cs_clock s - cb_opened_at (cs_circuit s)"
    using that inv sub
    by (cases "cb_state (cs_circuit s)")
      (auto simp: begin_lookup_def should_probe_def PROBE_INTERVAL_SECS_def finish_lookup_def record_success_eq circuit_inv_def)
  moreover have "cb_state (finish_lookup (cs_circuit s) CallProbe ok now) \<noteq> CircuitHalfOpen" for ok now
    by (simp add: finish_lookup_def record_success_eq)
  ultimately show ?thesis using inv by (auto simp: circuit_inv_def)
qed

theorem circuit_recovers_witness:
  "\<exists>s call c. circuit_step\<^sup>*\<^sup>* circuit_sys_new s \<and> cs_clock s = 60
     \<and> begin_lookup (cs_circuit s) (cs_clock s) = (call, c) \<and> call \<noteq> CallRefused
     \<and> finish_lookup c call True 61 = c\<lparr>cb_failures := 0, cb_state := CircuitClosed\<rparr>"
proof -
  let ?s = "circuit_sys_new\<lparr>cs_clock := 60\<rparr>"
  have "circuit_step\<^sup>*\<^sup>* circuit_sys_new ?s" by (intro r_into_rtranclp c_tick) (simp add: circuit_sys_new_def)
  moreover from circuit_recovers [OF this]
  have "\<exists>call c. begin_lookup (cs_circuit ?s) (cs_clock ?s) = (call, c) \<and> call \<noteq> CallRefused
      \<and> finish_lookup c call True 61 = c\<lparr>cb_failures := 0, cb_state := CircuitClosed\<rparr>"
    by (auto simp: circuit_sys_new_def circuit_new_def)
  ultimately show ?thesis by (intro exI [of _ ?s]) auto
qed

section \<open>Opening\<close>

text \<open>Without overlap the breaker opens at the tenth failure in a row, not before, and then
  asks the upstream nothing for ten seconds: after \<open>n\<close> failed lookups from a fresh breaker it
  is closed for \<open>n < 10\<close>, open for \<open>n = 10\<close> with the time of the last failure recorded, and a
  lookup less than ten seconds later is refused and changes nothing.\<close>

theorem circuit_opens_at_threshold:
  assumes "length fs = n" "n \<le> 10" "0 < n"
  defines "c \<equiv> foldl (\<lambda>c (now, later). snd (circuit_lookup c now False later)) circuit_new fs"
  shows "cb_state c = (if n < 10 then CircuitClosed else CircuitOpen)
    \<and> (n = 10 \<longrightarrow> cb_opened_at c = snd (last fs)
        \<and> (\<forall>now ok later. sat_sub now (snd (last fs)) < 10 \<longrightarrow> circuit_lookup c now ok later = (False, c)))"
proof -
  have run: "foldl (\<lambda>c (now, later). snd (circuit_lookup c now False later)) circuit_new fs =
      \<lparr>cb_failures = of_nat (length fs), cb_opened_at = (if length fs = 10 then snd (last fs) else 0),
       cb_state = (if length fs = 10 then CircuitOpen else CircuitClosed)\<rparr>" if "length fs \<le> 10" for fs
    using that
  proof (induction fs rule: rev_induct)
    case (snoc f fs)
    obtain now later where f: "f = (now, later)" by fastforce
    have "unat (1 + of_nat (length fs) :: u32) = Suc (length fs)"
      using snoc.prems by (simp add: unat_word_ariths unat_of_nat)
    then have "(10 :: u32) \<le> 1 + of_nat (length fs) \<longleftrightarrow> 10 \<le> Suc (length fs)" "\<not> (20 :: u32) < 1 + of_nat (length fs)"
      using snoc.prems by (simp_all add: word_le_nat_alt word_less_nat_alt)
    then show ?case using snoc f
      by (auto simp: circuit_lookup_def begin_lookup_def finish_lookup_def record_failure_def FAILURE_THRESHOLD_def Let_def add.commute)
  qed (simp add: circuit_new_def)
  show ?thesis using assms(1-3) run [of fs] unfolding c_def
    by (auto simp: circuit_lookup_def begin_lookup_def finish_lookup_def should_probe_def PROBE_INTERVAL_SECS_def)
qed

theorem circuit_opens_at_threshold_witness:
  "cb_state (foldl (\<lambda>c (now, later). snd (circuit_lookup c now False later)) circuit_new (replicate 10 (3, 4))) = CircuitOpen"
  using circuit_opens_at_threshold [of "replicate 10 (3, 4)" 10] by simp

end
