(* ===== verification/Spec2Isabelle.thy ===== *)
theory Spec2Isabelle
  imports Handler_Facts Circuit_Breaker
begin

text \<open>
  Warden is a DNS filtering daemon.  A request goes through one handler (\<open>dns/handler.rs\<close>): source
  and limiter checks, names the operator defines locally, the policy of the client's profile on
  the queried name, a rewrite, the answer cache or the upstream, and a second policy check on the
  names and addresses of the answer.  The policy has three inputs: rule files the operator writes,
  which a compiler turns into an immutable snapshot; downloaded lists, hashed into shards and
  swapped while queries run; and the configuration, from which a map from client addresses to
  profiles is built.  This library models that path and proves it correct.  Paths below are
  relative to \<open>src/src\<close>.

  \<^bold>\<open>Conventions.\<close>  Strings are byte lists; fixed-width integers are words where they can wrap and
  saturate, and naturals where the code checks for overflow, which is then an error value.  A
  fallible function returns a sum with the error on the left; a panic is a value of its own (the
  constructor for it in the compiler's failure type, \<^term>\<open>None\<close> in the evaluation of a bound profile and in
  the handler).  State is passed explicitly.  Loops are structural recursion or carry a termination proof, so
  there is no fuel; the CNAME walk is bounded by the code's own cap of sixteen hops.  Where
  threads race, a step is one atomic operation of the code and a property speaks about all
  interleavings.  Clocks, hash functions, the SHA-256 digest, the regular-expression library, the
  wire names of the DNS library, the eviction of the cache library, the iteration
  order of hash maps and the upstream are parameters.  What is assumed of them is named:
  \<open>no_collision\<close> (distinct rule keys of one compilation have distinct digests), \<open>name_library\<close>
  (equality of wire names ignores ASCII case and reads all labels), \<open>iterates\<close> (an iteration lists each
  entry once).

  \<^bold>\<open>Shared theories.\<close>  \<open>Warden_Prelude\<close> (results, strings, maps, saturating words), \<open>Std_Text\<close> and
  \<open>Std_Net\<close> (what is used of Rust's text and address functions), \<open>Sorted_Search\<close> (binary search
  and the ordered map), \<open>Dns_Records\<close> (records and response codes).  Three interfaces are locales:
  \<open>ranked_choice\<close> (a scan that keeps the strongest hit; the rule scan and the compiled hits are
  instances), \<open>mask_store\<close> (a store of list masks by hash; one shard and the sharded corpus are
  instances) and \<open>keyed_table\<close> (a table that may forget keys; the bounded map is the instance, and
  the response limiter and the tunneling detector get the history of one key from it).

  \<^bold>\<open>Operator rules\<close> (\<open>filter/operator_rules\<close>).  \<open>Operator_Limits\<close>, \<open>Operator_Ast\<close>,
  \<open>Operator_Decision\<close>, \<open>Operator_Profile\<close>, \<open>Operator_Admission\<close> and \<open>Operator_Compiler\<close> model
  \<open>limits.rs\<close>, \<open>ast.rs\<close>, \<open>decision.rs\<close>, \<open>compiler.rs\<close> and \<open>admission.rs\<close>.  \<open>Operator_Lookup\<close> shows
  that the propagated winner index finds the winner among all mounted rules, \<open>Operator_Pipeline\<close>
  what each pass stores, and \<open>Operator_Snapshot\<close> the contract of a compilation: it never panics,
  charges exactly its cost, and a lookup equals the exhaustive scan of the rows of the mounted
  files.  \<open>Operator_Admission\<close> shows that concurrent compilations never exceed their budget.

  \<^bold>\<open>Engine and profiles.\<close>  \<open>Domain_Names\<close> and \<open>Admin_Rules\<close> model \<open>common/domain.rs\<close>,
  \<open>filter/rules.rs\<close> and \<open>filter/evaluator.rs\<close>; \<open>Domain_Shards\<close> and \<open>Filter_Engine\<close> model
  \<open>filter/engine.rs\<close>: list masks, shards and their reload, the evaluation of a name and its reason.
  \<open>Cname_Walk\<close> models \<open>filter/cname.rs\<close>: an answer is served exactly when its chain is a clean path
  of a graph of links.  \<open>Custom_Lists\<close>, \<open>Rewrite_Rules\<close>, \<open>Client_Subnet\<close>, \<open>Cidr_Blocks\<close> and
  \<open>Schedules\<close> model \<open>config/custom_list\<close>, \<open>dns/rewrite.rs\<close>, \<open>dns/edns/client_subnet.rs\<close>,
  \<open>config/cidr.rs\<close> and \<open>profiles/schedule.rs\<close>.  \<open>Profile_Build\<close> and \<open>Profile_Resolver\<close> model
  \<open>profiles/profile.rs\<close> and \<open>profiles/resolver.rs\<close>; \<open>Resolver_Facts\<close> shows where every served
  profile comes from, which MAC identifies a device, which subnet wins and how \<open>unfiltered\<close>
  reaches every level.

  \<^bold>\<open>Limiters.\<close>  \<open>Packed_Counters\<close>, \<open>Bounded_Map\<close>, \<open>Rate_Limiter\<close>, \<open>Response_Limiter\<close>, \<open>Tunneling\<close>
  and \<open>Query_Gates\<close> model \<open>security\<close> and \<open>dns/validation.rs\<close>, \<open>Circuit_Breaker\<close> models
  \<open>upstream/circuit.rs\<close>: budgets under every interleaving, the cap of the map, the cadence of
  truncated answers, and that the breaker always recovers.

  \<^bold>\<open>Requests.\<close>  \<open>Answer_Cache\<close> models \<open>dns/cache.rs\<close>, \<open>Local_Records\<close> models \<open>dns/local.rs\<close> and
  \<open>dns/local_profile.rs\<close>, \<open>Network_Names\<close> the device names of \<open>profiles/resolver.rs\<close>, and
  \<open>Security_Layer\<close> and \<open>Query_Handler\<close> model \<open>dns/handler.rs\<close> with the response check of
  \<open>filter/ip_filter.rs\<close>, one definition per stage of \<open>handle_inner\<close>.  \<open>Handler_Facts\<close> shows that
  nothing is asked or served before every check has passed, that every answer is checked
  wherever it comes from, and that every request is handled.  This theory joins the parts: from a
  client address, an answer or a request to the rows of the operator's files.

  \<^bold>\<open>Not modelled.\<close>  The terminal interface, the command line, the HTTP and socket interfaces, the
  cluster and the services that edit rule files are input and output around the core.  Loading,
  writing, migration and validation of configuration files, the download and parsing of public
  lists, the upstream transports, the reader of the neighbour table, statistics, query log and
  audit lines act on files and sockets; the values they give to the core are arguments here.  The
  optional DNSSEC feature rests on signature libraries, and the handler model is the build without
  it.  In the handler, wire encoding and elapsed times are left out; in the cache, the waiting of concurrent
  fetches for one key and the floating-point thresholds of the prefetch; of the regular
  expressions only the mapping of errors is modelled.  Index and unwrap expressions of the operator-rule
  lookup that a successful compilation keeps in range (an origin's first row, the program of a regex
  rule) have no panic value, and a resolved profile is modelled without the local records the handler
  reads from their own table.
\<close>

section \<open>From a client address to a verdict\<close>

text \<open>C1. The whole path from a client to a verdict.  Compile a snapshot from the operator's rule
  files, build the resolver map on it and resolve a client address to a profile: the policy
  decision for any name exists (no panic), and blocks it exactly when the rows of the files
  that profile mounts block it, or with no matching row \<open>block_all\<close> or the lists do.\<close>

theorem client_query_by_rows:
  fixes re_build :: "string \<Rightarrow> (string, 'c) result"
  assumes "compile_operator_rules sha256 re_compile snapshot packs profiles l adm = (Inr c, adm')"
    and "no_collision sha256 packs"
    and "re_profile (resolve (build_resolver_map re_build cfg store (Some c) ident arp0 now time) arp ip) = Some p"
    and "m \<in> set profiles" "pm_profile_id m = rp_name p"
  shows "\<exists>dec. evaluate_active_operator_policy hash op_is_match eng d p = Some dec
    \<and> (apd_blocked dec \<longleftrightarrow>
         verdict_by_tier (matching_tiers re_compile op_is_match l packs (pm_custom_lists m) d) (pm_block_all m)
           (external_matches_of hash eng d p) = VBlock)"
proof -
  obtain b where "rp_operator_rules p = Some b" "profile_binding_new c (pm_profile_id m) = Some b"
    using served_profile_binding [OF assms(3)] assms(5) by auto
  then show ?thesis using active_policy_by_rows [OF assms(1,2,4)] by blast
qed

theorem client_query_by_rows_witness:
  "\<exists>c adm' p dec. sample_compile = (Inr c, adm') \<and> re_profile (sample_resolve (Some c) Map.empty (V4 1)) = Some p
     \<and> evaluate_active_operator_policy (\<lambda>_. 0) (\<lambda>_ _. False) engine_new ''x.a.b'' p = Some dec
     \<and> (apd_blocked dec \<longleftrightarrow>
          verdict_by_tier (matching_tiers (\<lambda>_ _ _. Inr ()) (\<lambda>_ _. False) default_limits sample_packs [''ads''] ''x.a.b'')
            False (external_matches_of (\<lambda>_. 0) engine_new ''x.a.b'' p) = VBlock)"
proof (rule sample_compile_Inr)
  fix c adm' assume c: "sample_compile = (Inr c, adm')"
  have "map_option rp_name (re_profile (sample_resolve (Some sample_snapshot) Map.empty (V4 1))) = Some ''kids''"
    by code_simp
  then obtain p where p: "re_profile (sample_resolve (Some c) Map.empty (V4 1)) = Some p" "rp_name p = ''kids''"
    by (auto simp: sample_compileD [OF c])
  have m: "hd sample_profiles \<in> set sample_profiles" "pm_profile_id (hd sample_profiles) = ''kids''"
    "pm_custom_lists (hd sample_profiles) = [''ads'']" "\<not> pm_block_all (hd sample_profiles)"
    by (simp_all add: sample_profiles_def)
  show ?thesis
    using client_query_by_rows [OF c sample_no_collision p(1) m(1), unfolded m(2,3) p(2), OF refl,
        of "\<lambda>_. 0" "\<lambda>_ _. False" engine_new "''x.a.b''"] c p(1) m(4)
    by auto
qed


section \<open>From an answer to a verdict\<close>

text \<open>C5. The whole path of an answer.  With the same snapshot, map and profile, let the decision
  on the queried name \<open>d\<close> have been taken: the answer is served exactly when the chain of
  CNAME links from the served name ends, has no fork, no loop and no more links than allowed
  (the rewrite counting as one), no link starts at the rewritten name, every name on the chain
  has a text, and no such name is blocked by the rows, where an allow row that decided the
  queried name yields only to a deny row of a higher tier.\<close>

theorem answer_chain_by_rows:
  fixes re_build :: "string \<Rightarrow> (string, 'c) result"
  assumes "compile_operator_rules sha256 re_compile snapshot packs profiles l adm = (Inr c, adm')"
    and "no_collision sha256 packs"
    and "re_profile (resolve (build_resolver_map re_build cfg store (Some c) ident arp0 now time) arp ip) = Some p"
    and "m \<in> set profiles" "pm_profile_id m = rp_name p"
    and "evaluate_active_operator_policy hash op_is_match eng d p = Some dec"
    and "name_library labels same_name" "well_dotted qname" "\<forall>o' \<in> set_option original. well_dotted o'"
  defines "rows \<equiv> matching_tiers re_compile op_is_match l packs (pm_custom_lists m)"
  shows "walk_response_with_rewrite labels same_name hash op_is_match eng p (apd_grant dec) records qname original max_depth =
      Some CnameAllow \<longleftrightarrow>
    rewrite_hops original \<le> min max_depth MAX_HOPS
    \<and> cname_edges labels records `` original_labels original = {}
    \<and> clean_chain (cname_edges labels records)
        (\<lambda>t. \<exists>s. target_text t = Some s
           \<and> target_verdict (rows s) (granted_tier (rows d)) (pm_block_all m) (external_matches_of hash eng s p) = VForward)
        (insert (dotted_labels qname) (original_labels original)) (min max_depth MAX_HOPS - rewrite_hops original)
        (dotted_labels qname)"
proof -
  obtain b where b: "rp_operator_rules p = Some b" "profile_binding_new c (pm_profile_id m) = Some b"
    using served_profile_binding [OF assms(3)] assms(5) by auto
  obtain compiled where compiled: "profile_of c (pm_profile_id m) = Some compiled" "binding_profile b = Some compiled"
    using binding_new_profile [OF b(2)] .
  then have tiers: "map_option rh_tier (lookup_hit op_is_match compiled s) = top_tier (rows s)"
    and ball: "cp_block_all compiled = pm_block_all m" for s
    using compiled_lookup_tier [OF assms(1,2,4), of op_is_match] unfolding rows_def by auto
  note grant = active_policy_grant [OF b(1) compiled(2) assms(6) tiers]
  have "hop_ok (evaluate_synthetic_cname_hop hash op_is_match eng p (apd_grant dec)) =
      (\<lambda>t. \<exists>s. target_text t = Some s
         \<and> target_verdict (rows s) (granted_tier (rows d)) (pm_block_all m) (external_matches_of hash eng s p) = VForward)"
    unfolding hop_ok_def hop_by_tiers [OF b(1) compiled(2) tiers grant(2)] grant(1) ball ..
  then show ?thesis unfolding walk_allow_iff [OF assms(7-9)] using b(1) by simp
qed


text \<open>The sample files allow \<open>c.a.b\<close> and deny \<open>a.b\<close>: an answer that leads from the first to a name
  below the second is served under the grant.\<close>

theorem answer_chain_by_rows_witness:
  "\<exists>c adm' p dec. sample_compile = (Inr c, adm') \<and> re_profile (sample_resolve (Some c) Map.empty (V4 1)) = Some p
     \<and> evaluate_active_operator_policy (\<lambda>_. 0) (\<lambda>_ _. False) engine_new ''c.a.b'' p = Some dec
     \<and> walk_response_with_rewrite plain_labels plain_same (\<lambda>_. 0) (\<lambda>_ _. False) engine_new p (apd_grant dec)
          [link [''c'', ''a'', ''b''] [''X'', ''a'', ''b'']] ''c.a.b'' None 16 = Some CnameAllow
     \<and> clean_chain (cname_edges plain_labels [link [''c'', ''a'', ''b''] [''X'', ''a'', ''b'']])
          (\<lambda>t. \<exists>s. target_text t = Some s
             \<and> target_verdict (matching_tiers (\<lambda>_ _ _. Inr ()) (\<lambda>_ _. False) default_limits sample_packs [''ads''] s)
                 (granted_tier (matching_tiers (\<lambda>_ _ _. Inr ()) (\<lambda>_ _. False) default_limits sample_packs [''ads''] ''c.a.b''))
                 False (external_matches_of (\<lambda>_. 0) engine_new s p) = VForward)
          {[''c'', ''a'', ''b'']} 16 [''c'', ''a'', ''b'']"
proof (rule sample_compile_Inr)
  fix c adm' assume c: "sample_compile = (Inr c, adm')"
  let ?rs = "[link [''c'', ''a'', ''b''] [''X'', ''a'', ''b'']]"
  have "case re_profile (sample_resolve (Some sample_snapshot) Map.empty (V4 1)) of None \<Rightarrow> False | Some p \<Rightarrow>
        rp_name p = ''kids'' \<and>
        (case evaluate_active_operator_policy (\<lambda>_. 0) (\<lambda>_ _. False) engine_new ''c.a.b'' p of None \<Rightarrow> False | Some dec \<Rightarrow>
          walk_response_with_rewrite plain_labels plain_same (\<lambda>_. 0) (\<lambda>_ _. False) engine_new p (apd_grant dec) ?rs ''c.a.b'' None 16 =
            Some CnameAllow)"
    by code_simp
  then obtain p dec where p: "re_profile (sample_resolve (Some c) Map.empty (V4 1)) = Some p" "rp_name p = ''kids''"
    and dec: "evaluate_active_operator_policy (\<lambda>_. 0) (\<lambda>_ _. False) engine_new ''c.a.b'' p = Some dec"
    and walk: "walk_response_with_rewrite plain_labels plain_same (\<lambda>_. 0) (\<lambda>_ _. False) engine_new p (apd_grant dec) ?rs ''c.a.b'' None 16 =
        Some CnameAllow"
    by (auto simp: sample_compileD [OF c] split: option.splits)
  have m: "hd sample_profiles \<in> set sample_profiles" "pm_profile_id (hd sample_profiles) = ''kids''"
    "pm_custom_lists (hd sample_profiles) = [''ads'']" "pm_block_all (hd sample_profiles) = False"
    by (simp_all add: sample_profiles_def)
  have q: "well_dotted ''c.a.b''" "dotted_labels ''c.a.b'' = [''c'', ''a'', ''b'']" by code_simp+
  have "set_option None = ({} :: string set)" by simp
  then show ?thesis
    using answer_chain_by_rows [OF c sample_no_collision p(1) m(1), unfolded m(2-4) p(2), OF refl dec plain_library q(1),
        of None ?rs 16] walk c p(1) dec
    by (simp add: q(2) MAX_HOPS_def)
qed

section \<open>From a request to a response\<close>

text \<open>C2. The whole request.  With the same snapshot and map behind the handler, a request for a name
  that the rows of the client's profile block, or \<open>block_all\<close> or the lists with no matching row,
  is neither asked upstream nor answered from the cache, whatever the state of the cache, the
  limiters and the rewrites.\<close>

theorem blocked_name_never_leaves:
  fixes re_build :: "string \<Rightarrow> (string, 'c) result"
  assumes "compile_operator_rules sha256 re_compile snapshot packs profiles l adm = (Inr c, adm')"
    and "no_collision sha256 packs"
    and "fh_profiles h = Some (build_resolver_map re_build cfg store (Some c) ident arp0 now time)"
    and "re_profile (resolve (build_resolver_map re_build cfg store (Some c) ident arp0 now time) (map_of (ev_arp env)) (rq_src rq)) = Some p"
    and "m \<in> set profiles" "pm_profile_id m = rp_name p" "rq_query rq = Some (name, rt, cls)"
    and "verdict_by_tier (matching_tiers re_compile (ev_op_is_match env) l packs (pm_custom_lists m) (asked_domain env name))
           (pm_block_all m) (external_matches_of (ev_hash env) (fh_filter h) (asked_domain env name) p) = VBlock"
    and "handle_request env h rq = Some r"
  shows "hr_asked r = [] \<and> hr_entry r = None"
proof (rule ccontr)
  assume "\<not> (hr_asked r = [] \<and> hr_entry r = None)"
  then obtain h' q where q: "admitted env h rq h' q" using request_admitted [OF assms(9)] by blast
  then have n: "qc_name q = name" "qc_profile q = p" using assms(3,4,7) by (auto simp: admitted_def)
  obtain b where "rp_operator_rules p = Some b" "profile_binding_new c (pm_profile_id m) = Some b"
    using served_profile_binding [OF assms(4)] assms(6) by auto
  then obtain dec where "evaluate_active_operator_policy (ev_hash env) (ev_op_is_match env) (fh_filter h) (asked_domain env name) p = Some dec"
      "apd_blocked dec"
    using active_policy_by_rows [OF assms(1,2,5), where d = "asked_domain env name"] assms(8) by blast
  then show False using q by (auto simp: admitted_def n)
qed

text \<open>The sample file denies \<open>a.b\<close>.\<close>

theorem blocked_name_never_leaves_witness:
  "\<exists>r. handle_request sample_env (sample_handler sample_snapshot) (sample_request [''x'', ''a'', ''b'']) = Some r
     \<and> hr_asked r = [] \<and> hr_entry r = None"
proof -
  let ?h = "sample_handler sample_snapshot" and ?rq = "sample_request [''x'', ''a'', ''b'']"
  have h: "fh_profiles ?h = Some (sample_map sample_snapshot)" "fh_filter ?h = engine_new"
    and e: "ev_arp sample_env = []" "ev_hash sample_env = (\<lambda>_. 0)" "ev_op_is_match sample_env = (\<lambda>_ _. False)"
    and rq: "rq_src ?rq = V4 1" "rq_query ?rq = Some ([''x'', ''a'', ''b''], RtA, 1)"
    by (simp_all add: sample_handler_def sample_env_def sample_request_def)
  have d: "asked_domain sample_env [''x'', ''a'', ''b''] = ''x.a.b''" by code_simp
  have "map_option rp_name (re_profile (resolve (sample_map sample_snapshot) (map_of []) (V4 1))) = Some ''kids''"
    by code_simp
  then obtain p where p: "re_profile (resolve (sample_map sample_snapshot) (map_of []) (V4 1)) = Some p" "rp_name p = ''kids''" by auto
  obtain r where r: "handle_request sample_env ?h ?rq = Some r"
    using sample_handles by blast
  have m: "hd sample_profiles \<in> set sample_profiles" "pm_profile_id (hd sample_profiles) = rp_name p"
    "pm_custom_lists (hd sample_profiles) = [''ads'']" "\<not> pm_block_all (hd sample_profiles)"
    by (simp_all add: sample_profiles_def p(2))
  have "map_option (\<lambda>cp. map_option rh_tier (lookup_hit (\<lambda>_ _. False) cp ''x.a.b'')) (profile_of sample_snapshot ''kids'') =
      Some (Some OrdinaryDeny)"
    by code_simp
  then have "top_tier (matching_tiers (\<lambda>_ _ _. Inr ()) (\<lambda>_ _. False) default_limits sample_packs [''ads''] ''x.a.b'') = Some OrdinaryDeny"
    using compiled_lookup_tier [OF sample_compiles sample_no_collision m(1), of "\<lambda>_ _. False"]
    by (auto simp: m p(2) dest!: spec [of _ "''x.a.b''"])
  then have v: "verdict_by_tier (matching_tiers (\<lambda>_ _ _. Inr ()) (\<lambda>_ _. False) default_limits sample_packs [''ads''] ''x.a.b'') b ext = VBlock"
    for b ext
    by (auto simp: verdict_by_tier_def top_tier_def split: if_splits)
  show ?thesis
    using blocked_name_never_leaves [OF sample_compiles sample_no_collision h(1), where p = p and env = sample_env and rq = ?rq,
        unfolded e h(2) rq, OF p(1) m(1,2) refl, unfolded d m(3), OF v r] r
    by blast
qed

end
